(* ===== verification/Prelude.thy ===== *)
theory Prelude
  imports Main "HOL-Library.Word"
begin

text \<open>
  Shared vocabulary of the development: Rust's fixed-width integers, the result of code that may
  panic, programs that thread a state and may return an error early (the \<open>?\<close> operator), slices
  and the copying of slices, and the byte-order conversions of the standard library.
\<close>

unbundle bit_operations_syntax

section \<open>Types\<close>

type_synonym u8 = "8 word"
type_synonym u16 = "16 word"
type_synonym u32 = "32 word"
type_synonym u64 = "64 word"
type_synonym u128 = "128 word"
type_synonym usize = nat

text \<open>\<open>Result<T, E>\<close> is the sum type with the error on the left.\<close>

type_synonym ('e, 'a) result = "'e + 'a"

abbreviation Err :: "'e \<Rightarrow> ('e, 'a) result" where "Err \<equiv> Inl"
abbreviation Ok :: "'a \<Rightarrow> ('e, 'a) result" where "Ok \<equiv> Inr"

text \<open>
  Code that may panic (a failed \<open>assert!\<close>, an index out of range, an \<open>expect\<close> on \<open>None\<close>, a
  division by zero, an arithmetic overflow with overflow checks on) yields an \<open>outcome\<close>.
\<close>

datatype 'a outcome = Ret (ret_val: 'a) | Panic

named_theorems prog_simps \<open>unfolding of the program combinators\<close>
named_theorems word_bits \<open>bits of the words the components build\<close>

section \<open>Bounds of the machine integers\<close>

lemma unat_u8_lt: "unat (x :: u8) < 256"
  using unsigned_less [of x, where ?'a = nat] by simp

lemma unat_u16_lt: "unat (x :: u16) < 65536"
  using unsigned_less [of x, where ?'a = nat] by simp

lemma unat_u32_lt: "unat (x :: u32) < 4294967296"
  using unsigned_less [of x, where ?'a = nat] by simp

lemma unat_u64_lt: "unat (x :: u64) < 18446744073709551616"
  using unsigned_less [of x, where ?'a = nat] by simp

section \<open>Panicking code\<close>

fun obind :: "'a outcome \<Rightarrow> ('a \<Rightarrow> 'b outcome) \<Rightarrow> 'b outcome" where
  "obind (Ret x) f = f x"
| "obind Panic f = Panic"

fun map_outcome_val :: "('a \<Rightarrow> 'b) \<Rightarrow> 'a outcome \<Rightarrow> 'b outcome" where
  "map_outcome_val f (Ret x) = Ret (f x)"
| "map_outcome_val f Panic = Panic"

definition rust_assert :: "bool \<Rightarrow> 'a outcome \<Rightarrow> 'a outcome" where
  "rust_assert b k = (if b then k else Panic)"

lemma obind_Ret_iff: "obind m f = Ret y \<longleftrightarrow> (\<exists>x. m = Ret x \<and> f x = Ret y)"
  by (cases m) auto

lemma obind_Panic_iff: "obind m f = Panic \<longleftrightarrow> m = Panic \<or> (\<exists>x. m = Ret x \<and> f x = Panic)"
  by (cases m) auto

lemma obind_assoc: "obind (obind m f) g = obind m (\<lambda>x. obind (f x) g)"
  by (cases m) auto

lemma map_outcome_val_Ret_iff: "map_outcome_val f m = Ret y \<longleftrightarrow> (\<exists>x. m = Ret x \<and> y = f x)"
  by (cases m) auto

lemma rust_assert_True [simp]: "rust_assert True k = k"
  by (simp add: rust_assert_def)

lemma rust_assert_False [simp]: "rust_assert False k = Panic"
  by (simp add: rust_assert_def)

section \<open>Programs over a state\<close>

text \<open>
  An \<open>async fn\<close> that calls the operations of a stateful device and uses \<open>?\<close> on their results is a
  \<open>prog\<close>: it panics, or returns the new state with a \<open>Result\<close>. \<open>bindR m f\<close> is
  \<open>let x = m.await?; f(x)\<close>: an error of \<open>m\<close> is the result of the whole.
\<close>

type_synonym ('s, 'e, 'a) prog = "'s \<Rightarrow> ('s \<times> ('e, 'a) result) outcome"

definition returnR :: "'a \<Rightarrow> ('s, 'e, 'a) prog" where
  "returnR x = (\<lambda>s. Ret (s, Ok x))"

definition throwR :: "'e \<Rightarrow> ('s, 'e, 'a) prog" where
  "throwR e = (\<lambda>s. Ret (s, Err e))"

definition panicR :: "('s, 'e, 'a) prog" where
  "panicR = (\<lambda>s. Panic)"

definition bindR :: "('s, 'e, 'a) prog \<Rightarrow> ('a \<Rightarrow> ('s, 'e, 'b) prog) \<Rightarrow> ('s, 'e, 'b) prog" where
  "bindR m f = (\<lambda>s. case m s of
       Panic \<Rightarrow> Panic
     | Ret (s', Inl e) \<Rightarrow> Ret (s', Err e)
     | Ret (s', Inr x) \<Rightarrow> f x s')"

text \<open>\<open>tryR m f\<close> is \<open>match m.await { ... }\<close>: both the error and the value are passed on.\<close>

definition tryR :: "('s, 'e, 'a) prog \<Rightarrow> (('e, 'a) result \<Rightarrow> ('s, 'd, 'b) prog) \<Rightarrow> ('s, 'd, 'b) prog"
  where
  "tryR m f = (\<lambda>s. case m s of Panic \<Rightarrow> Panic | Ret (s', r) \<Rightarrow> f r s')"

text \<open>A step that cannot fail, and a step that computes a panicking value.\<close>

definition actR :: "('s \<Rightarrow> 's \<times> 'a) \<Rightarrow> ('s, 'e, 'a) prog" where
  "actR f = (\<lambda>s. case f s of (s', x) \<Rightarrow> Ret (s', Ok x))"

definition liftO :: "'a outcome \<Rightarrow> ('s, 'e, 'a) prog" where
  "liftO m = (\<lambda>s. case m of Panic \<Rightarrow> Panic | Ret x \<Rightarrow> Ret (s, Ok x))"

lemmas prog_defs = returnR_def throwR_def panicR_def bindR_def tryR_def actR_def liftO_def

lemma returnR_apply [simp, prog_simps]: "returnR x s = Ret (s, Ok x)"
  by (simp add: returnR_def)

lemma throwR_apply [simp, prog_simps]: "throwR e s = Ret (s, Err e)"
  by (simp add: throwR_def)

lemma panicR_apply [simp, prog_simps]: "panicR s = Panic"
  by (simp add: panicR_def)

lemma liftO_apply [simp, prog_simps]: "liftO (Ret x) s = Ret (s, Ok x)" "liftO Panic s = Panic"
  by (simp_all add: liftO_def)

lemma liftO_Ret_iff: "liftO m s = Ret (t, r) \<longleftrightarrow> (\<exists>x. m = Ret x \<and> t = s \<and> r = Ok x)"
  by (cases m) auto

lemma bindR_cases:
  "bindR m f s = Panic \<longleftrightarrow> m s = Panic \<or> (\<exists>s' x. m s = Ret (s', Ok x) \<and> f x s' = Panic)"
  "bindR m f s = Ret (t, Err e) \<longleftrightarrow>
     m s = Ret (t, Err e) \<or> (\<exists>s' x. m s = Ret (s', Ok x) \<and> f x s' = Ret (t, Err e))"
  "bindR m f s = Ret (t, Ok y) \<longleftrightarrow> (\<exists>s' x. m s = Ret (s', Ok x) \<and> f x s' = Ret (t, Ok y))"
  by (auto simp: bindR_def split: outcome.splits prod.splits sum.splits)

lemma bindR_eqs [prog_simps]:
  "m s = Ret (s', Ok x) \<Longrightarrow> bindR m f s = f x s'"
  "m s = Ret (s', Err e) \<Longrightarrow> bindR m f s = Ret (s', Err e)"
  "m s = Panic \<Longrightarrow> bindR m f s = Panic"
  by (simp_all add: bindR_def)

lemma tryR_eqs [prog_simps]:
  "m s = Ret (s', r) \<Longrightarrow> tryR m f s = f r s'"
  "m s = Panic \<Longrightarrow> tryR m f s = Panic"
  by (simp_all add: tryR_def)

lemma tryR_Panic_iff: "tryR m f s = Panic \<longleftrightarrow> m s = Panic \<or> (\<exists>s' r. m s = Ret (s', r) \<and> f r s' = Panic)"
  by (auto simp: tryR_def split: outcome.splits prod.splits)

lemma tryR_Ret_iff: "tryR m f s = Ret (t, q) \<longleftrightarrow> (\<exists>s' r. m s = Ret (s', r) \<and> f r s' = Ret (t, q))"
  by (auto simp: tryR_def split: outcome.splits prod.splits)

lemma bindR_returnR [simp]: "bindR (returnR x) f = f x"
  by (simp add: bindR_def fun_eq_iff)

lemma bindR_throwR [simp]: "bindR (throwR e) f = throwR e"
  by (simp add: bindR_def fun_eq_iff)

text \<open>
  \<open>safeR P m Q\<close>: started in a state with \<open>P\<close>, the program does not panic, and every state and
  result it can end in satisfies \<open>Q\<close>. It is the total-correctness triple of the programs here.
\<close>

definition safeR :: "('s \<Rightarrow> bool) \<Rightarrow> ('s, 'e, 'a) prog \<Rightarrow> ('s \<Rightarrow> ('e, 'a) result \<Rightarrow> bool) \<Rightarrow> bool"
  where
  "safeR P m Q \<longleftrightarrow> (\<forall>s. P s \<longrightarrow> (\<exists>t r. m s = Ret (t, r) \<and> Q t r))"

lemma safeR_bind:
  assumes "safeR P m (\<lambda>t r. case r of Inl e \<Rightarrow> Q t (Err e) | Inr x \<Rightarrow> R x t)"
    and "\<And>x. safeR (R x) (f x) Q"
  shows "safeR P (bindR m f) Q"
  using assms unfolding safeR_def bindR_def
  by (fastforce split: sum.splits)

lemma safeR_try:
  assumes "safeR P m R" and "\<And>r. safeR (\<lambda>t. R t r) (f r) Q"
  shows "safeR P (tryR m f) Q"
  using assms unfolding safeR_def tryR_def by fastforce

lemma safeR_return: "(\<And>s. P s \<Longrightarrow> Q s (Ok x)) \<Longrightarrow> safeR P (returnR x) Q"
  by (simp add: safeR_def)

lemma safeR_throw: "(\<And>s. P s \<Longrightarrow> Q s (Err e)) \<Longrightarrow> safeR P (throwR e) Q"
  by (simp add: safeR_def)

lemma safeR_conseq:
  assumes "safeR P' m Q'" and "\<And>s. P s \<Longrightarrow> P' s" and "\<And>t r. Q' t r \<Longrightarrow> Q t r"
  shows "safeR P m Q"
  using assms unfolding safeR_def by blast

lemma safeR_no_panic: "safeR P m Q \<Longrightarrow> P s \<Longrightarrow> m s \<noteq> Panic"
  unfolding safeR_def by fastforce

lemma safeR_post: "safeR P m Q \<Longrightarrow> P s \<Longrightarrow> m s = Ret (t, r) \<Longrightarrow> Q t r"
  unfolding safeR_def by fastforce

text \<open>
  \<open>keepsR P m Q\<close>: the program does not panic, keeps the state property \<open>P\<close> whether it fails or not,
  and a value it returns satisfies \<open>Q\<close>. Most of the code's routines are of this kind.
\<close>

definition keepsR :: "('s \<Rightarrow> bool) \<Rightarrow> ('s, 'e, 'a) prog \<Rightarrow> ('a \<Rightarrow> bool) \<Rightarrow> bool" where
  "keepsR P m Q \<longleftrightarrow> safeR P m (\<lambda>s r. P s \<and> (\<forall>x. r = Ok x \<longrightarrow> Q x))"

named_theorems keeps_intros \<open>introduction rules for programs that keep a property of the state\<close>

lemma keepsR_bind:
  assumes "keepsR P m Q'" and "\<And>x. Q' x \<Longrightarrow> keepsR P (f x) Q"
  shows "keepsR P (bindR m f) Q"
  unfolding keepsR_def
proof (rule safeR_bind [where R = "\<lambda>x s. P s \<and> Q' x"])
  show "safeR P m (\<lambda>t r. case r of Inl e \<Rightarrow> P t \<and> (\<forall>x. Err e = Ok x \<longrightarrow> Q x) | Inr x \<Rightarrow> P t \<and> Q' x)"
    using assms(1) unfolding keepsR_def by (rule safeR_conseq) (auto split: sum.splits)
  show "safeR (\<lambda>s. P s \<and> Q' x) (f x) (\<lambda>s r. P s \<and> (\<forall>x. r = Ok x \<longrightarrow> Q x))" for x
    using assms(2) [of x] by (cases "Q' x") (auto simp: keepsR_def safeR_def)
qed

lemma keepsR_try:
  assumes "keepsR P m Q'" and "\<And>e. keepsR P (f (Err e)) Q" and "\<And>x. Q' x \<Longrightarrow> keepsR P (f (Ok x)) Q"
  shows "keepsR P (tryR m f) Q"
  unfolding keepsR_def
proof (rule safeR_try [OF assms(1) [unfolded keepsR_def]])
  fix r
  show "safeR (\<lambda>t. P t \<and> (\<forall>x. r = Ok x \<longrightarrow> Q' x)) (f r) (\<lambda>s r. P s \<and> (\<forall>x. r = Ok x \<longrightarrow> Q x))"
    using assms(2,3) by (cases r) (auto simp: keepsR_def safeR_def)
qed

lemma safeR_keep_bind:
  assumes "keepsR P m Q'" and "\<And>x. Q' x \<Longrightarrow> safeR P (f x) R" and "\<And>s e. P s \<Longrightarrow> R s (Err e)"
  shows "safeR P (bindR m f) R"
proof (rule safeR_bind [where R = "\<lambda>x s. P s \<and> Q' x"])
  show "safeR P m (\<lambda>t r. case r of Inl e \<Rightarrow> R t (Err e) | Inr x \<Rightarrow> P t \<and> Q' x)"
    using assms(1) unfolding keepsR_def
    by (rule safeR_conseq) (use assms(3) in \<open>auto split: sum.splits\<close>)
  show "safeR (\<lambda>s. P s \<and> Q' x) (f x) R" for x
    using assms(2) [of x] by (cases "Q' x") (auto simp: safeR_def)
qed

lemma safeR_keep: "keepsR P m Q \<Longrightarrow> (\<And>s r. P s \<Longrightarrow> R s r) \<Longrightarrow> safeR P m R"
  unfolding keepsR_def by (erule safeR_conseq) auto

lemma keepsR_return [keeps_intros]: "Q x \<Longrightarrow> keepsR P (returnR x) Q"
  by (simp add: keepsR_def safeR_def)

lemma keepsR_return_eta [keeps_intros]: "Q x \<Longrightarrow> keepsR P (\<lambda>s. Ret (s, Ok x)) Q"
  by (simp add: keepsR_def safeR_def)

lemma keepsR_throw [keeps_intros]: "keepsR P (throwR e) Q"
  by (simp add: keepsR_def safeR_def)

lemma keepsR_liftO [keeps_intros]: "m = Ret x \<Longrightarrow> Q x \<Longrightarrow> keepsR P (liftO m) Q"
  by (simp add: keepsR_def safeR_def)

lemma keepsR_act: "(\<And>s. P s \<Longrightarrow> P (fst (f s)) \<and> Q (snd (f s))) \<Longrightarrow> keepsR P (actR f) Q"
  by (auto simp: keepsR_def safeR_def actR_def split_beta)

lemma safeR_if: "(b \<Longrightarrow> safeR P m Q) \<Longrightarrow> (\<not> b \<Longrightarrow> safeR P n Q) \<Longrightarrow> safeR P (if b then m else n) Q"
  by simp

lemma safeR_prod: "(\<And>a b. x = (a, b) \<Longrightarrow> safeR P (f a b) Q) \<Longrightarrow> safeR P (case x of (a, b) \<Rightarrow> f a b) Q"
  by (cases x) simp

lemma keepsR_if [keeps_intros]:
  "(b \<Longrightarrow> keepsR P m Q) \<Longrightarrow> (\<not> b \<Longrightarrow> keepsR P n Q) \<Longrightarrow> keepsR P (if b then m else n) Q"
  by simp

lemma keepsR_prod [keeps_intros]:
  "(\<And>a b. x = (a, b) \<Longrightarrow> keepsR P (f a b) Q) \<Longrightarrow> keepsR P (case x of (a, b) \<Rightarrow> f a b) Q"
  by (cases x) simp

lemma keepsR_weaken: "keepsR P m Q' \<Longrightarrow> (\<And>x. Q' x \<Longrightarrow> Q x) \<Longrightarrow> keepsR P m Q"
  unfolding keepsR_def by (erule safeR_conseq) auto

section \<open>Slices\<close>

text \<open>\<open>&buf[i..j]\<close>: a panic unless \<open>i \<le> j \<le> len\<close>.\<close>

definition slice :: "'a list \<Rightarrow> nat \<Rightarrow> nat \<Rightarrow> 'a list outcome" where
  "slice xs i j = (if i \<le> j \<and> j \<le> length xs then Ret (take (j - i) (drop i xs)) else Panic)"

text \<open>\<open>buf[i]\<close>: a panic out of range.\<close>

definition index :: "'a list \<Rightarrow> nat \<Rightarrow> 'a outcome" where
  "index xs i = (if i < length xs then Ret (xs ! i) else Panic)"

text \<open>Overwriting a part of a buffer in place; the length does not change.\<close>

definition overwrite :: "'a list \<Rightarrow> nat \<Rightarrow> 'a list \<Rightarrow> 'a list" where
  "overwrite xs i ys = take i xs @ ys @ drop (i + length ys) xs"

lemma slice_prefix [simp]: "n \<le> length xs \<Longrightarrow> slice xs 0 n = Ret (take n xs)"
  by (simp add: slice_def)

lemma slice_Ret_iff: "slice xs i j = Ret ys \<longleftrightarrow> i \<le> j \<and> j \<le> length xs \<and> ys = take (j - i) (drop i xs)"
  by (auto simp: slice_def)

lemma slice_Panic_iff: "slice xs i j = Panic \<longleftrightarrow> \<not> (i \<le> j \<and> j \<le> length xs)"
  by (simp add: slice_def)

lemma index_in [simp]: "i < length xs \<Longrightarrow> index xs i = Ret (xs ! i)"
  by (simp add: index_def)

lemma index_Panic_iff [simp]: "index xs i = Panic \<longleftrightarrow> length xs \<le> i"
  by (auto simp: index_def)

lemma length_overwrite [simp]: "i + length ys \<le> length xs \<Longrightarrow> length (overwrite xs i ys) = length xs"
  by (simp add: overwrite_def)

lemma take_overwrite: "i + length ys \<le> length xs \<Longrightarrow> take (i + length ys) (overwrite xs i ys) = take i xs @ ys"
  by (simp add: overwrite_def)

lemma take_drop_overwrite:
  "i + length ys \<le> length xs \<Longrightarrow> take (length ys) (drop i (overwrite xs i ys)) = ys"
  by (simp add: overwrite_def)

lemma overwrite_Nil [simp]: "overwrite xs i [] = xs"
  by (simp add: overwrite_def)

section \<open>Byte order\<close>

text \<open>
  \<open>to_le_bytes\<close>, \<open>to_be_bytes\<close>, \<open>from_le_bytes\<close> and \<open>from_be_bytes\<close> of the unsigned integers, on
  the unsigned value, with the number of bytes as an argument.
\<close>

fun le_bytes :: "nat \<Rightarrow> nat \<Rightarrow> u8 list" where
  "le_bytes 0 x = []"
| "le_bytes (Suc k) x = word_of_nat x # le_bytes k (x div 256)"

definition be_bytes :: "nat \<Rightarrow> nat \<Rightarrow> u8 list" where
  "be_bytes k x = rev (le_bytes k x)"

fun from_le :: "u8 list \<Rightarrow> nat" where
  "from_le [] = 0"
| "from_le (b # bs) = unat b + 256 * from_le bs"

definition from_be :: "u8 list \<Rightarrow> nat" where
  "from_be bs = from_le (rev bs)"

lemma length_le_bytes [simp]: "length (le_bytes k x) = k"
  by (induction k x rule: le_bytes.induct) auto

lemma length_be_bytes [simp]: "length (be_bytes k x) = k"
  by (simp add: be_bytes_def)

lemma from_le_le_bytes: "from_le (le_bytes k x) = x mod 256 ^ k"
proof (induction k x rule: le_bytes.induct)
  case (1 x)
  then show ?case by simp
next
  case (2 k x)
  have "x mod 256 ^ Suc k = x mod 256 + 256 * (x div 256 mod 256 ^ k)"
    by (simp add: mod_mult2_eq)
  with 2 show ?case by (simp add: unat_of_nat take_bit_eq_mod)
qed

lemma from_be_be_bytes: "from_be (be_bytes k x) = x mod 256 ^ k"
  by (simp add: from_be_def be_bytes_def from_le_le_bytes)

lemma from_le_bound: "from_le bs < 256 ^ length bs"
proof (induction bs)
  case Nil
  then show ?case by simp
next
  case (Cons b bs)
  have "unat b < 256" by (rule unat_u8_lt)
  with Cons show ?case by simp
qed

lemma le_bytes_from_le: "le_bytes (length bs) (from_le bs) = bs"
proof (induction bs)
  case Nil
  then show ?case by simp
next
  case (Cons b bs)
  have "unat b < 256" by (rule unat_u8_lt)
  moreover have "(word_of_nat (unat b + 256 * from_le bs) :: u8) = b"
  proof -
    have "(256 :: u8) = 0" by simp
    then have "(word_of_nat (256 * from_le bs) :: u8) = 0"
      by (simp only: of_nat_mult of_nat_numeral mult_zero_left)
    then show ?thesis by (simp only: of_nat_add) simp
  qed
  ultimately show ?case using Cons by simp
qed

lemma from_be_bound: "from_be bs < 256 ^ length bs"
  using from_le_bound [of "rev bs"] by (simp add: from_be_def)

lemma from_le_two: "from_le [a, b] = unat a + 256 * unat b"
  by simp

text \<open>The conversions at the widths the code uses.\<close>

definition u16_from_le_bytes :: "u8 list \<Rightarrow> u16" where
  "u16_from_le_bytes bs = word_of_nat (from_le bs)"

definition u32_from_le_bytes :: "u8 list \<Rightarrow> u32" where
  "u32_from_le_bytes bs = word_of_nat (from_le bs)"

definition u32_from_be_bytes :: "u8 list \<Rightarrow> u32" where
  "u32_from_be_bytes bs = word_of_nat (from_be bs)"

definition u64_from_be_bytes :: "u8 list \<Rightarrow> u64" where
  "u64_from_be_bytes bs = word_of_nat (from_be bs)"

definition u64_from_le_bytes :: "u8 list \<Rightarrow> u64" where
  "u64_from_le_bytes bs = word_of_nat (from_le bs)"

definition u16_to_be_bytes :: "u16 \<Rightarrow> u8 list" where
  "u16_to_be_bytes x = be_bytes 2 (unat x)"

definition u32_to_be_bytes :: "u32 \<Rightarrow> u8 list" where
  "u32_to_be_bytes x = be_bytes 4 (unat x)"

definition u64_to_be_bytes :: "u64 \<Rightarrow> u8 list" where
  "u64_to_be_bytes x = be_bytes 8 (unat x)"

definition u16_to_le_bytes :: "u16 \<Rightarrow> u8 list" where
  "u16_to_le_bytes x = le_bytes 2 (unat x)"

definition u32_to_le_bytes :: "u32 \<Rightarrow> u8 list" where
  "u32_to_le_bytes x = le_bytes 4 (unat x)"

definition u64_to_le_bytes :: "u64 \<Rightarrow> u8 list" where
  "u64_to_le_bytes x = le_bytes 8 (unat x)"

lemmas byte_order_defs =
  u16_from_le_bytes_def u32_from_le_bytes_def u32_from_be_bytes_def u64_from_be_bytes_def
  u64_from_le_bytes_def u16_to_be_bytes_def u32_to_be_bytes_def u64_to_be_bytes_def
  u32_to_le_bytes_def u64_to_le_bytes_def

lemma length_to_bytes [simp]:
  "length (u16_to_be_bytes a) = 2" "length (u32_to_be_bytes b) = 4" "length (u64_to_be_bytes c) = 8"
  "length (u32_to_le_bytes b) = 4" "length (u64_to_le_bytes c) = 8"
  by (simp_all add: byte_order_defs)

lemma unat_mod_self [simp]: "unat (x :: 'a::len word) mod 2 ^ LENGTH('a) = unat x"
  by (simp add: unsigned_less)

lemma u16_be_roundtrip: "from_be (u16_to_be_bytes x) = unat x"
  using unat_u16_lt [of x] by (simp add: byte_order_defs from_be_be_bytes)

lemma u32_be_roundtrip: "u32_from_be_bytes (u32_to_be_bytes x) = x"
  using unat_u32_lt [of x] by (simp add: byte_order_defs from_be_be_bytes)

lemma u64_be_roundtrip: "u64_from_be_bytes (u64_to_be_bytes x) = x"
  using unat_u64_lt [of x] by (simp add: byte_order_defs from_be_be_bytes)

lemma u32_le_roundtrip: "u32_from_le_bytes (u32_to_le_bytes x) = x"
  using unat_u32_lt [of x] by (simp add: byte_order_defs from_le_le_bytes)

lemma u64_le_roundtrip: "u64_from_le_bytes (u64_to_le_bytes x) = x"
  using unat_u64_lt [of x] by (simp add: byte_order_defs from_le_le_bytes)

section \<open>Counting bits\<close>

text \<open>\<open>trailing_zeros\<close>, \<open>trailing_ones\<close> and \<open>leading_ones\<close> of the unsigned integers.\<close>

definition trailing_zeros :: "'a::len word \<Rightarrow> nat" where
  "trailing_zeros w = length (takeWhile (\<lambda>i. \<not> bit w i) [0..<LENGTH('a)])"

definition trailing_ones :: "'a::len word \<Rightarrow> nat" where
  "trailing_ones w = length (takeWhile (\<lambda>i. bit w i) [0..<LENGTH('a)])"

definition leading_ones :: "'a::len word \<Rightarrow> nat" where
  "leading_ones w = length (takeWhile (\<lambda>i. bit w i) (rev [0..<LENGTH('a)]))"

lemma takeWhile_upt_length:
  assumes "k = length (takeWhile P [0..<n])"
  shows "k \<le> n" "\<And>i. i < k \<Longrightarrow> P i" "k < n \<Longrightarrow> \<not> P k"
proof -
  show "k \<le> n" using length_takeWhile_le [of P "[0..<n]"] assms by simp
  show "P i" if "i < k" for i
  proof -
    have "takeWhile P [0..<n] ! i \<in> set (takeWhile P [0..<n])" using that assms by simp
    moreover have "takeWhile P [0..<n] ! i = i"
      using that assms \<open>k \<le> n\<close> by (simp add: takeWhile_nth)
    ultimately show ?thesis using set_takeWhileD by metis
  qed
  show "\<not> P k" if "k < n"
    using nth_length_takeWhile [of P "[0..<n]"] that assms by simp
qed

lemma trailing_ones_le: "trailing_ones (w :: 'a::len word) \<le> LENGTH('a)"
  by (simp add: trailing_ones_def takeWhile_upt_length(1))

lemma trailing_ones_bits: "i < trailing_ones w \<Longrightarrow> bit w i"
  unfolding trailing_ones_def by (rule takeWhile_upt_length(2) [OF refl])

lemma trailing_ones_stop:
  "trailing_ones (w :: 'a::len word) < LENGTH('a) \<Longrightarrow> \<not> bit w (trailing_ones w)"
  unfolding trailing_ones_def by (rule takeWhile_upt_length(3) [OF refl])

lemma trailing_zeros_le: "trailing_zeros (w :: 'a::len word) \<le> LENGTH('a)"
  by (simp add: trailing_zeros_def takeWhile_upt_length(1))

lemma trailing_zeros_bits: "i < trailing_zeros w \<Longrightarrow> \<not> bit w i"
  unfolding trailing_zeros_def by (rule takeWhile_upt_length(2) [OF refl])

lemma trailing_zeros_stop:
  "trailing_zeros (w :: 'a::len word) < LENGTH('a) \<Longrightarrow> bit w (trailing_zeros w)"
  unfolding trailing_zeros_def using takeWhile_upt_length(3) [OF refl] by blast

lemma trailing_zeros_less: "w \<noteq> 0 \<Longrightarrow> trailing_zeros (w :: 'a::len word) < LENGTH('a)"
proof (rule ccontr)
  assume "w \<noteq> 0" and "\<not> trailing_zeros w < LENGTH('a)"
  then have "\<not> bit w i" if "i < LENGTH('a)" for i
    using that trailing_zeros_bits [of i w] by simp
  then have "w = 0" by (auto intro!: bit_word_eqI)
  with \<open>w \<noteq> 0\<close> show False by simp
qed

lemma trailing_zeros_Min:
  assumes "w \<noteq> 0"
  shows "bit w (trailing_zeros (w :: 'a::len word))" and "bit w i \<Longrightarrow> trailing_zeros w \<le> i"
  using trailing_zeros_stop [OF trailing_zeros_less [OF assms]] trailing_zeros_bits [of i w]
  by (auto simp: not_less [symmetric])

section \<open>Words as sets of bits\<close>

text \<open>\<open>1 << n\<close>, for a shift amount below the width.\<close>

definition one_shl :: "nat \<Rightarrow> 'a::len word" where
  "one_shl n = push_bit n 1"

lemma bit_one_shl [word_bits]: "bit (one_shl n :: 'a::len word) i \<longleftrightarrow> i = n \<and> n < LENGTH('a)"
  by (auto simp: one_shl_def bit_simps)

lemma bit_or_one_shl [word_bits]:
  "bit (w OR one_shl n :: 'a::len word) i \<longleftrightarrow> bit w i \<or> (i = n \<and> n < LENGTH('a))"
  by (simp add: bit_or_iff bit_one_shl)

lemma bit_and_not_one_shl [word_bits]:
  "bit (w AND NOT (one_shl n) :: 'a::len word) i \<longleftrightarrow> bit w i \<and> i \<noteq> n"
  using bit_imp_le_length [of w i] by (auto simp: bit_and_iff bit_not_iff bit_one_shl)

lemma word_eq_0_iff_bits: "w = (0 :: 'a::len word) \<longleftrightarrow> (\<forall>i. \<not> bit w i)"
  by (metis bit_0_eq bit_word_eqI bot_apply bot_bool_def)

lemma Collect_bot [simp]: "Collect bot = {}"
  by auto

lemma and_one_shl_nonzero_iff:
  "(w AND one_shl n :: 'a::len word) \<noteq> 0 \<longleftrightarrow> n < LENGTH('a) \<and> bit w n"
  by (auto simp: word_eq_0_iff_bits bit_and_iff bit_one_shl)

lemma and_not_one_shl_less:
  assumes "bit w n"
  shows "unat (w AND NOT (one_shl n) :: 'a::len word) < unat w"
proof -
  have "w AND NOT (one_shl n) \<le> w" by (rule word_and_le2)
  moreover have "w AND NOT (one_shl n) \<noteq> w"
    using assms by (metis bit_and_not_one_shl)
  ultimately show ?thesis by (simp add: word_le_nat_alt word_unat_eq_iff le_less)
qed

section \<open>Decimal text\<close>

text \<open>The \<open>Display\<close> of unsigned integers, and the joining of pieces with a separator.\<close>

fun digits :: "nat \<Rightarrow> nat list" where
  "digits n = (if n < 10 then [n] else digits (n div 10) @ [n mod 10])"

declare digits.simps [simp del]

definition show_nat :: "nat \<Rightarrow> string" where
  "show_nat n = map (\<lambda>d. char_of (48 + d)) (digits n)"

fun join :: "'a list \<Rightarrow> 'a list list \<Rightarrow> 'a list" where
  "join sep [] = []"
| "join sep [x] = x"
| "join sep (x # y # xs) = x @ sep @ join sep (y # xs)"

lemma digits_range: "d \<in> set (digits n) \<Longrightarrow> d < 10"
  by (induction n rule: digits.induct) (subst (asm) (2) digits.simps, auto split: if_splits)

lemma digits_nonempty [simp]: "digits n \<noteq> []"
  by (subst digits.simps) simp

lemma foldl_digits: "foldl (\<lambda>a d. 10 * a + d) 0 (digits n) = n"
proof (induction n rule: digits.induct)
  case (1 n)
  then show ?case by (subst digits.simps) auto
qed

end
