(* ===== verification/Wire.thy ===== *)
theory Wire
  imports Prelude
begin

text \<open>
  \<open>cotton-usb-host/src/wire.rs\<close>: the packets and descriptors of USB 2.0 as they travel on the wire,
  and the parser of configuration-descriptor sequences with its visitor interface. The structs are
  \<open>repr(C)\<close> structs of bytes, so their memory is the list of their fields in order; reading a slice as
  such a struct is \<open>bytemuck::try_from_bytes\<close>, of which the model takes as a parameter for which
  sizes and slices it succeeds.
\<close>

section \<open>Packets and descriptors\<close>

record SetupPacket =
  bmRequestType :: u8
  bRequest :: u8
  wValue :: u16
  wIndex :: u16
  wLength :: u16

record DeviceDescriptor =
  dev_bLength :: u8
  dev_bDescriptorType :: u8
  bcdUSB :: "u8 \<times> u8"
  bDeviceClass :: u8
  bDeviceSubClass :: u8
  bDeviceProtocol :: u8
  bMaxPacketSize0 :: u8
  idVendor :: "u8 \<times> u8"
  idProduct :: "u8 \<times> u8"
  bcdDevice :: "u8 \<times> u8"
  iManufacturer :: u8
  iProduct :: u8
  iSerialNumber :: u8
  bNumConfigurations :: u8

record ConfigurationDescriptor =
  cfg_bLength :: u8
  cfg_bDescriptorType :: u8
  wTotalLength :: "u8 \<times> u8"
  bNumInterfaces :: u8
  bConfigurationValue :: u8
  iConfiguration :: u8
  cfg_bmAttributes :: u8
  bMaxPower :: u8

record InterfaceDescriptor =
  if_bLength :: u8
  if_bDescriptorType :: u8
  bInterfaceNumber :: u8
  bAlternateSetting :: u8
  bNumEndpoints :: u8
  bInterfaceClass :: u8
  bInterfaceSubClass :: u8
  bInterfaceProtocol :: u8
  iInterface :: u8

record EndpointDescriptor =
  ep_bLength :: u8
  ep_bDescriptorType :: u8
  bEndpointAddress :: u8
  ep_bmAttributes :: u8
  wMaxPacketSize :: "u8 \<times> u8"
  bInterval :: u8

record HubDescriptor =
  bDescLength :: u8
  hub_bDescriptorType :: u8
  bNbrPorts :: u8
  wHubCharacteristics :: "u8 \<times> u8"
  bPwrOn2PwrGood :: u8
  bHubContrCurrent :: u8
  DeviceRemovable :: u8
  PortPwrCtrlMask :: u8

section \<open>Constants\<close>

definition DEVICE_TO_HOST :: u8 where "DEVICE_TO_HOST = 0x80"
definition HOST_TO_DEVICE :: u8 where "HOST_TO_DEVICE = 0"
definition STANDARD_REQUEST :: u8 where "STANDARD_REQUEST = 0"
definition CLASS_REQUEST :: u8 where "CLASS_REQUEST = 0x20"
definition VENDOR_REQUEST :: u8 where "VENDOR_REQUEST = 0x40"
definition RECIPIENT_DEVICE :: u8 where "RECIPIENT_DEVICE = 0"
definition RECIPIENT_INTERFACE :: u8 where "RECIPIENT_INTERFACE = 1"
definition RECIPIENT_ENDPOINT :: u8 where "RECIPIENT_ENDPOINT = 2"
definition RECIPIENT_OTHER :: u8 where "RECIPIENT_OTHER = 3"
definition GET_STATUS :: u8 where "GET_STATUS = 0"
definition CLEAR_FEATURE :: u8 where "CLEAR_FEATURE = 1"
definition SET_FEATURE :: u8 where "SET_FEATURE = 3"
definition SET_ADDRESS :: u8 where "SET_ADDRESS = 5"
definition GET_DESCRIPTOR :: u8 where "GET_DESCRIPTOR = 6"
definition SET_DESCRIPTOR :: u8 where "SET_DESCRIPTOR = 7"
definition SET_CONFIGURATION :: u8 where "SET_CONFIGURATION = 9"
definition DEVICE_DESCRIPTOR :: u8 where "DEVICE_DESCRIPTOR = 1"
definition CONFIGURATION_DESCRIPTOR :: u8 where "CONFIGURATION_DESCRIPTOR = 2"
definition STRING_DESCRIPTOR :: u8 where "STRING_DESCRIPTOR = 3"
definition INTERFACE_DESCRIPTOR :: u8 where "INTERFACE_DESCRIPTOR = 4"
definition ENDPOINT_DESCRIPTOR :: u8 where "ENDPOINT_DESCRIPTOR = 5"
definition HUB_DESCRIPTOR :: u8 where "HUB_DESCRIPTOR = 0x29"
definition HUB_CLASSCODE :: u8 where "HUB_CLASSCODE = 9"
definition PORT_RESET :: u16 where "PORT_RESET = 4"
definition PORT_POWER :: u16 where "PORT_POWER = 8"

lemmas usb_consts =
  DEVICE_TO_HOST_def HOST_TO_DEVICE_def STANDARD_REQUEST_def CLASS_REQUEST_def VENDOR_REQUEST_def
  RECIPIENT_DEVICE_def RECIPIENT_INTERFACE_def RECIPIENT_ENDPOINT_def RECIPIENT_OTHER_def
  GET_STATUS_def CLEAR_FEATURE_def SET_FEATURE_def SET_ADDRESS_def GET_DESCRIPTOR_def
  SET_DESCRIPTOR_def SET_CONFIGURATION_def DEVICE_DESCRIPTOR_def CONFIGURATION_DESCRIPTOR_def
  STRING_DESCRIPTOR_def INTERFACE_DESCRIPTOR_def ENDPOINT_DESCRIPTOR_def HUB_DESCRIPTOR_def
  HUB_CLASSCODE_def PORT_RESET_def PORT_POWER_def

datatype EndpointType = Control | Isochronous | Bulk | Interrupt

fun endpoint_type_code :: "EndpointType \<Rightarrow> u8" where
  "endpoint_type_code Control = 0"
| "endpoint_type_code Isochronous = 1"
| "endpoint_type_code Bulk = 2"
| "endpoint_type_code Interrupt = 3"

datatype Direction = In | Out

section \<open>Descriptors in memory\<close>

definition configuration_bytes :: "ConfigurationDescriptor \<Rightarrow> u8 list" where
  "configuration_bytes c =
     [cfg_bLength c, cfg_bDescriptorType c, fst (wTotalLength c), snd (wTotalLength c),
      bNumInterfaces c, bConfigurationValue c, iConfiguration c, cfg_bmAttributes c, bMaxPower c]"

definition configuration_of_bytes :: "u8 list \<Rightarrow> ConfigurationDescriptor" where
  "configuration_of_bytes b =
     \<lparr>cfg_bLength = b ! 0, cfg_bDescriptorType = b ! 1, wTotalLength = (b ! 2, b ! 3),
      bNumInterfaces = b ! 4, bConfigurationValue = b ! 5, iConfiguration = b ! 6,
      cfg_bmAttributes = b ! 7, bMaxPower = b ! 8\<rparr>"

definition interface_bytes :: "InterfaceDescriptor \<Rightarrow> u8 list" where
  "interface_bytes i =
     [if_bLength i, if_bDescriptorType i, bInterfaceNumber i, bAlternateSetting i, bNumEndpoints i,
      bInterfaceClass i, bInterfaceSubClass i, bInterfaceProtocol i, iInterface i]"

definition interface_of_bytes :: "u8 list \<Rightarrow> InterfaceDescriptor" where
  "interface_of_bytes b =
     \<lparr>if_bLength = b ! 0, if_bDescriptorType = b ! 1, bInterfaceNumber = b ! 2,
      bAlternateSetting = b ! 3, bNumEndpoints = b ! 4, bInterfaceClass = b ! 5,
      bInterfaceSubClass = b ! 6, bInterfaceProtocol = b ! 7, iInterface = b ! 8\<rparr>"

definition endpoint_bytes :: "EndpointDescriptor \<Rightarrow> u8 list" where
  "endpoint_bytes e =
     [ep_bLength e, ep_bDescriptorType e, bEndpointAddress e, ep_bmAttributes e,
      fst (wMaxPacketSize e), snd (wMaxPacketSize e), bInterval e]"

definition endpoint_of_bytes :: "u8 list \<Rightarrow> EndpointDescriptor" where
  "endpoint_of_bytes b =
     \<lparr>ep_bLength = b ! 0, ep_bDescriptorType = b ! 1, bEndpointAddress = b ! 2,
      ep_bmAttributes = b ! 3, wMaxPacketSize = (b ! 4, b ! 5), bInterval = b ! 6\<rparr>"

lemma descriptor_roundtrips [simp]:
  "configuration_of_bytes (configuration_bytes c) = c"
  "interface_of_bytes (interface_bytes i) = i"
  "endpoint_of_bytes (endpoint_bytes e) = e"
  by (simp_all add: configuration_of_bytes_def configuration_bytes_def interface_of_bytes_def
      interface_bytes_def endpoint_of_bytes_def endpoint_bytes_def)

lemma descriptor_lengths [simp]:
  "length (configuration_bytes c) = 9" "length (interface_bytes i) = 9" "length (endpoint_bytes e) = 7"
  by (simp_all add: configuration_bytes_def interface_bytes_def endpoint_bytes_def)

text \<open>
  Whether \<open>bytemuck::try_from_bytes\<close> accepts a slice as a struct of \<open>n\<close> bytes without alignment: its
  documentation promises success exactly when the slice has that length.
\<close>

type_synonym try_from_bytes = "nat \<Rightarrow> u8 list \<Rightarrow> bool"

definition casts_by_size :: "try_from_bytes \<Rightarrow> bool" where
  "casts_by_size tfb \<longleftrightarrow> (\<forall>n bs. tfb n bs = (length bs = n))"

section \<open>Visitors\<close>

record 'v DescriptorVisitor =
  on_configuration :: "'v \<Rightarrow> ConfigurationDescriptor \<Rightarrow> 'v outcome"
  on_interface :: "'v \<Rightarrow> InterfaceDescriptor \<Rightarrow> 'v outcome"
  on_endpoint :: "'v \<Rightarrow> EndpointDescriptor \<Rightarrow> 'v outcome"
  on_other :: "'v \<Rightarrow> u8 list \<Rightarrow> 'v outcome"

definition default_visitor :: "'v DescriptorVisitor" where
  "default_visitor = \<lparr>on_configuration = \<lambda>v _. Ret v, on_interface = \<lambda>v _. Ret v,
     on_endpoint = \<lambda>v _. Ret v, on_other = \<lambda>v _. Ret v\<rparr>"

text \<open>\<open>ShowDescriptors\<close>: its effect is the log it writes, kept as a list of lines.\<close>

datatype shown =
    ShownConfiguration ConfigurationDescriptor
  | ShownInterface InterfaceDescriptor
  | ShownEndpoint EndpointDescriptor
  | ShownSkipped string u8 u8

definition ShowDescriptors :: "shown list DescriptorVisitor" where
  "ShowDescriptors = \<lparr>
     on_configuration = \<lambda>out c. Ret (out @ [ShownConfiguration c]),
     on_interface = \<lambda>out i. Ret (out @ [ShownInterface i]),
     on_endpoint = \<lambda>out e. Ret (out @ [ShownEndpoint e]),
     on_other = \<lambda>out d.
       obind (index d 0) (\<lambda>dlen.
       obind (index d 1) (\<lambda>dtype.
         let domain = (if dtype AND 0x60 = 0x00 then ''standard''
                       else if dtype AND 0x60 = 0x20 then ''class''
                       else if dtype AND 0x60 = 0x40 then ''vendor''
                       else ''reserved'')
         in Ret (out @ [ShownSkipped domain dtype dlen])))\<rparr>"

section \<open>The parser\<close>

text \<open>The \<open>match\<close> on the descriptor type: a descriptor of a known type and the wrong size is skipped.\<close>

definition visit_descriptor ::
    "try_from_bytes \<Rightarrow> 'v DescriptorVisitor \<Rightarrow> u8 list \<Rightarrow> 'v \<Rightarrow> 'v outcome" where
  "visit_descriptor tfb V d v =
     (let dtype = d ! 1 in
      if dtype = CONFIGURATION_DESCRIPTOR then
        (if tfb 9 d then on_configuration V v (configuration_of_bytes d) else Ret v)
      else if dtype = INTERFACE_DESCRIPTOR then
        (if tfb 9 d then on_interface V v (interface_of_bytes d) else Ret v)
      else if dtype = ENDPOINT_DESCRIPTOR then
        (if tfb 7 d then on_endpoint V v (endpoint_of_bytes d) else Ret v)
      else on_other V v d)"

function parse_from ::
    "try_from_bytes \<Rightarrow> 'v DescriptorVisitor \<Rightarrow> u8 list \<Rightarrow> nat \<Rightarrow> 'v \<Rightarrow> 'v outcome" where
  "parse_from tfb V buf idx v =
     (if length buf > idx + 2 then
        let dlen = unat (buf ! idx) in
        if dlen < 2 \<or> length buf < idx + dlen then Ret v
        else obind (visit_descriptor tfb V (take dlen (drop idx buf)) v)
               (parse_from tfb V buf (idx + dlen))
      else Ret v)"
  by pat_completeness auto
termination by (relation "measure (\<lambda>(tfb, V, buf, idx, v). length buf - idx)") auto

declare parse_from.simps [simp del]

definition parse_descriptors ::
    "try_from_bytes \<Rightarrow> 'v DescriptorVisitor \<Rightarrow> u8 list \<Rightarrow> 'v \<Rightarrow> 'v outcome" where
  "parse_descriptors tfb V buf v = parse_from tfb V buf 0 v"

section \<open>What the parser visits\<close>

text \<open>The descriptors of a buffer, cut off one after the other from its front.\<close>

function split_descriptors :: "u8 list \<Rightarrow> u8 list list" where
  "split_descriptors bs =
     (if length bs > 2 \<and> 2 \<le> unat (hd bs) \<and> unat (hd bs) \<le> length bs
      then take (unat (hd bs)) bs # split_descriptors (drop (unat (hd bs)) bs) else [])"
  by pat_completeness auto
termination by (relation "measure length") auto

declare split_descriptors.simps [simp del]

fun visit_all :: "('d \<Rightarrow> 'v \<Rightarrow> 'v outcome) \<Rightarrow> 'd list \<Rightarrow> 'v \<Rightarrow> 'v outcome" where
  "visit_all f [] v = Ret v"
| "visit_all f (d # ds) v = obind (f d v) (visit_all f ds)"

lemma parse_from_split:
  "parse_from tfb V buf idx v = visit_all (visit_descriptor tfb V) (split_descriptors (drop idx buf)) v"
proof (induction tfb V buf idx v rule: parse_from.induct)
  case (1 tfb V buf idx v)
  let ?d = "unat (buf ! idx)"
  show ?case
  proof (cases "length buf > idx + 2 \<and> \<not> (?d < 2 \<or> length buf < idx + ?d)")
    case True
    then have hd: "hd (drop idx buf) = buf ! idx" by (simp add: hd_drop_conv_nth)
    have "parse_from tfb V buf (idx + ?d) =
        visit_all (visit_descriptor tfb V) (split_descriptors (drop (?d + idx) buf))"
      using 1 True by (intro ext) (simp add: add.commute)
    moreover have "2 < length buf - idx" "?d \<le> length buf - idx" using True by auto
    ultimately show ?thesis
      using True hd
      by (simp add: parse_from.simps [of tfb V buf idx] split_descriptors.simps [of "drop idx buf"] Let_def)
  next
    case False
    then have "split_descriptors (drop idx buf) = []"
      by (subst split_descriptors.simps) (auto simp: hd_drop_conv_nth)
    then show ?thesis using False by (subst parse_from.simps) (auto simp: Let_def)
  qed
qed

lemma parse_descriptors_split:
  "parse_descriptors tfb V buf v = visit_all (visit_descriptor tfb V) (split_descriptors buf) v"
  by (simp add: parse_descriptors_def parse_from_split)

definition descriptor_ok :: "u8 list \<Rightarrow> bool" where
  "descriptor_ok d \<longleftrightarrow> 2 \<le> length d \<and> unat (d ! 0) = length d"

lemma split_descriptors_ok: "d \<in> set (split_descriptors bs) \<Longrightarrow> descriptor_ok d"
proof (induction bs rule: split_descriptors.induct)
  case (1 bs)
  then show ?case
    by (cases bs; subst (asm) (2) split_descriptors.simps)
      (auto simp: descriptor_ok_def split: if_splits)
qed

lemma split_descriptors_rest:
  "\<exists>rest. bs = concat (split_descriptors bs) @ rest \<and>
     (length rest \<le> 2 \<or> unat (hd rest) < 2 \<or> length rest < unat (hd rest))"
proof (induction bs rule: split_descriptors.induct)
  case (1 bs)
  show ?case
  proof (cases "2 < length bs \<and> 2 \<le> unat (hd bs) \<and> unat (hd bs) \<le> length bs")
    case True
    let ?tl = "drop (unat (hd bs)) bs"
    from 1 True obtain rest where rest: "?tl = concat (split_descriptors ?tl) @ rest"
      "length rest \<le> 2 \<or> unat (hd rest) < 2 \<or> length rest < unat (hd rest)" by blast
    have "bs = take (unat (hd bs)) bs @ ?tl" by simp
    also have "\<dots> = concat (take (unat (hd bs)) bs # split_descriptors ?tl) @ rest"
      by (subst rest(1)) simp
    also have "take (unat (hd bs)) bs # split_descriptors ?tl = split_descriptors bs"
      using True by (simp add: split_descriptors.simps [of bs])
    finally show ?thesis using rest(2) by blast
  next
    case False
    then have "split_descriptors bs = []" by (simp only: split_descriptors.simps [of bs] if_False)
    then show ?thesis using False by (auto simp: not_less)
  qed
qed

lemma split_descriptors_count: "2 * length (split_descriptors bs) \<le> length bs"
proof -
  have "2 * length ds \<le> length (concat ds)" if "\<forall>d\<in>set ds. descriptor_ok d" for ds
    using that by (induction ds) (auto simp: descriptor_ok_def)
  from this [of "split_descriptors bs"] have "2 * length (split_descriptors bs) \<le> length (concat (split_descriptors bs))"
    using split_descriptors_ok by blast
  also have "\<dots> \<le> length bs" using split_descriptors_rest [of bs] by (metis length_append le_add1)
  finally show ?thesis .
qed

lemma split_descriptors_concat:
  assumes "\<forall>d\<in>set ds. descriptor_ok d" and "rest = [] \<longrightarrow> ds \<noteq> [] \<longrightarrow> 2 < length (last ds)"
  shows "split_descriptors (concat ds @ rest) = ds @ split_descriptors rest"
  using assms
proof (induction ds)
  case (Cons d ds)
  have d: "2 \<le> length d" "unat (hd (concat (d # ds) @ rest)) = length d"
    using Cons.prems by (auto simp: descriptor_ok_def hd_append hd_conv_nth)
  have more: "2 < length (concat (d # ds) @ rest)"
  proof (cases ds)
    case (Cons e es)
    then have "2 \<le> length e" using Cons.prems by (auto simp: descriptor_ok_def)
    then show ?thesis using d Cons by simp
  qed (use d Cons.prems in \<open>cases rest; auto\<close>)
  have "split_descriptors (concat ds @ rest) = ds @ split_descriptors rest"
    using Cons by (cases ds) auto
  then show ?case using d more by (subst split_descriptors.simps) auto
qed simp

lemma visit_all_invariant:
  assumes "I v" and "\<And>d v. d \<in> set ds \<Longrightarrow> I v \<Longrightarrow> \<exists>v'. f d v = Ret v' \<and> I v'"
  shows "\<exists>v'. visit_all f ds v = Ret v' \<and> I v'"
  using assms
proof (induction ds arbitrary: v)
  case (Cons d ds)
  from Cons.prems obtain v' where "f d v = Ret v'" "I v'" by fastforce
  then show ?case using Cons.IH [of v'] Cons.prems(2) by auto
qed simp

lemma ShowDescriptors_visit:
  assumes "descriptor_ok d"
  shows "\<exists>out'. visit_descriptor tfb ShowDescriptors d out = Ret out'"
proof -
  have "index d 0 = Ret (d ! 0)" "index d 1 = Ret (d ! 1)"
    using assms by (auto simp: descriptor_ok_def index_def)
  then show ?thesis by (simp add: visit_descriptor_def ShowDescriptors_def Let_def)
qed

section \<open>Properties\<close>

text \<open>C33: a buffer that holds well-formed descriptors (each at least two bytes long and starting with
its length) followed by a remainder too short or too long to be a descriptor is parsed into exactly
those descriptors, each visited once and in order, whatever the visitor. A remainder of two bytes is
never visited, even when it is itself a descriptor.\<close>

theorem parse_descriptors_sequence:
  assumes "\<forall>d\<in>set ds. descriptor_ok d"
    and "length rest \<le> 2 \<or> unat (hd rest) < 2 \<or> length rest < unat (hd rest)"
    and "rest = [] \<longrightarrow> ds \<noteq> [] \<longrightarrow> 2 < length (last ds)"
  shows "parse_descriptors tfb V (concat ds @ rest) v = visit_all (visit_descriptor tfb V) ds v"
proof -
  have "split_descriptors rest = []" using assms(2) by (subst split_descriptors.simps) auto
  then show ?thesis using split_descriptors_concat [OF assms(1,3)] by (simp add: parse_descriptors_split)
qed

theorem parse_descriptors_sequence_witness:
  "parse_descriptors (\<lambda>n bs. length bs = n) ShowDescriptors ([3, 0x21, 7] @ [2, 0x41]) [] =
     Ret [ShownSkipped ''class'' 0x21 3]"
proof -
  have "parse_descriptors (\<lambda>n bs. length bs = n) ShowDescriptors (concat [[3, 0x21, 7]] @ [2, 0x41]) [] =
      visit_all (visit_descriptor (\<lambda>n bs. length bs = n) ShowDescriptors) [[3, 0x21, 7]] []"
    by (rule parse_descriptors_sequence) (simp_all add: descriptor_ok_def)
  also have "\<dots> = Ret [ShownSkipped ''class'' 0x21 3]" by code_simp
  finally show ?thesis by simp
qed

text \<open>On any bytes at all, whatever the device sent, the parser ends without a panic of its own: it
visits consecutive pieces of the buffer from its start, each at least two bytes long and as long as
its first byte says, and \<open>ShowDescriptors\<close> shows one line for each visit.\<close>

theorem parse_descriptors_any_bytes:
  "\<exists>ds rest out. buf = concat ds @ rest \<and> (\<forall>d\<in>set ds. descriptor_ok d) \<and>
     (length rest \<le> 2 \<or> unat (hd rest) < 2 \<or> length rest < unat (hd rest)) \<and>
     (\<forall>V v. parse_descriptors tfb V buf v = visit_all (visit_descriptor tfb V) ds v) \<and>
     parse_descriptors tfb ShowDescriptors buf [] = Ret out"
proof -
  have ok: "\<forall>d\<in>set (split_descriptors buf). descriptor_ok d" using split_descriptors_ok by blast
  then have "\<exists>out. parse_descriptors tfb ShowDescriptors buf [] = Ret out"
    using visit_all_invariant [of "\<lambda>_. True" _ "split_descriptors buf"] ShowDescriptors_visit
    by (metis parse_descriptors_split)
  then show ?thesis
    using ok split_descriptors_rest [of buf] parse_descriptors_split [of tfb _ buf] by blast
qed

theorem parse_descriptors_any_bytes_witness:
  "\<exists>ds rest out. [9, 4, 1] = concat ds @ rest \<and> (\<forall>d\<in>set ds. descriptor_ok d) \<and>
     parse_descriptors (\<lambda>n bs. length bs = n) ShowDescriptors [9, 4, 1] [] = Ret out"
  using parse_descriptors_any_bytes [of "[9, 4, 1]" "\<lambda>n bs. length bs = n"] by blast

end
