(* ===== verification/Host_Controller.thy ===== *)
theory Host_Controller
  imports Wire
begin

text \<open>
  \<open>cotton-usb-host/src/host_controller.rs\<close>: the interface between the portable USB bus and a
  particular host controller. The trait is a record of operations on the controller's state; an
  asynchronous call is its effect from the call to its completion. The locale \<open>usb_host\<close> states
  what the rest of the crate relies on.
\<close>

datatype UsbError =
    Stall | Timeout | Overflow | BitStuffError | CrcError | DataSeqError | BufferTooSmall
  | AllPipesInUse | ProtocolError | TooManyDevices | NoSuchEndpoint

datatype UsbSpeed = Low1_5 | Full12 | High480

datatype DeviceStatus = Present UsbSpeed | Absent

text \<open>
  The data phase of a control transfer. \<open>In\<close> carries the caller's buffer, whose contents the
  transfer replaces: an operation that takes a data phase returns it with the buffer as left.
\<close>

datatype DataPhase = DataIn (in_buffer: "u8 list") | DataOut "u8 list" | DataNone

definition is_in :: "DataPhase \<Rightarrow> bool" where
  "is_in d = (case d of DataIn _ \<Rightarrow> True | _ \<Rightarrow> False)"

definition is_out :: "DataPhase \<Rightarrow> bool" where
  "is_out d = (case d of DataOut _ \<Rightarrow> True | _ \<Rightarrow> False)"

definition is_none :: "DataPhase \<Rightarrow> bool" where
  "is_none d = (case d of DataNone \<Rightarrow> True | _ \<Rightarrow> False)"

definition in_with :: "DataPhase \<Rightarrow> (u8 list \<Rightarrow> u8 list) \<Rightarrow> DataPhase" where
  "in_with d f = (case d of DataIn x \<Rightarrow> DataIn (f x) | _ \<Rightarrow> d)"

datatype TransferType = FixedSize | VariableSize

section \<open>Interrupt packets\<close>

record InterruptPacket =
  ip_address :: u8
  ip_endpoint :: u8
  ip_size :: u8
  ip_data :: "u8 list"

definition interrupt_packet_new :: InterruptPacket where
  "interrupt_packet_new = \<lparr>ip_address = 0, ip_endpoint = 0, ip_size = 0, ip_data = replicate 64 0\<rparr>"

definition interrupt_packet_deref :: "InterruptPacket \<Rightarrow> u8 list outcome" where
  "interrupt_packet_deref p = slice (ip_data p) 0 (unat (ip_size p))"

section \<open>The trait\<close>

text \<open>
  \<open>'hc\<close> is the state of the controller, \<open>'pipe\<close> its type of interrupt pipes. The bulk transfers take
  the endpoint's data toggle and return it updated. \<open>hc_alloc_interrupt_pipe\<close> is one poll of the future
  that waits for a pipe (no pipe while it is pending), and \<open>hc_poll_pipe\<close> one poll of the stream of
  packets that a pipe is.
\<close>

record ('hc, 'pipe) HostController =
  hc_reset_root_port :: "bool \<Rightarrow> 'hc \<Rightarrow> 'hc"
  hc_control_transfer ::
    "u8 \<Rightarrow> u8 \<Rightarrow> SetupPacket \<Rightarrow> DataPhase \<Rightarrow> 'hc \<Rightarrow> ('hc \<times> (UsbError, usize) result \<times> DataPhase) outcome"
  hc_bulk_in_transfer ::
    "u8 \<Rightarrow> u8 \<Rightarrow> u16 \<Rightarrow> u8 list \<Rightarrow> TransferType \<Rightarrow> bool \<Rightarrow> 'hc \<Rightarrow>
       ('hc \<times> (UsbError, usize) result \<times> u8 list \<times> bool) outcome"
  hc_bulk_out_transfer ::
    "u8 \<Rightarrow> u8 \<Rightarrow> u16 \<Rightarrow> u8 list \<Rightarrow> TransferType \<Rightarrow> bool \<Rightarrow> 'hc \<Rightarrow>
       ('hc \<times> (UsbError, usize) result \<times> bool) outcome"
  hc_alloc_interrupt_pipe ::
    "u8 \<Rightarrow> u8 \<Rightarrow> u16 \<Rightarrow> u8 \<Rightarrow> 'hc \<Rightarrow> ('hc \<times> 'pipe option) outcome"
  hc_try_alloc_interrupt_pipe ::
    "u8 \<Rightarrow> u8 \<Rightarrow> u16 \<Rightarrow> u8 \<Rightarrow> 'hc \<Rightarrow> ('hc \<times> (UsbError, 'pipe) result) outcome"
  hc_poll_pipe :: "'pipe \<Rightarrow> 'hc \<Rightarrow> ('hc \<times> 'pipe \<times> InterruptPacket option) outcome"

section \<open>What clients rely on\<close>

text \<open>The outcome of a transfer with a given data phase: buffers keep their length, and a length that
is reported for a read does not exceed the buffer.\<close>

fun dataphase_fits :: "DataPhase \<Rightarrow> (UsbError, usize) result \<Rightarrow> DataPhase \<Rightarrow> bool" where
  "dataphase_fits (DataIn b) r (DataIn b') = (length b' = length b \<and> (\<forall>n. r = Ok n \<longrightarrow> n \<le> length b))"
| "dataphase_fits (DataOut b) r d = (d = DataOut b)"
| "dataphase_fits DataNone r d = (d = DataNone)"
| "dataphase_fits (DataIn b) r d = False"

lemma dataphase_fits_In:
  "dataphase_fits (DataIn b) r d \<longleftrightarrow>
     (\<exists>b'. d = DataIn b' \<and> length b' = length b \<and> (\<forall>n. r = Ok n \<longrightarrow> n \<le> length b))"
  by (cases d) auto

text \<open>
  The contract of a driver: in a state with the invariant \<open>hinv\<close> every operation returns and keeps
  the invariant, for control transfers with an endpoint packet size that the driver can work with.
  Pipes that the driver hands out have the invariant \<open>pinv\<close>; polling one of them returns, and the
  contents of a packet it yields can be read.
\<close>

locale usb_driver =
  fixes H :: "('hc, 'pipe) HostController"
    and hinv :: "'hc \<Rightarrow> bool"
    and ps_ok :: "u8 \<Rightarrow> bool"
    and pinv :: "'pipe \<Rightarrow> bool"
  assumes reset_ok: "hinv s \<Longrightarrow> hinv (hc_reset_root_port H b s)"
    and control_ok: "hinv s \<Longrightarrow> ps_ok ps \<Longrightarrow> \<exists>s' r d'. hc_control_transfer H a ps pkt d s = Ret (s', r, d') \<and>
      hinv s' \<and> dataphase_fits d r d'"
    and alloc_ok: "hinv s \<Longrightarrow> \<exists>s' m. hc_alloc_interrupt_pipe H a e mp i s = Ret (s', m) \<and> hinv s' \<and>
      (\<forall>p. m = Some p \<longrightarrow> pinv p)"
    and try_alloc_ok: "hinv s \<Longrightarrow> \<exists>s' r. hc_try_alloc_interrupt_pipe H a e mp i s = Ret (s', r) \<and> hinv s' \<and>
      (\<forall>p. r = Ok p \<longrightarrow> pinv p)"
    and poll_ok: "hinv s \<Longrightarrow> pinv p \<Longrightarrow> \<exists>s' p' m. hc_poll_pipe H p s = Ret (s', p', m) \<and> hinv s' \<and> pinv p' \<and>
      (\<forall>pkt. m = Some pkt \<longrightarrow> interrupt_packet_deref pkt \<noteq> Panic)"
    and ps_ok_8: "ps_ok 8"

text \<open>
  A driver whose bulk transfers also return, with the packet size of 64 that the bus asks for; outgoing
  transfers of fixed size only.
\<close>

locale usb_bulk_driver = usb_driver H hinv ps_ok pinv
  for H :: "('hc, 'pipe) HostController" and hinv :: "'hc \<Rightarrow> bool" and ps_ok :: "u8 \<Rightarrow> bool"
    and pinv :: "'pipe \<Rightarrow> bool" +
  assumes bulk_in_ok: "hinv s \<Longrightarrow> \<exists>s' r buf tog'. hc_bulk_in_transfer H a e 64 data ty tog s = Ret (s', r, buf, tog') \<and>
      hinv s' \<and> length buf = length data \<and> (\<forall>n. r = Ok n \<longrightarrow> n \<le> length data)"
    and bulk_out_ok: "hinv s \<Longrightarrow> \<exists>s' r tog'. hc_bulk_out_transfer H a e 64 data FixedSize tog s = Ret (s', r, tog') \<and>
      hinv s'"

text \<open>The request for the first \<open>n\<close> bytes of the device descriptor, of which byte 7 is the packet size.\<close>

definition get_device_descriptor_packet :: "u16 \<Rightarrow> SetupPacket" where
  "get_device_descriptor_packet n =
     \<lparr>bmRequestType = DEVICE_TO_HOST, bRequest = GET_DESCRIPTOR,
      wValue = push_bit 8 (ucast DEVICE_DESCRIPTOR), wIndex = 0, wLength = n\<rparr>"

text \<open>The contract of a bus: a driver, and devices that report a packet size the driver can work with.\<close>

definition reports_packet_size :: "('hc, 'pipe) HostController \<Rightarrow> (u8 \<Rightarrow> bool) \<Rightarrow> 'hc \<Rightarrow> bool" where
  "reports_packet_size H ps_ok s \<longleftrightarrow> (\<forall>b s' n b'.
     hc_control_transfer H 0 8 (get_device_descriptor_packet 8) (DataIn b) s = Ret (s', Ok n, DataIn b') \<longrightarrow>
     8 \<le> n \<longrightarrow> ps_ok (b' ! 7))"

locale usb_host = usb_driver H hinv ps_ok pinv
  for H :: "('hc, 'pipe) HostController" and hinv :: "'hc \<Rightarrow> bool" and ps_ok :: "u8 \<Rightarrow> bool"
    and pinv :: "'pipe \<Rightarrow> bool" +
  assumes device_ps: "hinv s \<Longrightarrow> reports_packet_size H ps_ok s"

text \<open>
  The states a driver can come to by its operations. Where in all of them devices report a packet
  size that is fine, a driver's contract gives the contract of a bus.
\<close>

inductive hc_future :: "('hc, 'pipe) HostController \<Rightarrow> 'hc \<Rightarrow> 'hc \<Rightarrow> bool" for H where
  future_now: "hc_future H s s"
| future_reset: "hc_future H s t \<Longrightarrow> hc_future H s (hc_reset_root_port H b t)"
| future_control: "hc_future H s t \<Longrightarrow> hc_control_transfer H a ps pkt d t = Ret (u, r, d') \<Longrightarrow> hc_future H s u"
| future_wait: "hc_future H s t \<Longrightarrow> hc_alloc_interrupt_pipe H a e mp i t = Ret (u, m) \<Longrightarrow> hc_future H s u"
| future_alloc: "hc_future H s t \<Longrightarrow> hc_try_alloc_interrupt_pipe H a e mp i t = Ret (u, q) \<Longrightarrow> hc_future H s u"
| future_poll: "hc_future H s t \<Longrightarrow> hc_poll_pipe H p t = Ret (u, p', m) \<Longrightarrow> hc_future H s u"

lemma hc_future_trans: "hc_future H t u \<Longrightarrow> hc_future H s t \<Longrightarrow> hc_future H s u"
  by (induction rule: hc_future.induct) (auto intro: hc_future.intros)

definition honest_devices :: "('hc, 'pipe) HostController \<Rightarrow> (u8 \<Rightarrow> bool) \<Rightarrow> 'hc \<Rightarrow> bool" where
  "honest_devices H ps_ok s \<longleftrightarrow> (\<forall>t. hc_future H s t \<longrightarrow> reports_packet_size H ps_ok t)"

lemma honest_devices_later: "honest_devices H ps_ok s \<Longrightarrow> hc_future H s t \<Longrightarrow> honest_devices H ps_ok t"
  unfolding honest_devices_def using hc_future_trans by metis

context usb_driver
begin

lemma honest_host: "usb_host H (\<lambda>s. hinv s \<and> honest_devices H ps_ok s) ps_ok pinv"
proof
  fix s assume s: "hinv s \<and> honest_devices H ps_ok s"
  note later = honest_devices_later [OF conjunct2 [OF s]]
  show "hinv (hc_reset_root_port H b s) \<and> honest_devices H ps_ok (hc_reset_root_port H b s)" for b
    using s by (simp add: reset_ok later future_reset future_now)
  show "reports_packet_size H ps_ok s"
    using s by (simp add: honest_devices_def future_now)
  fix a e i ps pkt d mp
  show "\<exists>s' m. hc_alloc_interrupt_pipe H a e mp i s = Ret (s', m) \<and> (hinv s' \<and> honest_devices H ps_ok s') \<and>
      (\<forall>p. m = Some p \<longrightarrow> pinv p)"
    using alloc_ok [OF conjunct1 [OF s], of a e mp i] later [OF future_wait [OF future_now]] by blast
  show "\<exists>s' r. hc_try_alloc_interrupt_pipe H a e mp i s = Ret (s', r) \<and> (hinv s' \<and> honest_devices H ps_ok s') \<and>
      (\<forall>p. r = Ok p \<longrightarrow> pinv p)"
    using try_alloc_ok [OF conjunct1 [OF s], of a e mp i] later [OF future_alloc [OF future_now]] by blast
  show "\<exists>s' p' m. hc_poll_pipe H p s = Ret (s', p', m) \<and> (hinv s' \<and> honest_devices H ps_ok s') \<and> pinv p' \<and>
      (\<forall>pkt. m = Some pkt \<longrightarrow> interrupt_packet_deref pkt \<noteq> Panic)" if "pinv p" for p
    using poll_ok [OF conjunct1 [OF s] that] later [OF future_poll [OF future_now]] by blast
  assume "ps_ok ps"
  then show "\<exists>s' r d'. hc_control_transfer H a ps pkt d s = Ret (s', r, d') \<and>
      (hinv s' \<and> honest_devices H ps_ok s') \<and> dataphase_fits d r d'"
    using control_ok [OF conjunct1 [OF s], of ps a pkt d] later [OF future_control [OF future_now]] by blast
qed (rule ps_ok_8)

end

section \<open>Control transfers as programs\<close>

text \<open>
  The two shapes in which the bus uses control transfers: reading into a buffer, whose contents are
  used only when the transfer succeeded, and a transfer without data.
\<close>

definition control_in ::
    "('hc, 'pipe) HostController \<Rightarrow> u8 \<Rightarrow> u8 \<Rightarrow> SetupPacket \<Rightarrow> u8 list \<Rightarrow> ('hc, UsbError, usize \<times> u8 list) prog"
  where
  "control_in H a ps pkt buf = (\<lambda>s.
     case hc_control_transfer H a ps pkt (DataIn buf) s of
       Panic \<Rightarrow> Panic
     | Ret (s', Inl e, d) \<Rightarrow> Ret (s', Err e)
     | Ret (s', Inr n, d) \<Rightarrow> Ret (s', Ok (n, in_buffer d)))"

definition control_none ::
    "('hc, 'pipe) HostController \<Rightarrow> u8 \<Rightarrow> u8 \<Rightarrow> SetupPacket \<Rightarrow> ('hc, UsbError, usize) prog" where
  "control_none H a ps pkt = (\<lambda>s.
     case hc_control_transfer H a ps pkt DataNone s of
       Panic \<Rightarrow> Panic | Ret (s', r, d) \<Rightarrow> Ret (s', r))"

context usb_driver
begin

lemma control_in_keeps:
  assumes "ps_ok ps"
  shows "keepsR hinv (control_in H a ps pkt buf) (\<lambda>(n, b). n \<le> length b \<and> length b = length buf)"
proof (unfold keepsR_def safeR_def, intro allI impI)
  fix s assume "hinv s"
  from control_ok [OF this assms, of a pkt "DataIn buf"] obtain s' r d'
    where t: "hc_control_transfer H a ps pkt (DataIn buf) s = Ret (s', r, d')" "hinv s'"
      "dataphase_fits (DataIn buf) r d'" by blast
  show "\<exists>t r. control_in H a ps pkt buf s = Ret (t, r) \<and> hinv t \<and>
      (\<forall>x. r = Ok x \<longrightarrow> (case x of (n, b) \<Rightarrow> n \<le> length b \<and> length b = length buf))"
    using t by (cases r) (auto simp: control_in_def dataphase_fits_In)
qed

lemma control_none_keeps:
  assumes "ps_ok ps"
  shows "keepsR hinv (control_none H a ps pkt) (\<lambda>_. True)"
proof (unfold keepsR_def safeR_def, intro allI impI)
  fix s assume "hinv s"
  from control_ok [OF this assms, of a pkt DataNone]
  show "\<exists>t r. control_none H a ps pkt s = Ret (t, r) \<and> hinv t \<and> (\<forall>x. r = Ok x \<longrightarrow> True)"
    by (auto simp: control_none_def)
qed

end

context usb_host
begin

text \<open>The first read of a device descriptor yields a usable packet size.\<close>

lemma control_in_descriptor_keeps:
  "keepsR hinv (control_in H 0 8 (get_device_descriptor_packet 8) buf)
     (\<lambda>(n, b). n \<le> length b \<and> length b = length buf \<and> (8 \<le> n \<longrightarrow> ps_ok (b ! 7)))"
proof (unfold keepsR_def safeR_def, intro allI impI)
  fix s assume "hinv s"
  from control_ok [OF this ps_ok_8, of 0 "get_device_descriptor_packet 8" "DataIn buf"] obtain s' r d'
    where t: "hc_control_transfer H 0 8 (get_device_descriptor_packet 8) (DataIn buf) s = Ret (s', r, d')" "hinv s'"
      "dataphase_fits (DataIn buf) r d'" by blast
  show "\<exists>t r. control_in H 0 8 (get_device_descriptor_packet 8) buf s = Ret (t, r) \<and> hinv t \<and>
      (\<forall>x. r = Ok x \<longrightarrow> (case x of (n, b) \<Rightarrow> n \<le> length b \<and> length b = length buf \<and> (8 \<le> n \<longrightarrow> ps_ok (b ! 7))))"
    using t device_ps [OF \<open>hinv s\<close>]
    by (cases r) (auto simp: control_in_def dataphase_fits_In reports_packet_size_def)
qed

end

end
