(* ===== verification/Bit_Set.thy ===== *)
theory Bit_Set
  imports Prelude
begin

text \<open>
  \<open>cotton-usb-host/src/bitset.rs\<close>: a set of the integers 0 to 31 in a \<open>u32\<close>, and its iterator.
  The set of naturals \<open>members s\<close> is the abstract value; every operation is shown to act on it as
  the set operation its documentation names, and the iterator to list it in increasing order.
\<close>

section \<open>The bit set\<close>

datatype BitSet = BitSet (bits: u32)

definition bitset_new :: BitSet where
  "bitset_new = BitSet 0"

definition bitset_set :: "BitSet \<Rightarrow> u8 \<Rightarrow> BitSet outcome" where
  "bitset_set s n = rust_assert (n < 32) (Ret (BitSet (bits s OR one_shl (unat n))))"

definition bitset_clear :: "BitSet \<Rightarrow> u8 \<Rightarrow> BitSet outcome" where
  "bitset_clear s n = rust_assert (n < 32) (Ret (BitSet (bits s AND NOT (one_shl (unat n)))))"

definition bitset_set_any :: "BitSet \<Rightarrow> (BitSet \<times> u8 option) outcome" where
  "bitset_set_any s =
     (let next = (word_of_nat (trailing_ones (bits s)) :: u8)
      in if next \<ge> 32 then Ret (s, None)
         else obind (bitset_set s next) (\<lambda>s'. Ret (s', Some next)))"

definition bitset_contains :: "BitSet \<Rightarrow> u8 \<Rightarrow> bool outcome" where
  "bitset_contains s n = rust_assert (n < 32) (Ret (bits s AND one_shl (unat n) \<noteq> 0))"

section \<open>The iterator\<close>

datatype BitIterator = BitIterator (remaining: u32)

fun bititerator_next :: "BitIterator \<Rightarrow> (u8 \<times> BitIterator) option" where
  "bititerator_next (BitIterator w) =
     (if w = 0 then None
      else let n = trailing_zeros w
           in Some (word_of_nat n, BitIterator (w AND NOT (one_shl n))))"

text \<open>Running a \<open>for\<close> loop over the iterator visits the items \<open>next\<close> yields until \<open>None\<close>.\<close>

function bititerator_items :: "BitIterator \<Rightarrow> u8 list" where
  "bititerator_items it =
     (case bititerator_next it of None \<Rightarrow> [] | Some (n, it') \<Rightarrow> n # bititerator_items it')"
  by pat_completeness auto

termination
proof (relation "measure (\<lambda>it. unat (remaining it))", simp)
  fix it n it' and y :: "u8 \<times> BitIterator"
  assume "bititerator_next it = Some y" and "(n, it') = y"
  then show "(it', it) \<in> measure (\<lambda>it. unat (remaining it))"
    by (cases it) (auto simp: Let_def and_not_one_shl_less trailing_zeros_Min split: if_splits)
qed

declare bititerator_items.simps [simp del]

definition bitset_iter :: "BitSet \<Rightarrow> u8 list" where
  "bitset_iter s = bititerator_items (BitIterator (bits s))"

section \<open>The abstract set\<close>

definition members :: "BitSet \<Rightarrow> nat set" where
  "members s = {i. bit (bits s) i}"

lemma mem_members [simp]: "i \<in> members s \<longleftrightarrow> bit (bits s) i"
  by (simp add: members_def)

lemma members_subset: "members s \<subseteq> {0..<32}"
  using bit_imp_le_length [of "bits s"] by auto

lemma finite_members [simp]: "finite (members s)"
  by (rule finite_subset [OF members_subset]) simp

lemma members_inj: "members s = members t \<Longrightarrow> s = t"
  by (cases s; cases t) (auto simp: members_def set_eq_iff intro: bit_word_eqI)

lemma members_new [simp]: "members bitset_new = {}"
  by (auto simp: members_def bitset_new_def)

lemma u8_less_32: "(n :: u8) < 32 \<longleftrightarrow> unat n < 32"
  by (simp add: word_less_nat_alt)

lemma unat_of_small [simp]: "k < 256 \<Longrightarrow> unat (word_of_nat k :: u8) = k"
  by (simp add: unat_of_nat take_bit_eq_mod)

lemma bitset_set_members:
  "n < 32 \<Longrightarrow> \<exists>s'. bitset_set s n = Ret s' \<and> members s' = insert (unat n) (members s)"
  by (auto simp: bitset_set_def members_def word_bits u8_less_32)

lemma bitset_clear_members:
  "n < 32 \<Longrightarrow> \<exists>s'. bitset_clear s n = Ret s' \<and> members s' = members s - {unat n}"
  by (auto simp: bitset_clear_def members_def word_bits)

lemma bitset_contains_members: "n < 32 \<Longrightarrow> bitset_contains s n = Ret (unat n \<in> members s)"
  by (auto simp: bitset_contains_def and_one_shl_nonzero_iff u8_less_32)

lemma trailing_ones_members:
  shows "trailing_ones (bits s) < 32 \<Longrightarrow> trailing_ones (bits s) \<notin> members s"
    and "i < trailing_ones (bits s) \<Longrightarrow> i \<in> members s"
  using trailing_ones_stop [of "bits s"] trailing_ones_bits [of i "bits s"] by auto

lemma trailing_ones_32: "trailing_ones (bits s) \<le> 32"
  using trailing_ones_le [of "bits s"] by simp

text \<open>The smallest absent integer is added, or the set is full and unchanged.\<close>

lemma bitset_set_any_cases:
  obtains (full) "members s = {0..<32}" "bitset_set_any s = Ret (s, None)"
  | (added) n s' where "n < 32" "bitset_set_any s = Ret (s', Some n)" "unat n \<notin> members s"
      "\<And>i. i < unat n \<Longrightarrow> i \<in> members s" "members s' = insert (unat n) (members s)"
proof (cases "trailing_ones (bits s) < 32")
  case True
  let ?n = "word_of_nat (trailing_ones (bits s)) :: u8"
  have n: "unat ?n = trailing_ones (bits s)" using True by simp
  then have lt: "?n < 32" using True by (simp only: u8_less_32)
  obtain s' where "bitset_set s ?n = Ret s'" "members s' = insert (unat ?n) (members s)"
    using bitset_set_members [OF lt] by blast
  moreover from this lt have "bitset_set_any s = Ret (s', Some ?n)"
    by (simp add: bitset_set_any_def Let_def not_le)
  ultimately show thesis
    using added [of ?n s'] lt n trailing_ones_members [where s = s] True by simp
next
  case False
  then have eq: "trailing_ones (bits s) = 32" using trailing_ones_32 [of s] by simp
  then have "members s = {0..<32}"
    using trailing_ones_members(2) [where s = s] members_subset [of s] by auto
  moreover have "bitset_set_any s = Ret (s, None)"
    using eq by (simp add: bitset_set_any_def)
  ultimately show thesis by (rule full)
qed

section \<open>The iterator lists the set\<close>

lemma bititerator_items_nil: "bititerator_items (BitIterator 0) = []"
  by (simp add: bititerator_items.simps)

lemma bititerator_items_step:
  "w \<noteq> 0 \<Longrightarrow> bititerator_items (BitIterator w) =
     word_of_nat (trailing_zeros w) #
       bititerator_items (BitIterator (w AND NOT (one_shl (trailing_zeros w))))"
  by (simp add: bititerator_items.simps [of "BitIterator w"] Let_def)

lemma sorted_list_of_bits_step:
  fixes w :: u32
  assumes "w \<noteq> 0"
  shows "sorted_list_of_set {i. bit w i} =
    trailing_zeros w # sorted_list_of_set {i. bit (w AND NOT (one_shl (trailing_zeros w))) i}"
proof -
  let ?n = "trailing_zeros w"
  have fin: "finite {i. bit w i}"
    using finite_members [of "BitSet w"] by (simp add: members_def)
  have mem: "bit w ?n" and least: "\<And>i. bit w i \<Longrightarrow> ?n \<le> i"
    using trailing_zeros_Min [OF assms] by auto
  have "Min {i. bit w i} = ?n"
    using fin mem least by (intro Min_eqI) auto
  moreover have "{i. bit (w AND NOT (one_shl ?n)) i} = {i. bit w i} - {?n}"
    by (auto simp: word_bits)
  ultimately show ?thesis
    using sorted_list_of_set_nonempty [OF fin] mem by auto
qed

lemma bititerator_items_sorted:
  "bititerator_items (BitIterator w) = map word_of_nat (sorted_list_of_set {i. bit w i})"
proof (induction "BitIterator w" arbitrary: w rule: bititerator_items.induct)
  case 1
  show ?case
  proof (cases "w = 0")
    case True
    then show ?thesis by (simp add: bititerator_items_nil)
  next
    case False
    let ?w = "w AND NOT (one_shl (trailing_zeros w))"
    have "bititerator_next (BitIterator w) = Some (word_of_nat (trailing_zeros w), BitIterator ?w)"
      using False by (simp add: Let_def)
    then have "bititerator_items (BitIterator ?w) = map word_of_nat (sorted_list_of_set {i. bit ?w i})"
      using 1 by blast
    then show ?thesis
      using False sorted_list_of_bits_step [OF False] by (simp add: bititerator_items_step)
  qed
qed

lemma bitset_iter_members: "bitset_iter s = map word_of_nat (sorted_list_of_set (members s))"
  by (simp add: bitset_iter_def bititerator_items_sorted members_def)

lemma unat_bitset_iter: "map unat (bitset_iter s) = sorted_list_of_set (members s)"
proof -
  have "map (unat \<circ> (word_of_nat :: nat \<Rightarrow> u8)) (sorted_list_of_set (members s)) =
      sorted_list_of_set (members s)"
    using members_subset [of s] by (intro map_idI) auto
  then show ?thesis by (simp add: bitset_iter_members)
qed

lemma set_bitset_iter: "n \<in> set (bitset_iter s) \<longleftrightarrow> unat n \<in> members s"
proof -
  have "unat n \<in> members s \<longleftrightarrow> unat n \<in> set (map unat (bitset_iter s))"
    by (simp only: unat_bitset_iter) simp
  also have "\<dots> \<longleftrightarrow> n \<in> set (bitset_iter s)" by (auto simp: word_unat_eq_iff [symmetric])
  finally show ?thesis by blast
qed

lemma sorted_bitset_iter: "sorted (bitset_iter s)" "distinct (bitset_iter s)"
proof -
  have "sorted (map unat (bitset_iter s))" and "distinct (map unat (bitset_iter s))"
    by (simp_all only: unat_bitset_iter) simp_all
  then show "sorted (bitset_iter s)" and "distinct (bitset_iter s)"
    by (simp_all add: sorted_map word_le_nat_alt [symmetric] distinct_map)
qed

section \<open>Properties\<close>

text \<open>C14: the bit set implements a set of the integers 0 to 31: the abstract value determines the word,
an operation asked for an integer below 32 acts on the abstract value as insertion, removal or
membership test and otherwise panics, \<open>set_any\<close> inserts and returns the least integer that is missing or
reports that there is none, and the iterator lists the set in increasing order.\<close>

theorem bitset_refines_set:
  "members bitset_new = {} \<and> members s \<subseteq> {0..<32} \<and> (members s = members t \<longleftrightarrow> s = t) \<and>
   map_outcome members (bitset_set s n) = (if n < 32 then Ret (insert (unat n) (members s)) else Panic) \<and>
   map_outcome members (bitset_clear s n) = (if n < 32 then Ret (members s - {unat n}) else Panic) \<and>
   bitset_contains s n = (if n < 32 then Ret (unat n \<in> members s) else Panic) \<and>
   map_outcome (map_prod members (map_option unat)) (bitset_set_any s) =
     (if members s = {0..<32} then Ret (members s, None)
      else Ret (insert (LEAST i. i \<notin> members s) (members s), Some (LEAST i. i \<notin> members s))) \<and>
   map unat (bitset_iter s) = sorted_list_of_set (members s)"
proof (intro conjI)
  show "map_outcome members (bitset_set s n) = (if n < 32 then Ret (insert (unat n) (members s)) else Panic)"
    using bitset_set_members [of n s] by (auto simp: bitset_set_def)
  show "map_outcome members (bitset_clear s n) = (if n < 32 then Ret (members s - {unat n}) else Panic)"
    using bitset_clear_members [of n s] by (auto simp: bitset_clear_def)
  show "bitset_contains s n = (if n < 32 then Ret (unat n \<in> members s) else Panic)"
    using bitset_contains_members [of n s] by (auto simp: bitset_contains_def)
  show "map_outcome (map_prod members (map_option unat)) (bitset_set_any s) =
     (if members s = {0..<32} then Ret (members s, None)
      else Ret (insert (LEAST i. i \<notin> members s) (members s), Some (LEAST i. i \<notin> members s)))"
  proof (cases s rule: bitset_set_any_cases)
    case (added n s')
    then have "(LEAST i. i \<notin> members s) = unat n" by (intro Least_equality) (auto simp: not_less [symmetric])
    moreover have "members s \<noteq> {0..<32}" using added(1,3) by (auto simp: u8_less_32)
    ultimately show ?thesis using added by simp
  qed simp
qed (use members_subset members_inj unat_bitset_iter in \<open>auto simp del: mem_members\<close>)

end
