(* ===== verification/Topology.thy ===== *)
theory Topology
  imports Bit_Set
begin

text \<open>
  \<open>cotton-usb-host/src/topology.rs\<close>: which USB device addresses are in use, and which hub and hub
  port each device hangs off. The array of parents is a list of 32 bytes. \<open>device_disconnect\<close>
  repeats a pass over the array until nothing changes; it is shown to compute the least set that
  holds the unplugged device and is closed under being plugged into a removed hub.
\<close>

section \<open>The topology and its operations\<close>

definition MAX_DEVICES :: nat where "MAX_DEVICES = 32"
definition MAX_PORTS :: u8 where "MAX_PORTS = 16"
definition MAX_HUBS :: u8 where "MAX_HUBS = 16"

record Topology =
  parent :: "u8 list"

definition topology_new :: Topology where
  "topology_new = \<lparr>parent = replicate 32 0\<rparr>"

definition is_present :: "Topology \<Rightarrow> u8 \<Rightarrow> bool" where
  "is_present t device = (unat device < length (parent t) \<and> parent t ! unat device > 0)"

definition parent_entry :: "u8 \<Rightarrow> u8 \<Rightarrow> u8" where
  "parent_entry parent_hub parent_port = push_bit 4 parent_port + parent_hub"

text \<open>The first absent address in the order the search visits them, and the search order itself.\<close>

definition connect_order :: "bool \<Rightarrow> nat list" where
  "connect_order is_hub = (if is_hub then [1..<unat MAX_HUBS] else rev [1..<MAX_DEVICES])"

definition device_connect :: "Topology \<Rightarrow> u8 \<Rightarrow> u8 \<Rightarrow> bool \<Rightarrow> Topology \<times> u8 option" where
  "device_connect t parent_hub parent_port is_hub =
     (if parent_hub \<ge> MAX_HUBS \<or> parent_port \<ge> MAX_PORTS then (t, None)
      else let entry = parent_entry parent_hub parent_port in
        case find (\<lambda>i. parent t ! i = entry) [0..<length (parent t)] of
          Some i \<Rightarrow> (t, Some (word_of_nat i))
        | None \<Rightarrow>
          (case find (\<lambda>i. \<not> is_present t (word_of_nat i)) (connect_order is_hub) of
             Some i \<Rightarrow> (t\<lparr>parent := (parent t)[i := entry]\<rparr>, Some (word_of_nat i))
           | None \<Rightarrow> (t, None)))"

text \<open>The body of the inner loop of \<open>device_disconnect\<close>, at address \<open>i\<close>.\<close>

definition disconnect_visit :: "u8 \<Rightarrow> u8 \<Rightarrow> nat \<Rightarrow> u8 list \<times> u32 \<Rightarrow> u8 list \<times> u32" where
  "disconnect_visit parent_hub parent_port i = (\<lambda>(par, bitset).
     let p = par ! i in
     if p \<noteq> 0 then
       let hub = p AND 15; port = drop_bit 4 p;
         (par1, bitset1) =
           (if hub = parent_hub \<and> port = parent_port then (par[i := 0], bitset OR one_shl i)
            else (par, bitset))
       in if bitset1 AND one_shl (unat hub) \<noteq> 0 then (par1[i := 0], bitset1 OR one_shl i)
          else (par1, bitset1)
     else (par, bitset))"

definition disconnect_pass :: "u8 \<Rightarrow> u8 \<Rightarrow> u8 list \<times> u32 \<Rightarrow> u8 list \<times> u32" where
  "disconnect_pass parent_hub parent_port = fold (disconnect_visit parent_hub parent_port) [0..<MAX_DEVICES]"

lemma word_or_ge: "(w :: 'a::len word) \<le> w OR v"
  by (metis or.commute le_word_or2)

lemma disconnect_visit_grows: "snd s \<le> snd (disconnect_visit h p i s)"
proof -
  have "snd s \<le> snd s OR one_shl i OR one_shl i" and "snd s \<le> snd s OR one_shl i"
    by (simp_all add: word_or_ge)
  then show ?thesis by (cases s) (simp add: disconnect_visit_def Let_def)
qed

lemma fold_disconnect_grows: "snd s \<le> snd (fold (disconnect_visit h p) is s)"
proof (induction "is" arbitrary: s)
  case (Cons i "is")
  have "snd s \<le> snd (disconnect_visit h p i s)" by (rule disconnect_visit_grows)
  also have "\<dots> \<le> snd (fold (disconnect_visit h p) is (disconnect_visit h p i s))" by (rule Cons.IH)
  finally show ?case by simp
qed simp

lemmas disconnect_pass_grows = fold_disconnect_grows [of _ _ _ "[0..<MAX_DEVICES]", folded disconnect_pass_def]

function disconnect_loop :: "u8 \<Rightarrow> u8 \<Rightarrow> u8 list \<times> u32 \<Rightarrow> u8 list \<times> u32" where
  "disconnect_loop parent_hub parent_port s =
     (let s' = disconnect_pass parent_hub parent_port s
      in if snd s = snd s' then s' else disconnect_loop parent_hub parent_port s')"
  by pat_completeness auto

termination
proof (relation "measure (\<lambda>(h, p, s). 2 ^ 32 - unat (snd s))", simp)
  fix h p s s'
  assume "s' = disconnect_pass h p s" and "snd s \<noteq> snd s'"
  then have "snd s < snd s'" using disconnect_pass_grows [of s h p] by simp
  then have "unat (snd s) < unat (snd s')" by (simp add: word_less_nat_alt)
  moreover have "unat (snd s') < 2 ^ 32" using unat_u32_lt [of "snd s'"] by simp
  ultimately show "((h, p, s'), h, p, s) \<in> measure (\<lambda>(h, p, s). 2 ^ 32 - unat (snd s))" by simp
qed

declare disconnect_loop.simps [simp del]

definition device_disconnect :: "Topology \<Rightarrow> u8 \<Rightarrow> u8 \<Rightarrow> Topology \<times> BitSet" where
  "device_disconnect t parent_hub parent_port =
     (if parent_hub \<ge> MAX_HUBS \<or> parent_port \<ge> MAX_PORTS then (t, BitSet 0)
      else case disconnect_loop parent_hub parent_port (parent t, 0) of
        (par, bitset) \<Rightarrow> (t\<lparr>parent := par\<rparr>, BitSet bitset))"

section \<open>Packed parents\<close>

lemma and_15_mod: "(e :: u8) AND 15 = e mod 16"
proof -
  have "e AND 15 = take_bit 4 e" by (simp add: take_bit_eq_mask mask_eq_exp_minus_1)
  then show ?thesis by (simp add: take_bit_eq_mod)
qed

lemma unat_hub: "unat ((e :: u8) AND 15) = unat e mod 16"
  by (simp add: and_15_mod unat_mod)

lemma unat_port: "unat (drop_bit 4 (e :: u8)) = unat e div 16"
  by (simp add: drop_bit_eq_div unat_div)

lemma unat_parent_entry:
  assumes "h < 16" and "p < 16"
  shows "unat (parent_entry h p) = 16 * unat p + unat h"
proof -
  have *: "unat h < 16" "unat p < 16" using assms by (simp_all add: word_less_nat_alt)
  have "parent_entry h p = word_of_nat (16 * unat p + unat h)"
    by (simp add: parent_entry_def push_bit_eq_mult)
  moreover have "16 * unat p + unat h < 256" using * by simp
  ultimately show ?thesis by (simp only: unat_of_small)
qed

lemma parent_entry_parts:
  assumes "h < 16" and "p < 16"
  shows "parent_entry h p AND 15 = h" and "drop_bit 4 (parent_entry h p) = p"
  using assms unat_parent_entry [OF assms]
  by (simp_all add: word_unat_eq_iff unat_hub unat_port word_less_nat_alt)

lemma parent_entry_eq_iff:
  assumes "h < 16" and "p < 16"
  shows "e = parent_entry h p \<longleftrightarrow> e AND 15 = h \<and> drop_bit 4 e = p"
proof
  assume "e AND 15 = h \<and> drop_bit 4 e = p"
  then have "unat e = 16 * unat p + unat h" by (auto simp: unat_hub unat_port)
  then show "e = parent_entry h p" using unat_parent_entry [OF assms] by (simp add: word_unat_eq_iff)
qed (simp add: parent_entry_parts [OF assms])

lemma parent_entry_0_iff: "h < 16 \<Longrightarrow> p < 16 \<Longrightarrow> parent_entry h p = 0 \<longleftrightarrow> h = 0 \<and> p = 0"
  using unat_parent_entry [of h p] by (auto simp: word_unat_eq_iff)

section \<open>Disconnecting a device disconnects everything downstream of it\<close>

inductive downstream :: "Topology \<Rightarrow> u8 \<Rightarrow> u8 \<Rightarrow> nat \<Rightarrow> bool" for t h p where
  unplugged: "i < length (parent t) \<Longrightarrow> parent t ! i \<noteq> 0 \<Longrightarrow> parent t ! i AND 15 = h \<Longrightarrow>
    drop_bit 4 (parent t ! i) = p \<Longrightarrow> downstream t h p i"
| below: "downstream t h p (unat (parent t ! i AND 15)) \<Longrightarrow> i < length (parent t) \<Longrightarrow>
    parent t ! i \<noteq> 0 \<Longrightarrow> downstream t h p i"

inductive_cases downstreamE: "downstream t h p i"

text \<open>Whether the visit of an address removes it.\<close>

definition disconnect_hit :: "u8 \<Rightarrow> u8 \<Rightarrow> nat \<Rightarrow> u8 list \<times> u32 \<Rightarrow> bool" where
  "disconnect_hit h p i s \<longleftrightarrow> fst s ! i \<noteq> 0 \<and>
     ((fst s ! i AND 15 = h \<and> drop_bit 4 (fst s ! i) = p) \<or> bit (snd s) (unat (fst s ! i AND 15)))"

definition disconnect_inv :: "Topology \<Rightarrow> u8 \<Rightarrow> u8 \<Rightarrow> u8 list \<times> u32 \<Rightarrow> bool" where
  "disconnect_inv t h p s \<longleftrightarrow> length (parent t) = 32 \<and> length (fst s) = 32 \<and>
     (\<forall>i<32. fst s ! i = (if bit (snd s) i then 0 else parent t ! i)) \<and>
     (\<forall>i. bit (snd s) i \<longrightarrow> downstream t h p i)"

lemma hub_below_32: "unat ((e :: u8) AND 15) < 32"
  by (simp add: unat_hub less_trans [OF mod_less_divisor])

lemma disconnect_visit_hit:
  "disconnect_visit h p i s =
     (if disconnect_hit h p i s then ((fst s)[i := 0], snd s OR one_shl i) else s)"
  using hub_below_32 [of "fst s ! i"]
  by (cases s) (auto simp: disconnect_visit_def disconnect_hit_def Let_def and_one_shl_nonzero_iff
      or.assoc)

lemma disconnect_visit_inv:
  assumes "disconnect_inv t h p s" and "i < 32"
  shows "disconnect_inv t h p (disconnect_visit h p i s)"
proof (cases "disconnect_hit h p i s")
  case True
  then have "\<not> bit (snd s) i" and par: "fst s ! i = parent t ! i"
    using assms by (auto simp: disconnect_inv_def disconnect_hit_def split: if_splits)
  then have "downstream t h p i"
    using True assms unplugged [of i t h p] below [of t h p i]
    by (auto simp: disconnect_hit_def disconnect_inv_def)
  then show ?thesis
    using True assms by (auto simp: disconnect_visit_hit disconnect_inv_def nth_list_update word_bits)
qed (simp add: disconnect_visit_hit assms)

lemma fold_disconnect_inv:
  "disconnect_inv t h p s \<Longrightarrow> \<forall>i\<in>set is. i < 32 \<Longrightarrow> disconnect_inv t h p (fold (disconnect_visit h p) is s)"
  by (induction "is" arbitrary: s) (auto simp: disconnect_visit_inv)

lemma disconnect_pass_inv: "disconnect_inv t h p s \<Longrightarrow> disconnect_inv t h p (disconnect_pass h p s)"
  by (simp add: disconnect_pass_def fold_disconnect_inv MAX_DEVICES_def)

lemma fold_disconnect_stable:
  assumes "disconnect_inv t h p s" and "\<forall>i\<in>set is. i < 32"
    and "snd (fold (disconnect_visit h p) is s) = snd s"
  shows "\<forall>i\<in>set is. \<not> disconnect_hit h p i s"
  using assms
proof (induction "is" arbitrary: s)
  case (Cons i "is")
  let ?s = "disconnect_visit h p i s"
  have "snd s \<le> snd ?s" and "snd ?s \<le> snd s"
    using disconnect_visit_grows [of s h p i] fold_disconnect_grows [of ?s h p "is"] Cons.prems(3)
    by simp_all
  then have eq: "snd ?s = snd s" by simp
  have "\<not> disconnect_hit h p i s"
  proof
    assume hit: "disconnect_hit h p i s"
    then have "\<not> bit (snd s) i"
      using Cons.prems by (auto simp: disconnect_inv_def disconnect_hit_def split: if_splits)
    moreover have "bit (snd ?s) i" using hit Cons.prems(2) by (simp add: disconnect_visit_hit word_bits)
    ultimately show False using eq by simp
  qed
  then have "?s = s" by (simp add: disconnect_visit_hit)
  then show ?case using Cons \<open>\<not> disconnect_hit h p i s\<close> by simp
qed simp

lemma disconnect_loop_result:
  assumes "disconnect_inv t h p s"
  shows "disconnect_inv t h p (disconnect_loop h p s) \<and>
    (\<forall>i<32. \<not> disconnect_hit h p i (disconnect_loop h p s))"
  using assms
proof (induction h p s rule: disconnect_loop.induct)
  case (1 h p s)
  let ?s = "disconnect_pass h p s"
  have inv: "disconnect_inv t h p ?s" using 1 by (simp add: disconnect_pass_inv)
  show ?case
  proof (cases "snd s = snd ?s")
    case True
    have all: "\<forall>i\<in>set [0..<MAX_DEVICES]. i < 32" by (simp add: MAX_DEVICES_def)
    have "\<forall>i<32. \<not> disconnect_hit h p i s"
      using fold_disconnect_stable [OF 1(2) all] True by (simp add: disconnect_pass_def MAX_DEVICES_def)
    moreover from this have "?s = s"
      unfolding disconnect_pass_def MAX_DEVICES_def
      by (intro fold_invariant [where P = "\<lambda>x. x = s" and Q = "\<lambda>i. i < 32"])
        (auto simp: disconnect_visit_hit)
    ultimately show ?thesis using inv True by (simp add: disconnect_loop.simps)
  next
    case False
    then have "disconnect_loop h p s = disconnect_loop h p ?s"
      by (simp add: disconnect_loop.simps [of h p s] Let_def)
    then show ?thesis using 1(1) [OF refl False inv] by simp
  qed
qed

lemma downstream_below_32: "downstream t h p i \<Longrightarrow> length (parent t) = 32 \<Longrightarrow> i < 32"
  by (auto elim: downstreamE)

lemma device_disconnect_downstream:
  assumes "length (parent t) = 32" and "h < 16" and "p < 16"
    and "device_disconnect t h p = (t', gone)"
  shows "members gone = {i. downstream t h p i}" and "length (parent t') = 32"
    and "i < 32 \<Longrightarrow> parent t' ! i = (if downstream t h p i then 0 else parent t ! i)"
proof -
  obtain par b where loop: "disconnect_loop h p (parent t, 0) = (par, b)" by fastforce
  then have t': "t' = t\<lparr>parent := par\<rparr>" "gone = BitSet b"
    using assms by (auto simp: device_disconnect_def MAX_HUBS_def MAX_PORTS_def split: if_splits)
  have "disconnect_inv t h p (parent t, 0)" using assms by (simp add: disconnect_inv_def)
  then have inv: "disconnect_inv t h p (par, b)" and stable: "\<forall>i<32. \<not> disconnect_hit h p i (par, b)"
    using disconnect_loop_result loop by force+
  have keep: "par ! i = parent t ! i" if "i < 32" "\<not> bit b i" for i
    using inv that by (simp add: disconnect_inv_def)
  have mem: "downstream t h p i \<Longrightarrow> bit b i" for i
  proof (induction rule: downstream.induct)
    case (unplugged i)
    then show ?case using stable keep [of i] assms(1) by (fastforce simp: disconnect_hit_def)
  next
    case (below i)
    then show ?case using stable keep [of i] assms(1) by (fastforce simp: disconnect_hit_def)
  qed
  then show "members gone = {i. downstream t h p i}"
    using inv by (auto simp: t' disconnect_inv_def)
  show "length (parent t') = 32" using inv by (simp add: t' disconnect_inv_def)
  show "i < 32 \<Longrightarrow> parent t' ! i = (if downstream t h p i then 0 else parent t ! i)"
    using inv mem by (auto simp: t' disconnect_inv_def)
qed

section \<open>Well-formed topologies\<close>

text \<open>
  Every device address in use leads, hub by hub, to the root; no two devices are in the same place;
  address 0 is not in use; and the root has its one port, port 1.
\<close>

inductive rooted :: "Topology \<Rightarrow> nat \<Rightarrow> bool" for t where
  at_root: "rooted t 0"
| at_hub: "d < length (parent t) \<Longrightarrow> parent t ! d \<noteq> 0 \<Longrightarrow> rooted t (unat (parent t ! d AND 15)) \<Longrightarrow> rooted t d"

definition topo_ok :: "Topology \<Rightarrow> bool" where
  "topo_ok t \<longleftrightarrow> length (parent t) = 32 \<and> parent t ! 0 = 0 \<and>
     (\<forall>d<32. parent t ! d \<noteq> 0 \<longrightarrow> rooted t d) \<and>
     (\<forall>d<32. \<forall>e<32. parent t ! d \<noteq> 0 \<longrightarrow> parent t ! d = parent t ! e \<longrightarrow> d = e) \<and>
     (\<forall>d<32. parent t ! d \<noteq> 0 \<longrightarrow> parent t ! d AND 15 = 0 \<longrightarrow> parent t ! d = 16)"

lemma topo_okD:
  assumes "topo_ok t"
  shows "length (parent t) = 32" and "parent t ! 0 = 0"
    and "d < 32 \<Longrightarrow> parent t ! d \<noteq> 0 \<Longrightarrow> rooted t d"
    and "d < 32 \<Longrightarrow> e < 32 \<Longrightarrow> parent t ! d \<noteq> 0 \<Longrightarrow> parent t ! d = parent t ! e \<Longrightarrow> d = e"
    and "d < 32 \<Longrightarrow> parent t ! d \<noteq> 0 \<Longrightarrow> parent t ! d AND 15 = 0 \<Longrightarrow> parent t ! d = 16"
  using assms unfolding topo_ok_def by blast+

lemma topo_ok_new: "topo_ok topology_new"
  by (simp add: topo_ok_def topology_new_def)

lemma rooted_mono:
  assumes "rooted t d" and "length (parent t') = length (parent t)"
    and "\<And>i. i < length (parent t) \<Longrightarrow> parent t ! i \<noteq> 0 \<Longrightarrow> parent t' ! i = parent t ! i"
  shows "rooted t' d"
  using assms(1)
proof (induction rule: rooted.induct)
  case at_root
  show ?case by (rule rooted.at_root)
next
  case (at_hub d)
  then show ?case using assms rooted.at_hub [of d t'] by simp
qed

lemma is_present_iff: "length (parent t) = 32 \<Longrightarrow> is_present t d \<longleftrightarrow> unat d < 32 \<and> parent t ! unat d \<noteq> 0"
  by (auto simp: is_present_def word_neq_0_conv)

lemma device_disconnect_ok:
  assumes "topo_ok t" and "device_disconnect t h p = (t', gone)"
  shows "topo_ok t'"
proof (cases "h < 16 \<and> p < 16")
  case True
  note len = topo_okD(1) [OF assms(1)]
  have len': "length (parent t') = 32"
    and at: "\<And>i. i < 32 \<Longrightarrow> parent t' ! i = (if downstream t h p i then 0 else parent t ! i)"
    using device_disconnect_downstream [OF len _ _ assms(2)] True by blast+
  have root: "rooted t d \<Longrightarrow> d = 0 \<or> \<not> downstream t h p d \<Longrightarrow> rooted t' d" for d
  proof (induction rule: rooted.induct)
    case at_root
    show ?case by (rule rooted.at_root)
  next
    case (at_hub d)
    show ?case
    proof (cases "d = 0")
      case False
      then have "\<not> downstream t h p (unat (parent t ! d AND 15))"
        using at_hub below [of t h p d] by blast
      then show ?thesis using at_hub False at [of d] len len' by (auto intro: rooted.at_hub)
    qed (simp add: rooted.at_root)
  qed
  have "\<And>d. d < 32 \<Longrightarrow> parent t' ! d \<noteq> 0 \<Longrightarrow> \<not> downstream t h p d \<and> parent t' ! d = parent t ! d"
    using at by (auto split: if_splits)
  then have kept: "\<not> downstream t h p d" "parent t' ! d = parent t ! d"
    if "d < 32" "parent t' ! d \<noteq> 0" for d using that by blast+
  have "\<forall>d<32. parent t' ! d \<noteq> 0 \<longrightarrow> rooted t' d"
    using kept topo_okD(3) [OF assms(1)] root by metis
  moreover have "\<forall>d<32. \<forall>e<32. parent t' ! d \<noteq> 0 \<longrightarrow> parent t' ! d = parent t' ! e \<longrightarrow> d = e"
    using kept topo_okD(4) [OF assms(1)] by metis
  moreover have "\<forall>d<32. parent t' ! d \<noteq> 0 \<longrightarrow> parent t' ! d AND 15 = 0 \<longrightarrow> parent t' ! d = 16"
    using kept topo_okD(5) [OF assms(1)] by metis
  ultimately show ?thesis
    unfolding topo_ok_def using topo_okD(2) [OF assms(1)] len' at [of 0] by simp
next
  case False
  then have "t' = t" using assms(2) by (auto simp: device_disconnect_def MAX_HUBS_def MAX_PORTS_def not_less)
  then show ?thesis using assms(1) by simp
qed

lemma find_upt_least: "find P [0..<n] = Some i \<longleftrightarrow> i < n \<and> P i \<and> (\<forall>j<i. \<not> P j)"
  by (auto simp: find_Some_iff)

lemma find_mem: "find P xs = Some i \<Longrightarrow> i \<in> set xs \<and> P i"
  by (auto simp: find_Some_iff)

lemma connect_order_range: "i \<in> set (connect_order is_hub) \<Longrightarrow> 0 < i \<and> i < 32 \<and> (is_hub \<longrightarrow> i < 16)"
  by (auto simp: connect_order_def MAX_HUBS_def MAX_DEVICES_def split: if_splits)

text \<open>The three outcomes of \<open>device_connect\<close> in range: already there, a fresh address, none left.\<close>

lemma device_connect_cases [consumes 3]:
  assumes "length (parent t) = 32" and "h < 16" and "p < 16"
  obtains (known) i where "i < 32" "parent t ! i = parent_entry h p"
      "device_connect t h p is_hub = (t, Some (word_of_nat i))"
  | (fresh) i where "0 < i" "i < 32" "is_hub \<longrightarrow> i < 16" "parent t ! i = 0"
      "\<forall>j<32. parent t ! j \<noteq> parent_entry h p"
      "device_connect t h p is_hub =
         (t\<lparr>parent := (parent t)[i := parent_entry h p]\<rparr>, Some (word_of_nat i))"
  | (exhausted) "\<forall>i\<in>set (connect_order is_hub). parent t ! i \<noteq> 0"
      "\<forall>j<32. parent t ! j \<noteq> parent_entry h p" "device_connect t h p is_hub = (t, None)"
proof -
  have range: "\<not> (h \<ge> MAX_HUBS \<or> p \<ge> MAX_PORTS)"
    using assms by (simp add: MAX_HUBS_def MAX_PORTS_def not_le)
  have present: "is_present t (word_of_nat i) \<longleftrightarrow> parent t ! i \<noteq> 0" if "i \<in> set (connect_order is_hub)" for i
    using connect_order_range [OF that] by (simp add: is_present_iff assms)
  let ?known = "find (\<lambda>i. parent t ! i = parent_entry h p) [0..<length (parent t)]"
  let ?free = "find (\<lambda>i. \<not> is_present t (word_of_nat i)) (connect_order is_hub)"
  show thesis
  proof (cases ?known)
    case (Some i)
    then have "i < 32" "parent t ! i = parent_entry h p" using assms(1) by (auto simp: find_upt_least)
    then show thesis using known [of i] range Some by (simp add: device_connect_def Let_def)
  next
    case None
    then have absent: "\<forall>j<32. parent t ! j \<noteq> parent_entry h p"
      using assms(1) by (auto simp: find_None_iff)
    show thesis
    proof (cases ?free)
      case (Some i)
      then have "0 < i" "i < 32" "is_hub \<longrightarrow> i < 16" "parent t ! i = 0"
        using find_mem [OF Some] connect_order_range [of i] present by auto
      then show thesis using fresh [of i] None Some absent range by (simp add: device_connect_def Let_def)
    next
      case free: None
      then have "\<forall>i\<in>set (connect_order is_hub). parent t ! i \<noteq> 0"
        using present by (auto simp: find_None_iff)
      then show thesis using exhausted None free absent range by (simp add: device_connect_def Let_def)
    qed
  qed
qed

lemma device_connect_ok:
  assumes "topo_ok t" and "h < 16" and "p < 16" and "h = 0 \<Longrightarrow> p = 1"
    and "h = 0 \<or> is_present t h" and "device_connect t h p is_hub = (t', Some n)"
  shows "topo_ok t'" and "is_present t' n" and "0 < unat n" and "unat n < 32"
    and "parent t' ! unat n = parent_entry h p"
proof -
  note len = topo_okD(1) [OF assms(1)]
  have nz: "parent_entry h p \<noteq> 0" using assms by (auto simp: parent_entry_0_iff)
  have "topo_ok t' \<and> is_present t' n \<and> 0 < unat n \<and> unat n < 32 \<and> parent t' ! unat n = parent_entry h p"
    using len assms(2,3)
  proof (cases rule: device_connect_cases [where is_hub = is_hub])
    case (known i)
    then have "i \<noteq> 0" using nz topo_okD(2) [OF assms(1)] by metis
    then show ?thesis using known assms(1,6) nz len by (auto simp: is_present_iff)
  next
    case (fresh i)
    then have t': "t' = t\<lparr>parent := (parent t)[i := parent_entry h p]\<rparr>" "n = word_of_nat i"
      using assms(6) by auto
    have mono: "rooted t' d" if "rooted t d" for d
      by (rule rooted_mono [OF that]) (use fresh len in \<open>auto simp: t' nth_list_update\<close>)
    have "rooted t (unat h)"
      using assms topo_okD(3) [OF assms(1), of "unat h"] len by (auto simp: is_present_iff rooted.at_root)
    then have "rooted t' i"
      using mono fresh len nz rooted.at_hub [of i t'] assms by (simp add: t' parent_entry_parts)
    moreover have "parent_entry h p AND 15 = 0 \<Longrightarrow> parent_entry h p = 16"
      using assms(4) parent_entry_parts [OF assms(2,3)] by (simp add: parent_entry_def)
    ultimately have "topo_ok t'"
      using topo_okD [OF assms(1)] mono fresh nz unfolding topo_ok_def
      by (auto simp: t' nth_list_update)
    then show ?thesis using fresh len nz by (simp add: t' is_present_iff)
  next
    case exhausted
    then show ?thesis using assms by simp
  qed
  then show "topo_ok t'" and "is_present t' n" and "0 < unat n" and "unat n < 32"
    and "parent t' ! unat n = parent_entry h p" by blast+
qed

text \<open>Connecting at a port of a hub that is present, with any outcome.\<close>

lemma device_connect_at_hub_ok:
  assumes "topo_ok t" and "is_present t h" and c: "device_connect t h p is_hub = (t', r)"
  shows "topo_ok t'"
proof (cases "h < 16 \<and> p < 16")
  case True
  note len = topo_okD(1) [OF assms(1)]
  have "h \<noteq> 0" using assms(1,2) topo_okD(2) len by (auto simp: is_present_iff)
  show ?thesis
  proof (cases r)
    case None
    have "t' = t"
      using c None by (auto simp: device_connect_def Let_def split: if_splits option.splits)
    then show ?thesis using assms(1) by simp
  next
    case (Some n)
    then show ?thesis using device_connect_ok(1) [OF assms(1), of h p is_hub t' n] True assms \<open>h \<noteq> 0\<close> by simp
  qed
next
  case False
  then have "t' = t" using c by (auto simp: device_connect_def MAX_HUBS_def MAX_PORTS_def not_less split: if_splits)
  then show ?thesis using assms(1) by simp
qed

text \<open>Connecting at the root always succeeds: if any device is there, one is at the root port.\<close>

lemma rooted_root_child:
  assumes "topo_ok t"
  shows "rooted t d \<Longrightarrow> d < 32 \<Longrightarrow> parent t ! d \<noteq> 0 \<Longrightarrow> \<exists>e<32. parent t ! e = 16"
proof (induction rule: rooted.induct)
  case at_root
  then show ?case using topo_okD(2) [OF assms] by simp
next
  case (at_hub d)
  show ?case
  proof (cases "parent t ! d AND 15 = 0")
    case True
    then show ?thesis using topo_okD(5) [OF assms, of d] at_hub by blast
  next
    case False
    then have "unat (parent t ! d AND 15) \<noteq> 0" by (simp add: unat_eq_0)
    then have "parent t ! unat (parent t ! d AND 15) \<noteq> 0"
      using at_hub(3) by (auto elim: rooted.cases)
    then show ?thesis using at_hub.IH hub_below_32 by blast
  qed
qed

lemma rooted_downstream_root:
  assumes "topo_ok t"
  shows "rooted t d \<Longrightarrow> d < 32 \<Longrightarrow> parent t ! d \<noteq> 0 \<Longrightarrow> downstream t 0 1 d"
proof (induction rule: rooted.induct)
  case at_root
  then show ?case using topo_okD(2) [OF assms] by simp
next
  case (at_hub d)
  show ?case
  proof (cases "parent t ! d AND 15 = 0")
    case True
    then have "parent t ! d = 16" using topo_okD(5) [OF assms, of d] at_hub by blast
    then show ?thesis using at_hub(1) by (auto intro: unplugged)
  next
    case False
    then have "unat (parent t ! d AND 15) \<noteq> 0" by (simp add: unat_eq_0)
    then have "parent t ! unat (parent t ! d AND 15) \<noteq> 0"
      using at_hub(3) by (auto elim: rooted.cases)
    then show ?thesis using at_hub hub_below_32 by (auto intro: below)
  qed
qed

lemma root_disconnect_empties:
  assumes "topo_ok t"
  shows "fst (device_disconnect t 0 1) = topology_new"
proof -
  obtain t' gone where d: "device_disconnect t 0 1 = (t', gone)" by fastforce
  note len = topo_okD(1) [OF assms]
  have "length (parent t') = 32" using device_disconnect_downstream(2) [OF len _ _ d] by simp
  moreover have "parent t' ! i = 0" if "i < 32" for i
    using device_disconnect_downstream(3) [OF len _ _ d that] that
      rooted_downstream_root [OF assms, of i] topo_okD(3) [OF assms, of i] by (cases "parent t ! i = 0") auto
  ultimately have "parent t' = replicate 32 0" by (simp add: list_eq_iff_nth_eq)
  then show ?thesis by (simp add: d topology_new_def)
qed

lemma root_connect_succeeds:
  assumes "topo_ok t"
  shows "\<exists>t' n. device_connect t 0 1 is_hub = (t', Some n)"
proof -
  have "(0 :: u8) < 16" "(1 :: u8) < 16" by simp_all
  with topo_okD(1) [OF assms] show ?thesis
  proof (cases rule: device_connect_cases [where is_hub = is_hub])
    case exhausted
    have "1 \<in> set (connect_order is_hub)" by (simp add: connect_order_def MAX_HUBS_def MAX_DEVICES_def)
    then have "parent t ! 1 \<noteq> 0" using exhausted by blast
    then obtain e where "e < 32" "parent t ! e = 16"
      using rooted_root_child [OF assms, of 1] topo_okD(3) [OF assms, of 1] by auto
    then show ?thesis using exhausted by (auto simp: parent_entry_def)
  qed auto
qed

section \<open>Printing a topology\<close>

text \<open>
  \<open>Debug::fmt\<close> descends from a device into the devices plugged into it. The depth of the recursion
  is bounded by the first argument, \<open>None\<close> standing for a recursion that goes deeper.
\<close>

definition children :: "Topology \<Rightarrow> nat \<Rightarrow> nat list" where
  "children t i = filter (\<lambda>j. parent t ! j \<noteq> 0 \<and> parent t ! j AND 15 = word_of_nat i) [1..<MAX_DEVICES]"

fun fmt_inner :: "nat \<Rightarrow> Topology \<Rightarrow> nat \<Rightarrow> string option" where
  "fmt_inner 0 t i = None"
| "fmt_inner (Suc k) t i =
     (if children t i = [] then Some (show_nat i)
      else map_option (\<lambda>parts. show_nat i @ '':('' @ join '' '' parts @ '')'')
             (those (map (fmt_inner k t) (children t i))))"

definition topology_fmt :: "Topology \<Rightarrow> string option" where
  "topology_fmt t = fmt_inner 32 t 0"

definition child_rel :: "Topology \<Rightarrow> (nat \<times> nat) set" where
  "child_rel t = {(j, i). i < 32 \<and> j \<in> set (children t i)}"

lemma child_relD:
  assumes "(j, i) \<in> child_rel t"
  shows "0 < j" "j < 32" "parent t ! j \<noteq> 0" "i = unat (parent t ! j AND 15)"
  using assms by (auto simp: child_rel_def children_def MAX_DEVICES_def)

lemma rooted_acyclic:
  assumes "topo_ok t"
  shows "rooted t d \<Longrightarrow> (d, d) \<notin> (child_rel t)\<^sup>+"
proof (induction rule: rooted.induct)
  case at_root
  show ?case by (auto dest!: tranclD child_relD(1))
next
  case (at_hub d)
  show ?case
  proof
    assume "(d, d) \<in> (child_rel t)\<^sup>+"
    then obtain h where h: "(d, h) \<in> child_rel t" "(h, d) \<in> (child_rel t)\<^sup>*" by (blast dest: tranclD)
    then have "(h, h) \<in> (child_rel t)\<^sup>+" by (rule rtrancl_into_trancl1 [rotated])
    then show False using at_hub.IH child_relD(4) [OF h(1)] by simp
  qed
qed

definition descendants :: "Topology \<Rightarrow> nat \<Rightarrow> nat set" where
  "descendants t i = {j. (j, i) \<in> (child_rel t)\<^sup>+}"

lemma descendants_range: "descendants t i \<subseteq> {1..<32}"
  by (fastforce simp: descendants_def dest: tranclD child_relD(1,2))

lemma descendants_child:
  assumes "topo_ok t" and "(j, i) \<in> child_rel t"
  shows "card (descendants t j) < card (descendants t i)"
proof (rule psubset_card_mono)
  show "finite (descendants t i)" using descendants_range finite_subset by blast
  have "rooted t j" using child_relD [OF assms(2)] topo_okD(3) [OF assms(1)] by simp
  then have "j \<notin> descendants t j" using rooted_acyclic [OF assms(1)] by (simp add: descendants_def)
  moreover have "j \<in> descendants t i" using assms(2) by (auto simp: descendants_def)
  moreover have "descendants t j \<subseteq> descendants t i"
    using assms(2) by (auto simp: descendants_def intro: trancl_into_trancl)
  ultimately show "descendants t j \<subset> descendants t i" by blast
qed

lemma those_map_Some: "(\<And>x. x \<in> set xs \<Longrightarrow> \<exists>y. f x = Some y) \<Longrightarrow> \<exists>ys. those (map f xs) = Some ys"
  by (induction xs) fastforce+

lemma fmt_inner_total:
  assumes "topo_ok t"
  shows "i < 32 \<Longrightarrow> card (descendants t i) < fuel \<Longrightarrow> \<exists>out. fmt_inner fuel t i = Some out"
proof (induction fuel arbitrary: i)
  case (Suc k)
  have "\<exists>out. fmt_inner k t j = Some out" if "j \<in> set (children t i)" for j
  proof -
    have "(j, i) \<in> child_rel t" using that Suc.prems by (simp add: child_rel_def)
    then show ?thesis using Suc.IH [of j] descendants_child [OF assms] Suc.prems child_relD(2) by fastforce
  qed
  then show ?case using those_map_Some [of "children t i" "fmt_inner k t"] by auto
qed simp

section \<open>Properties\<close>

text \<open>C10: \<open>device_disconnect\<close> terminates, returns exactly the addresses of the unplugged device and
of every device that hangs off it through any number of hubs, and takes exactly those devices out
of the topology.\<close>

theorem device_disconnect_closure:
  assumes "length (parent t) = 32" and "h < 16" and "p < 16"
    and "device_disconnect t h p = (t', gone)"
  shows "(\<forall>d. d \<in> set (bitset_iter gone) \<longleftrightarrow> downstream t h p (unat d)) \<and>
    length (parent t') = 32 \<and>
    (\<forall>d<32. parent t' ! d = (if downstream t h p d then 0 else parent t ! d))"
  using device_disconnect_downstream [OF assms] by (simp add: set_bitset_iter)

definition example_topology :: Topology where
  "example_topology = \<lparr>parent = [0, 16, 17, 18, 33] @ replicate 27 0\<rparr>"

lemma example_topology_ok: "topo_ok example_topology"
proof -
  let ?t = "example_topology"
  have "rooted ?t 1" by (rule at_hub) (simp_all add: example_topology_def at_root)
  then have "rooted ?t 2" by (intro at_hub [of 2]) (simp_all add: example_topology_def)
  then have "rooted ?t 3" by (intro at_hub [of 3]) (simp_all add: example_topology_def)
  have "rooted ?t 4" using \<open>rooted ?t 1\<close> by (intro at_hub [of 4]) (simp_all add: example_topology_def)
  have dom: "\<forall>d\<in>set [0..<32]. parent ?t ! d \<noteq> 0 \<longrightarrow> d \<in> set [1, 2, 3, 4]" by code_simp
  have inj: "\<forall>d\<in>set [0..<32]. \<forall>e\<in>set [0..<32]. parent ?t ! d \<noteq> 0 \<longrightarrow> parent ?t ! d = parent ?t ! e \<longrightarrow> d = e"
    by code_simp
  have rt: "\<forall>d\<in>set [0..<32]. parent ?t ! d \<noteq> 0 \<longrightarrow> parent ?t ! d AND 15 = 0 \<longrightarrow> parent ?t ! d = 16"
    by code_simp
  have "\<forall>d<32. parent ?t ! d \<noteq> 0 \<longrightarrow> rooted ?t d"
    using dom \<open>rooted ?t 1\<close> \<open>rooted ?t 2\<close> \<open>rooted ?t 3\<close> \<open>rooted ?t 4\<close> by auto
  moreover have "length (parent ?t) = 32" "parent ?t ! 0 = 0" by (simp_all add: example_topology_def)
  ultimately show ?thesis using inj rt unfolding topo_ok_def by simp
qed

theorem device_disconnect_closure_witness:
  "bitset_iter (snd (device_disconnect example_topology 1 1)) = [2, 3] \<and>
   downstream example_topology 1 1 3 \<and> \<not> downstream example_topology 1 1 4"
proof -
  obtain t' gone where d: "device_disconnect example_topology 1 1 = (t', gone)" by fastforce
  have iter: "bitset_iter (snd (device_disconnect example_topology 1 1)) = [2, 3]" by code_simp
  have "x \<in> set (bitset_iter gone) \<longleftrightarrow> downstream example_topology 1 1 (unat x)" for x
    using device_disconnect_closure [OF topo_okD(1) [OF example_topology_ok] _ _ d] by simp
  from this [of 3] this [of 4] iter d show ?thesis by simp
qed

text \<open>C17: every topology that connects and disconnects bring about is well-formed: from a
well-formed topology, a device that connects at the root port or at a port of a hub that is present
gets an address between 1 and 31 that is then in use and recorded at that place, a new hub gets an
address below 16, devices already present keep their entries, and the result, like the result of
every disconnect, is well-formed again.\<close>

theorem topology_invariant:
  assumes "topo_ok t" and "h < 16" and "p < 16" and "h = 0 \<longrightarrow> p = 1" and "h = 0 \<or> is_present t h"
    and "device_connect t h p is_hub = (t', Some n)" and "device_disconnect t h2 p2 = (t2, gone)"
  shows "topo_ok topology_new \<and> topo_ok t' \<and> 1 \<le> n \<and> n \<le> 31 \<and> is_present t' n \<and>
    parent t' ! unat n = parent_entry h p \<and> (is_hub \<and> \<not> is_present t n \<longrightarrow> n < 16) \<and>
    (\<forall>d. is_present t d \<longrightarrow> parent t' ! unat d = parent t ! unat d) \<and> topo_ok t2"
proof -
  note len = topo_okD(1) [OF assms(1)]
  have nz: "parent_entry h p \<noteq> 0" using assms by (auto simp: parent_entry_0_iff)
  have "(is_hub \<and> \<not> is_present t n \<longrightarrow> n < 16) \<and>
      (\<forall>d. is_present t d \<longrightarrow> parent t' ! unat d = parent t ! unat d)"
    using len assms(2,3)
  proof (cases rule: device_connect_cases [where is_hub = is_hub])
    case (known i)
    then show ?thesis using assms(6) nz len by (auto simp: is_present_iff)
  next
    case (fresh i)
    then show ?thesis using assms(6) len by (auto simp: is_present_iff word_less_nat_alt nth_list_update)
  next
    case exhausted
    then show ?thesis using assms(6) by simp
  qed
  moreover have "topo_ok t'" "is_present t' n" "parent t' ! unat n = parent_entry h p" "1 \<le> n" "n \<le> 31"
    using device_connect_ok [OF assms(1-3) _ assms(5,6)] assms(4)
    by (auto simp: word_le_nat_alt)
  ultimately show ?thesis using device_disconnect_ok [OF assms(1,7)] topo_ok_new by blast
qed

theorem topology_invariant_witness:
  "topo_ok (fst (device_connect example_topology 3 2 False)) \<and>
   snd (device_connect example_topology 3 2 False) = Some 31"
proof -
  have val: "snd (device_connect example_topology 3 2 False) = Some 31" by code_simp
  then have eq: "device_connect example_topology 3 2 False =
      (fst (device_connect example_topology 3 2 False), Some 31)"
    by (metis prod.collapse)
  have "is_present example_topology 3" by code_simp
  then show ?thesis
    using topology_invariant [OF example_topology_ok _ _ _ _ eq, of 1 1
        "fst (device_disconnect example_topology 1 1)" "snd (device_disconnect example_topology 1 1)"] val
    by simp
qed

text \<open>Printing a well-formed topology ends: the recursion through the hubs never goes deeper than
the 32 levels allowed for.\<close>

theorem topology_fmt_terminates:
  assumes "topo_ok t"
  shows "\<exists>out. topology_fmt t = Some out"
proof -
  have "card (descendants t 0) \<le> card {1..<32::nat}"
    by (rule card_mono [OF _ descendants_range]) simp
  then show ?thesis using fmt_inner_total [OF assms, of 0 32] by (simp add: topology_fmt_def)
qed

theorem topology_fmt_terminates_witness:
  "\<exists>out. topology_fmt example_topology = Some out \<and> out = ''0:(1:(2:(3) 4))''"
proof -
  have "topology_fmt example_topology = Some ''0:(1:(2:(3) 4))''" by code_simp
  then show ?thesis using topology_fmt_terminates [OF example_topology_ok] by simp
qed

end
