(* ===== verification/Usb_Bus.thy ===== *)
theory Usb_Bus
  imports Host_Controller Topology
begin

text \<open>
  \<open>cotton-usb-host/src/usb_bus.rs\<close>: enumeration and configuration of devices, hubs, and the stream of
  device events. The bus is parametric in the host controller: every operation takes the record \<open>H\<close>
  of the controller's operations. Operations that only talk to the controller are programs over its
  state; those that also keep the hubs' state are programs over \<open>BusState\<close>. Delays, which have no
  effect on the state, and debug output are left out.
\<close>

section \<open>Devices and endpoints\<close>

record DeviceInfo =
  vid :: u16
  pid :: u16
  di_class :: u8
  di_subclass :: u8

record UnaddressedDevice =
  una_usb_speed :: UsbSpeed
  una_packet_size_ep0 :: u8

record UnconfiguredDevice =
  unc_usb_address :: u8
  unc_usb_speed :: UsbSpeed
  unc_packet_size_ep0 :: u8

record BulkIn =
  bi_usb_address :: u8
  bi_usb_speed :: UsbSpeed
  bi_endpoint :: u8
  bi_data_toggle :: bool

record BulkOut =
  bo_usb_address :: u8
  bo_usb_speed :: UsbSpeed
  bo_endpoint :: u8
  bo_data_toggle :: bool

record UsbDevice =
  ud_usb_address :: u8
  ud_usb_speed :: UsbSpeed
  ud_packet_size_ep0 :: u8
  in_endpoints_bitmap :: u16
  out_endpoints_bitmap :: u16

definition in_endpoints :: "UsbDevice \<Rightarrow> BitSet" where
  "in_endpoints d = BitSet (ucast (in_endpoints_bitmap d))"

definition out_endpoints :: "UsbDevice \<Rightarrow> BitSet" where
  "out_endpoints d = BitSet (ucast (out_endpoints_bitmap d))"

definition open_in_endpoint :: "UsbDevice \<Rightarrow> u8 \<Rightarrow> UsbDevice \<times> (UsbError, BulkIn) result" where
  "open_in_endpoint d ep =
     (if ep > 0 \<and> ep < 16 \<and> in_endpoints_bitmap d AND one_shl (unat ep) \<noteq> 0 then
        (d\<lparr>in_endpoints_bitmap := in_endpoints_bitmap d AND NOT (one_shl (unat ep))\<rparr>,
         Ok \<lparr>bi_usb_address = ud_usb_address d, bi_usb_speed = ud_usb_speed d, bi_endpoint = ep,
             bi_data_toggle = False\<rparr>)
      else (d, Err NoSuchEndpoint))"

definition open_out_endpoint :: "UsbDevice \<Rightarrow> u8 \<Rightarrow> UsbDevice \<times> (UsbError, BulkOut) result" where
  "open_out_endpoint d ep =
     (if ep > 0 \<and> ep < 16 \<and> out_endpoints_bitmap d AND one_shl (unat ep) \<noteq> 0 then
        (d\<lparr>out_endpoints_bitmap := out_endpoints_bitmap d AND NOT (one_shl (unat ep))\<rparr>,
         Ok \<lparr>bo_usb_address = ud_usb_address d, bo_usb_speed = ud_usb_speed d, bo_endpoint = ep,
             bo_data_toggle = False\<rparr>)
      else (d, Err NoSuchEndpoint))"

definition create_test_device :: "u16 \<Rightarrow> u16 \<Rightarrow> UsbDevice" where
  "create_test_device ins outs =
     \<lparr>ud_usb_address = 255, ud_usb_speed = Full12, ud_packet_size_ep0 = 64,
      in_endpoints_bitmap = ins, out_endpoints_bitmap = outs\<rparr>"

datatype DeviceEvent =
    Connect UnconfiguredDevice DeviceInfo
  | HubConnect UsbDevice
  | Disconnect BitSet
  | EnumerationError u8 u8 UsbError
  | NoEvent

section \<open>Configurations\<close>

record BasicConfiguration =
  num_configurations :: u8
  bc_configuration_value :: u8
  bc_in_endpoints :: u16
  bc_out_endpoints :: u16

definition basic_configuration_default :: BasicConfiguration where
  "basic_configuration_default =
     \<lparr>num_configurations = 0, bc_configuration_value = 0, bc_in_endpoints = 0, bc_out_endpoints = 0\<rparr>"

text \<open>The addition \<open>+= 1\<close> on a \<open>u8\<close> panics when it overflows.\<close>

definition BasicConfigurationVisitor :: "BasicConfiguration DescriptorVisitor" where
  "BasicConfigurationVisitor = default_visitor\<lparr>
     on_configuration := \<lambda>b c.
       if num_configurations b = 255 then Panic
       else Ret (b\<lparr>num_configurations := num_configurations b + 1,
                   bc_configuration_value := bConfigurationValue c\<rparr>),
     on_endpoint := \<lambda>b e.
       if bEndpointAddress e AND 0x80 = 0x80
       then Ret (b\<lparr>bc_in_endpoints := bc_in_endpoints b OR one_shl (unat (bEndpointAddress e AND 15))\<rparr>)
       else Ret (b\<lparr>bc_out_endpoints := bc_out_endpoints b OR one_shl (unat (bEndpointAddress e AND 15))\<rparr>)\<rparr>"

record SpecificConfiguration =
  sc_configuration_value :: u8
  sc_ok :: bool
  sc_in_endpoints :: u16
  sc_out_endpoints :: u16

definition specific_configuration_new :: "u8 \<Rightarrow> SpecificConfiguration" where
  "specific_configuration_new v =
     \<lparr>sc_configuration_value = v, sc_ok = False, sc_in_endpoints = 0, sc_out_endpoints = 0\<rparr>"

definition SpecificConfigurationVisitor :: "SpecificConfiguration DescriptorVisitor" where
  "SpecificConfigurationVisitor = default_visitor\<lparr>
     on_configuration := \<lambda>b c. Ret (b\<lparr>sc_ok := bConfigurationValue c = sc_configuration_value b\<rparr>),
     on_endpoint := \<lambda>b e.
       if sc_ok b then
         if bEndpointAddress e AND 0x80 = 0x80
         then Ret (b\<lparr>sc_in_endpoints := sc_in_endpoints b OR one_shl (unat (bEndpointAddress e AND 15))\<rparr>)
         else Ret (b\<lparr>sc_out_endpoints := sc_out_endpoints b OR one_shl (unat (bEndpointAddress e AND 15))\<rparr>)
       else Ret b\<rparr>"

section \<open>Hub state\<close>

record ('hc, 'pipe) BusState =
  driver :: 'hc
  topology :: Topology
  pipes :: "'pipe option list"

definition hub_state_default :: "'hc \<Rightarrow> ('hc, 'pipe) BusState" where
  "hub_state_default hc = \<lparr>driver = hc, topology = topology_new, pipes = replicate 15 None\<rparr>"

text \<open>\<open>HubState::topology\<close>, a snapshot.\<close>

definition hub_state_topology :: "('hc, 'pipe) BusState \<Rightarrow> Topology" where
  "hub_state_topology s = topology s"

text \<open>A program over the controller, run on the bus.\<close>

definition on_driver :: "('hc, 'e, 'a) prog \<Rightarrow> (('hc, 'pipe) BusState, 'e, 'a) prog" where
  "on_driver m = (\<lambda>s. case m (driver s) of
     Panic \<Rightarrow> Panic | Ret (hc, r) \<Rightarrow> Ret (s\<lparr>driver := hc\<rparr>, r))"

definition try_add ::
    "('hc, 'pipe) HostController \<Rightarrow> u8 \<Rightarrow> u8 \<Rightarrow> u8 \<Rightarrow> u8 \<Rightarrow> (('hc, 'pipe) BusState, UsbError, unit) prog" where
  "try_add H a endpoint max_packet_size interval_ms = (\<lambda>s.
     case find (\<lambda>i. pipes s ! i = None) [0..<length (pipes s)] of
       None \<Rightarrow> Ret (s, Err TooManyDevices)
     | Some i \<Rightarrow>
        (case hc_try_alloc_interrupt_pipe H a endpoint (ucast max_packet_size) interval_ms (driver s) of
           Panic \<Rightarrow> Panic
         | Ret (hc, Inl e) \<Rightarrow> Ret (s\<lparr>driver := hc\<rparr>, Err e)
         | Ret (hc, Inr p) \<Rightarrow> Ret (s\<lparr>driver := hc, pipes := (pipes s)[i := Some p]\<rparr>, Ok ())))"

text \<open>\<open>HubStateStream::poll_next\<close>: the pipes are polled in order until one is ready.\<close>

fun poll_pipes ::
    "('hc, 'pipe) HostController \<Rightarrow> 'pipe option list \<Rightarrow> 'hc \<Rightarrow>
       ('hc \<times> 'pipe option list \<times> InterruptPacket option) outcome"
  where
  "poll_pipes H [] hc = Ret (hc, [], None)"
| "poll_pipes H (None # ps) hc =
     obind (poll_pipes H ps hc) (\<lambda>(hc', ps', r). Ret (hc', None # ps', r))"
| "poll_pipes H (Some p # ps) hc =
     obind (hc_poll_pipe H p hc) (\<lambda>(hc', p', m). case m of
       Some packet \<Rightarrow> Ret (hc', Some p' # ps, Some packet)
     | None \<Rightarrow> obind (poll_pipes H ps hc') (\<lambda>(hc'', ps', r). Ret (hc'', Some p' # ps', r)))"

definition hub_state_poll_next ::
    "('hc, 'pipe) HostController \<Rightarrow> ('hc, 'pipe) BusState \<Rightarrow> (('hc, 'pipe) BusState \<times> InterruptPacket option) outcome"
  where
  "hub_state_poll_next H s =
     obind (poll_pipes H (pipes s) (driver s)) (\<lambda>(hc, ps, r). Ret (s\<lparr>driver := hc, pipes := ps\<rparr>, r))"

section \<open>Talking to one device\<close>

definition get_configuration ::
    "try_from_bytes \<Rightarrow> ('hc, 'pipe) HostController \<Rightarrow> UnconfiguredDevice \<Rightarrow> 'v DescriptorVisitor \<Rightarrow> 'v \<Rightarrow>
       ('hc, UsbError, 'v) prog" where
  "get_configuration tfb H device V v =
     bindR (control_in H (unc_usb_address device) (unc_packet_size_ep0 device)
        \<lparr>bmRequestType = DEVICE_TO_HOST, bRequest = GET_DESCRIPTOR,
         wValue = push_bit 8 (ucast CONFIGURATION_DESCRIPTOR), wIndex = 0, wLength = 64\<rparr>
        (replicate 64 0)) (\<lambda>(sz, buf).
     liftO (obind (slice buf 0 sz) (\<lambda>b. parse_descriptors tfb V b v)))"

definition get_basic_configuration ::
    "try_from_bytes \<Rightarrow> ('hc, 'pipe) HostController \<Rightarrow> UnconfiguredDevice \<Rightarrow>
       ('hc, UsbError, BasicConfiguration) prog" where
  "get_basic_configuration tfb H device =
     bindR (get_configuration tfb H device BasicConfigurationVisitor basic_configuration_default) (\<lambda>bd.
     if num_configurations bd = 0 \<or> bc_configuration_value bd = 0 then throwR ProtocolError
     else returnR bd)"

definition configure ::
    "try_from_bytes \<Rightarrow> ('hc, 'pipe) HostController \<Rightarrow> UnconfiguredDevice \<Rightarrow> u8 \<Rightarrow> ('hc, UsbError, UsbDevice) prog"
  where
  "configure tfb H device configuration_value =
     bindR (control_none H (unc_usb_address device) (unc_packet_size_ep0 device)
        \<lparr>bmRequestType = HOST_TO_DEVICE, bRequest = SET_CONFIGURATION,
         wValue = ucast configuration_value, wIndex = 0, wLength = 0\<rparr>) (\<lambda>_.
     bindR (get_configuration tfb H device SpecificConfigurationVisitor
              (specific_configuration_new configuration_value)) (\<lambda>endpoints.
     returnR \<lparr>ud_usb_address = unc_usb_address device, ud_usb_speed = unc_usb_speed device,
       ud_packet_size_ep0 = unc_packet_size_ep0 device,
       in_endpoints_bitmap = sc_in_endpoints endpoints,
       out_endpoints_bitmap = sc_out_endpoints endpoints\<rparr>))"

definition new_device ::
    "('hc, 'pipe) HostController \<Rightarrow> UsbSpeed \<Rightarrow> ('hc, UsbError, UnaddressedDevice \<times> DeviceInfo) prog" where
  "new_device H speed =
     bindR (control_in H 0 8 (get_device_descriptor_packet 8) (replicate 18 0)) (\<lambda>(sz, descriptors).
     if sz < 8 then throwR ProtocolError else
     let packet_size_ep0 = descriptors ! 7 in
     bindR (control_in H 0 packet_size_ep0 (get_device_descriptor_packet 18) descriptors) (\<lambda>(sz, descriptors).
     if sz < 18 then throwR ProtocolError else
     returnR
       (\<lparr>una_usb_speed = speed, una_packet_size_ep0 = packet_size_ep0\<rparr>,
        \<lparr>vid = u16_from_le_bytes [descriptors ! 8, descriptors ! 9],
         pid = u16_from_le_bytes [descriptors ! 10, descriptors ! 11],
         di_class = descriptors ! 4, di_subclass = descriptors ! 5\<rparr>)))"

definition set_address ::
    "('hc, 'pipe) HostController \<Rightarrow> UnaddressedDevice \<Rightarrow> u8 \<Rightarrow> ('hc, UsbError, UnconfiguredDevice) prog" where
  "set_address H device a =
     bindR (control_none H 0 (una_packet_size_ep0 device)
        \<lparr>bmRequestType = HOST_TO_DEVICE, bRequest = SET_ADDRESS, wValue = ucast a, wIndex = 0,
         wLength = 0\<rparr>) (\<lambda>_.
     returnR \<lparr>unc_usb_address = a, unc_usb_speed = una_usb_speed device,
       unc_packet_size_ep0 = una_packet_size_ep0 device\<rparr>)"

definition bus_control_transfer ::
    "('hc, 'pipe) HostController \<Rightarrow> UsbDevice \<Rightarrow> SetupPacket \<Rightarrow> DataPhase \<Rightarrow> 'hc \<Rightarrow>
       ('hc \<times> (UsbError, usize) result \<times> DataPhase) outcome" where
  "bus_control_transfer H device pkt data_phase =
     hc_control_transfer H (ud_usb_address device) (ud_packet_size_ep0 device) pkt data_phase"

text \<open>\<open>clear_halt\<close> resets the endpoint's data toggle, which it returns with the endpoint.\<close>

definition clear_halt ::
    "('hc, 'pipe) HostController \<Rightarrow> BulkIn \<Rightarrow> ('hc, UsbError, BulkIn) prog" where
  "clear_halt H ep =
     bindR (control_none H (bi_usb_address ep) 8
        \<lparr>bmRequestType = 2, bRequest = CLEAR_FEATURE, wValue = 0,
         wIndex = ucast (bi_endpoint ep OR 0x80), wLength = 0\<rparr>) (\<lambda>_.
     returnR (ep\<lparr>bi_data_toggle := False\<rparr>))"

definition bus_bulk_in_transfer ::
    "('hc, 'pipe) HostController \<Rightarrow> BulkIn \<Rightarrow> u8 list \<Rightarrow> TransferType \<Rightarrow> 'hc \<Rightarrow>
       ('hc \<times> (UsbError, usize) result \<times> u8 list \<times> BulkIn) outcome" where
  "bus_bulk_in_transfer H ep data ty hc =
     (case hc_bulk_in_transfer H (bi_usb_address ep) (bi_endpoint ep) 64 data ty (bi_data_toggle ep) hc of
        Panic \<Rightarrow> Panic
      | Ret (hc', r, data', toggle) \<Rightarrow> Ret (hc', r, data', ep\<lparr>bi_data_toggle := toggle\<rparr>))"

definition bus_bulk_out_transfer ::
    "('hc, 'pipe) HostController \<Rightarrow> BulkOut \<Rightarrow> u8 list \<Rightarrow> TransferType \<Rightarrow> 'hc \<Rightarrow>
       ('hc \<times> (UsbError, usize) result \<times> BulkOut) outcome" where
  "bus_bulk_out_transfer H ep data ty hc =
     (case hc_bulk_out_transfer H (bo_usb_address ep) (bo_endpoint ep) 64 data ty (bo_data_toggle ep) hc of
        Panic \<Rightarrow> Panic
      | Ret (hc', r, toggle) \<Rightarrow> Ret (hc', r, ep\<lparr>bo_data_toggle := toggle\<rparr>))"

text \<open>
  \<open>interrupt_endpoint_in\<close>: the future of the allocation, flattened to the stream that it resolves to. As
  long as no pipe is free the stream is pending; from then on it is the pipe.
\<close>

datatype 'pipe InterruptStream = Allocating u8 u8 u16 u8 | Streaming 'pipe

definition interrupt_endpoint_in :: "u8 \<Rightarrow> u8 \<Rightarrow> u16 \<Rightarrow> u8 \<Rightarrow> 'pipe InterruptStream" where
  "interrupt_endpoint_in a endpoint max_packet_size interval_ms = Allocating a endpoint max_packet_size interval_ms"

definition stream_pipe ::
    "('hc, 'pipe) HostController \<Rightarrow> 'pipe \<Rightarrow> 'hc \<Rightarrow> ('hc \<times> 'pipe InterruptStream \<times> InterruptPacket option) outcome" where
  "stream_pipe H p hc = obind (hc_poll_pipe H p hc) (\<lambda>(hc', p', m). Ret (hc', Streaming p', m))"

definition interrupt_stream_poll ::
    "('hc, 'pipe) HostController \<Rightarrow> 'pipe InterruptStream \<Rightarrow> 'hc \<Rightarrow>
       ('hc \<times> 'pipe InterruptStream \<times> InterruptPacket option) outcome" where
  "interrupt_stream_poll H st hc =
     (case st of
        Allocating a e mp i \<Rightarrow>
          obind (hc_alloc_interrupt_pipe H a e mp i hc) (\<lambda>(hc', p). case p of
            None \<Rightarrow> Ret (hc', st, None)
          | Some p \<Rightarrow> stream_pipe H p hc')
      | Streaming p \<Rightarrow> stream_pipe H p hc)"

section \<open>Hubs\<close>

definition set_port_feature :: "('hc, 'pipe) HostController \<Rightarrow> u8 \<Rightarrow> u8 \<Rightarrow> u16 \<Rightarrow> ('hc, UsbError, unit) prog"
  where
  "set_port_feature H hub_address port feature =
     bindR (control_none H hub_address 8
        \<lparr>bmRequestType = HOST_TO_DEVICE OR CLASS_REQUEST OR RECIPIENT_OTHER, bRequest = SET_FEATURE,
         wValue = feature, wIndex = ucast port, wLength = 0\<rparr>) (\<lambda>_. returnR ())"

definition clear_port_feature :: "('hc, 'pipe) HostController \<Rightarrow> u8 \<Rightarrow> u8 \<Rightarrow> u16 \<Rightarrow> ('hc, UsbError, unit) prog"
  where
  "clear_port_feature H hub_address port feature =
     bindR (control_none H hub_address 8
        \<lparr>bmRequestType = HOST_TO_DEVICE OR CLASS_REQUEST OR RECIPIENT_OTHER, bRequest = CLEAR_FEATURE,
         wValue = feature, wIndex = ucast port, wLength = 0\<rparr>) (\<lambda>_. returnR ())"

definition get_hub_port_status :: "('hc, 'pipe) HostController \<Rightarrow> u8 \<Rightarrow> u8 \<Rightarrow> ('hc, UsbError, u16 \<times> u16) prog"
  where
  "get_hub_port_status H hub_address port =
     bindR (control_in H hub_address 8
        \<lparr>bmRequestType = DEVICE_TO_HOST OR CLASS_REQUEST OR RECIPIENT_OTHER, bRequest = GET_STATUS,
         wValue = 0, wIndex = ucast port, wLength = 4\<rparr> (replicate 4 0)) (\<lambda>(sz, data).
     returnR (u16_from_le_bytes [data ! 0, data ! 1], u16_from_le_bytes [data ! 2, data ! 3]))"

fun for_ports :: "('a \<Rightarrow> ('s, 'e, unit) prog) \<Rightarrow> 'a list \<Rightarrow> ('s, 'e, unit) prog" where
  "for_ports f [] = returnR ()"
| "for_ports f (p # ps) = bindR (f p) (\<lambda>_. for_ports f ps)"

definition new_hub ::
    "try_from_bytes \<Rightarrow> ('hc, 'pipe) HostController \<Rightarrow> UnconfiguredDevice \<Rightarrow>
       (('hc, 'pipe) BusState, UsbError, UsbDevice) prog" where
  "new_hub tfb H device =
     bindR (on_driver (get_basic_configuration tfb H device)) (\<lambda>bc.
     bindR (on_driver (configure tfb H device (bc_configuration_value bc))) (\<lambda>device.
     bindR (try_add H (ud_usb_address device) (word_of_nat (trailing_zeros (bc_in_endpoints bc)))
              (ud_packet_size_ep0 device) 9) (\<lambda>_.
     bindR (on_driver (control_in H (ud_usb_address device) (ud_packet_size_ep0 device)
        \<lparr>bmRequestType = DEVICE_TO_HOST OR CLASS_REQUEST, bRequest = GET_DESCRIPTOR,
         wValue = push_bit 8 (ucast HUB_DESCRIPTOR), wIndex = 0, wLength = 64\<rparr> (replicate 64 0)))
        (\<lambda>(sz, descriptors).
     if sz < 9 then throwR ProtocolError else
     bindR (for_ports (\<lambda>port. on_driver (set_port_feature H (ud_usb_address device) port PORT_POWER))
              (map word_of_nat [1..<Suc (unat (descriptors ! 2))])) (\<lambda>_.
     returnR device)))))"

text \<open>The end of \<open>handle_hub_packet\<close>'s work on a port: a device that answers gets its address.\<close>

definition connect_hub_device ::
    "try_from_bytes \<Rightarrow> ('hc, 'pipe) HostController \<Rightarrow> u8 \<Rightarrow> u8 \<Rightarrow> UnaddressedDevice \<Rightarrow> DeviceInfo \<Rightarrow>
       (('hc, 'pipe) BusState, UsbError, DeviceEvent) prog" where
  "connect_hub_device tfb H hub port device info =
     (let is_hub = (di_class info = HUB_CLASSCODE) in
      bindR (actR (\<lambda>s. case device_connect (topology s) hub port is_hub of
                 (t, r) \<Rightarrow> (s\<lparr>topology := t\<rparr>, r))) (\<lambda>r.
      case r of
        None \<Rightarrow> throwR TooManyDevices
      | Some a \<Rightarrow>
          bindR (on_driver (set_address H device a)) (\<lambda>device.
          if is_hub then bindR (new_hub tfb H device) (\<lambda>d. returnR (HubConnect d))
          else returnR (Connect device info))))"

definition disconnect_hub_port :: "u8 \<Rightarrow> u8 \<Rightarrow> (('hc, 'pipe) BusState, UsbError, DeviceEvent) prog" where
  "disconnect_hub_port hub port =
     actR (\<lambda>s. case device_disconnect (topology s) hub port of
       (t, gone) \<Rightarrow> (s\<lparr>topology := t\<rparr>, Disconnect gone))"

text \<open>The body of \<open>handle_hub_packet\<close>'s loop over the ports: the early returns, or the next port.\<close>

fun handle_hub_ports ::
    "try_from_bytes \<Rightarrow> ('hc, 'pipe) HostController \<Rightarrow> u8 \<Rightarrow> u8 list \<Rightarrow>
       (('hc, 'pipe) BusState, UsbError, DeviceEvent) prog" where
  "handle_hub_ports tfb H hub [] = returnR NoEvent"
| "handle_hub_ports tfb H hub (port # ports) =
     bindR (on_driver (get_hub_port_status H hub port)) (\<lambda>(state, changes).
     if changes \<noteq> 0 then
       let least = trailing_zeros changes in
       bindR (if least < 5 then on_driver (clear_port_feature H hub port (word_of_nat (least + 16)))
              else returnR ()) (\<lambda>_.
       if least = 0 then
         if state AND 1 = 0 then disconnect_hub_port hub port
         else
           bindR (on_driver (set_port_feature H hub port PORT_RESET)) (\<lambda>_.
           bindR (on_driver (get_hub_port_status H hub port)) (\<lambda>(state, _).
           if state AND 2 \<noteq> 0 then
             let speed = (if state AND 0x600 = 0 then Full12
                          else if state AND 0x600 = 0x400 then High480 else Low1_5) in
             bindR (on_driver (new_device H speed)) (\<lambda>(device, info).
             connect_hub_device tfb H hub port device info)
           else handle_hub_ports tfb H hub ports))
       else handle_hub_ports tfb H hub ports)
     else handle_hub_ports tfb H hub ports)"

definition hub_port_bitmap :: "InterruptPacket \<Rightarrow> BitSet" where
  "hub_port_bitmap packet =
     BitSet (if ip_size packet > 1
             then ucast (ip_data packet ! 0) OR push_bit 8 (ucast (ip_data packet ! 1))
             else ucast (ip_data packet ! 0))"

definition handle_hub_packet ::
    "try_from_bytes \<Rightarrow> ('hc, 'pipe) HostController \<Rightarrow> InterruptPacket \<Rightarrow>
       (('hc, 'pipe) BusState, UsbError, DeviceEvent) prog" where
  "handle_hub_packet tfb H packet =
     (if ip_size packet = 0 then throwR ProtocolError
      else handle_hub_ports tfb H (ip_address packet) (bitset_iter (hub_port_bitmap packet)))"

section \<open>Device events\<close>

datatype InternalEvent = Root DeviceStatus | Packet InterruptPacket

definition reset_root :: "('hc, 'pipe) HostController \<Rightarrow> ('hc, 'e, unit) prog" where
  "reset_root H = actR (\<lambda>hc. (hc_reset_root_port H False (hc_reset_root_port H True hc), ()))"

text \<open>
  The closure given to \<open>then\<close> in \<open>device_events\<close>: it returns the event for the stream, in place of an
  error, so its own error type is empty; \<open>tryR\<close> is the \<open>match\<close> on the result of each step.
\<close>

definition device_event ::
    "try_from_bytes \<Rightarrow> ('hc, 'pipe) HostController \<Rightarrow> InternalEvent \<Rightarrow>
       (('hc, 'pipe) BusState, unit, DeviceEvent) prog" where
  "device_event tfb H ev =
     (case ev of
        Root (Present speed) \<Rightarrow>
          bindR (on_driver (reset_root H)) (\<lambda>_.
          tryR (on_driver (new_device H speed)) (\<lambda>r. case r of
            Inl e \<Rightarrow> returnR (EnumerationError 0 1 e)
          | Inr (device, info) \<Rightarrow>
              (let is_hub = (di_class info = HUB_CLASSCODE) in
               bindR (actR (\<lambda>s. case device_connect (topology s) 0 1 is_hub of
                          (t, r) \<Rightarrow> (s\<lparr>topology := t\<rparr>, r))) (\<lambda>r. case r of
                 None \<Rightarrow> panicR
               | Some a \<Rightarrow>
                   tryR (on_driver (set_address H device a)) (\<lambda>r. case r of
                     Inl e \<Rightarrow> returnR (EnumerationError 0 1 e)
                   | Inr device \<Rightarrow>
                       if is_hub then
                         tryR (new_hub tfb H device) (\<lambda>r. case r of
                           Inl e \<Rightarrow> returnR (EnumerationError 0 1 e)
                         | Inr d \<Rightarrow> returnR (HubConnect d))
                       else returnR (Connect device info))))))
      | Root Absent \<Rightarrow>
          actR (\<lambda>s. (s\<lparr>topology := fst (device_disconnect (topology s) 0 1)\<rparr>, Disconnect (BitSet 0xFFFFFFFF)))
      | Packet packet \<Rightarrow>
          tryR (handle_hub_packet tfb H packet) (\<lambda>r. case r of
            Inl e \<Rightarrow> returnR (EnumerationError 0 1 e)
          | Inr ev \<Rightarrow> returnR ev))"

definition device_event_no_hubs ::
    "('hc, 'pipe) HostController \<Rightarrow> DeviceStatus \<Rightarrow> ('hc, unit, DeviceEvent) prog" where
  "device_event_no_hubs H status =
     (case status of
        Present speed \<Rightarrow>
          bindR (reset_root H) (\<lambda>_.
          tryR (new_device H speed) (\<lambda>r. case r of
            Inl e \<Rightarrow> returnR (EnumerationError 0 1 e)
          | Inr (device, info) \<Rightarrow>
              tryR (set_address H device 1) (\<lambda>r. case r of
                Inl e \<Rightarrow> returnR (EnumerationError 0 1 e)
              | Inr device \<Rightarrow> returnR (Connect device info))))
      | Absent \<Rightarrow> returnR (Disconnect (BitSet 0xFFFFFFFF)))"

section \<open>What the visitors collect\<close>

lemma basic_visit:
  assumes "unat (num_configurations b) < 255"
  shows "\<exists>b'. visit_descriptor tfb BasicConfigurationVisitor d b = Ret b' \<and>
    unat (num_configurations b') \<le> unat (num_configurations b) + 1"
proof -
  have "num_configurations b \<noteq> 255" using assms by auto
  moreover have "unat (num_configurations b + 1) \<le> unat (num_configurations b) + 1"
    by (simp add: unat_word_ariths)
  ultimately show ?thesis
    by (auto simp: visit_descriptor_def BasicConfigurationVisitor_def default_visitor_def Let_def)
qed

lemma basic_visit_all:
  "unat (num_configurations b) + length ds < 256 \<Longrightarrow>
     \<exists>b'. visit_all (visit_descriptor tfb BasicConfigurationVisitor) ds b = Ret b' \<and>
       unat (num_configurations b') \<le> unat (num_configurations b) + length ds"
proof (induction ds arbitrary: b)
  case (Cons d ds)
  have "unat (num_configurations b) < 255" using Cons.prems by simp
  then obtain b1 where b1: "visit_descriptor tfb BasicConfigurationVisitor d b = Ret b1"
    "unat (num_configurations b1) \<le> unat (num_configurations b) + 1" using basic_visit by blast
  then obtain b2 where "visit_all (visit_descriptor tfb BasicConfigurationVisitor) ds b1 = Ret b2"
    "unat (num_configurations b2) \<le> unat (num_configurations b1) + length ds"
    using Cons.IH [of b1] Cons.prems by auto
  then show ?case using b1 by (auto intro: exI [of _ b2])
qed simp

lemma basic_parse:
  assumes "length bs \<le> 64"
  shows "\<exists>b. parse_descriptors tfb BasicConfigurationVisitor bs basic_configuration_default = Ret b"
  using basic_visit_all [of basic_configuration_default "split_descriptors bs" tfb]
    split_descriptors_count [of bs] assms
  by (auto simp: parse_descriptors_split basic_configuration_default_def)

text \<open>
  The endpoint descriptors that follow a configuration descriptor with a given value, up to the next
  configuration descriptor; \<open>ok\<close> tells whether the last one seen had that value.
\<close>

fun config_endpoints :: "try_from_bytes \<Rightarrow> u8 \<Rightarrow> bool \<Rightarrow> u8 list list \<Rightarrow> EndpointDescriptor list" where
  "config_endpoints tfb v ok [] = []"
| "config_endpoints tfb v ok (d # ds) =
     (if d ! 1 = CONFIGURATION_DESCRIPTOR \<and> tfb 9 d
      then config_endpoints tfb v (bConfigurationValue (configuration_of_bytes d) = v) ds
      else if d ! 1 = ENDPOINT_DESCRIPTOR \<and> tfb 7 d \<and> ok
      then endpoint_of_bytes d # config_endpoints tfb v ok ds
      else config_endpoints tfb v ok ds)"

definition endpoint_numbers :: "bool \<Rightarrow> EndpointDescriptor list \<Rightarrow> nat set" where
  "endpoint_numbers b es =
     {unat (bEndpointAddress e AND 15) |e. e \<in> set es \<and> (bEndpointAddress e AND 0x80 = 0x80) = b}"

lemma endpoint_numbers_simps [simp]:
  "endpoint_numbers b [] = {}"
  "endpoint_numbers b (e # es) =
     (if (bEndpointAddress e AND 0x80 = 0x80) = b then insert (unat (bEndpointAddress e AND 15)) (endpoint_numbers b es)
      else endpoint_numbers b es)"
  by (auto simp: endpoint_numbers_def)

lemma specific_visit_all:
  "\<exists>b'. visit_all (visit_descriptor tfb SpecificConfigurationVisitor) ds b = Ret b' \<and>
     sc_configuration_value b' = sc_configuration_value b \<and>
     (\<forall>i. bit (sc_in_endpoints b') i \<longleftrightarrow> bit (sc_in_endpoints b) i \<or>
        i \<in> endpoint_numbers True (config_endpoints tfb (sc_configuration_value b) (sc_ok b) ds)) \<and>
     (\<forall>i. bit (sc_out_endpoints b') i \<longleftrightarrow> bit (sc_out_endpoints b) i \<or>
        i \<in> endpoint_numbers False (config_endpoints tfb (sc_configuration_value b) (sc_ok b) ds))"
proof (induction ds arbitrary: b)
  case (Cons d ds)
  note defs = visit_descriptor_def SpecificConfigurationVisitor_def default_visitor_def Let_def
  have low: "unat (x AND 15 :: u8) < 16" for x by (simp add: unat_hub)
  consider (config) "d ! 1 = CONFIGURATION_DESCRIPTOR" "tfb 9 d"
    | (endpoint) "d ! 1 = ENDPOINT_DESCRIPTOR" "tfb 7 d" "sc_ok b"
    | (skip) "\<not> (d ! 1 = CONFIGURATION_DESCRIPTOR \<and> tfb 9 d)" "\<not> (d ! 1 = ENDPOINT_DESCRIPTOR \<and> tfb 7 d \<and> sc_ok b)"
    by blast
  then show ?case
  proof cases
    case config
    let ?b = "b\<lparr>sc_ok := bConfigurationValue (configuration_of_bytes d) = sc_configuration_value b\<rparr>"
    have "visit_descriptor tfb SpecificConfigurationVisitor d b = Ret ?b" using config by (simp add: defs)
    then show ?thesis using Cons.IH [of ?b] config by simp
  next
    case endpoint
    let ?e = "endpoint_of_bytes d"
    let ?n = "one_shl (unat (bEndpointAddress ?e AND 15)) :: u16"
    let ?b = "if bEndpointAddress ?e AND 0x80 = 0x80 then b\<lparr>sc_in_endpoints := sc_in_endpoints b OR ?n\<rparr>
      else b\<lparr>sc_out_endpoints := sc_out_endpoints b OR ?n\<rparr>"
    have ne: "ENDPOINT_DESCRIPTOR \<noteq> CONFIGURATION_DESCRIPTOR" "ENDPOINT_DESCRIPTOR \<noteq> INTERFACE_DESCRIPTOR"
      by (simp_all add: usb_consts)
    have v: "visit_descriptor tfb SpecificConfigurationVisitor d b = Ret ?b"
      using endpoint ne by (simp add: defs)
    have same: "sc_configuration_value ?b = sc_configuration_value b" "sc_ok ?b = sc_ok b" by simp_all
    obtain b' where b': "visit_all (visit_descriptor tfb SpecificConfigurationVisitor) ds ?b = Ret b'"
        "sc_configuration_value b' = sc_configuration_value b"
        "\<And>i. bit (sc_in_endpoints b') i \<longleftrightarrow> bit (sc_in_endpoints ?b) i \<or>
           i \<in> endpoint_numbers True (config_endpoints tfb (sc_configuration_value b) (sc_ok b) ds)"
        "\<And>i. bit (sc_out_endpoints b') i \<longleftrightarrow> bit (sc_out_endpoints ?b) i \<or>
           i \<in> endpoint_numbers False (config_endpoints tfb (sc_configuration_value b) (sc_ok b) ds)"
      using Cons.IH [of ?b] unfolding same by blast
    have ins: "bit (sc_in_endpoints ?b) i \<longleftrightarrow> bit (sc_in_endpoints b) i \<or>
        bEndpointAddress ?e AND 0x80 = 0x80 \<and> i = unat (bEndpointAddress ?e AND 15)"
      and outs: "bit (sc_out_endpoints ?b) i \<longleftrightarrow> bit (sc_out_endpoints b) i \<or>
        bEndpointAddress ?e AND 0x80 \<noteq> 0x80 \<and> i = unat (bEndpointAddress ?e AND 15)" for i
      using low [of "bEndpointAddress ?e"] by (auto simp: word_bits)
    show ?thesis
      using b'(1,2) v ne endpoint by (intro exI [of _ b']) (auto simp: b'(3,4) ins outs)
  next
    case skip
    then have "visit_descriptor tfb SpecificConfigurationVisitor d b = Ret b" by (auto simp: defs)
    then show ?thesis using Cons.IH [of b] skip by auto
  qed
qed simp

lemma specific_parse:
  "\<exists>b. parse_descriptors tfb SpecificConfigurationVisitor bs (specific_configuration_new v) = Ret b \<and>
     (\<forall>i. bit (sc_in_endpoints b) i \<longleftrightarrow>
        i \<in> endpoint_numbers True (config_endpoints tfb v False (split_descriptors bs))) \<and>
     (\<forall>i. bit (sc_out_endpoints b) i \<longleftrightarrow>
        i \<in> endpoint_numbers False (config_endpoints tfb v False (split_descriptors bs)))"
  using specific_visit_all [of tfb "split_descriptors bs" "specific_configuration_new v"]
  by (auto simp: parse_descriptors_split specific_configuration_new_def)

section \<open>Every operation keeps the bus in order\<close>

lemma keepsR_on_driver:
  assumes "keepsR P m Q" and "\<And>s. B s \<Longrightarrow> P (driver s)" and "\<And>s hc. B s \<Longrightarrow> P hc \<Longrightarrow> B (s\<lparr>driver := hc\<rparr>)"
  shows "keepsR B (on_driver m) Q"
proof (unfold keepsR_def safeR_def, intro allI impI)
  fix s assume "B s"
  then obtain hc r where "m (driver s) = Ret (hc, r)" "P hc" "\<forall>x. r = Ok x \<longrightarrow> Q x"
    using assms(1,2) unfolding keepsR_def safeR_def by blast
  then show "\<exists>t r. on_driver m s = Ret (t, r) \<and> B t \<and> (\<forall>x. r = Ok x \<longrightarrow> Q x)"
    using assms(3) \<open>B s\<close> by (auto simp: on_driver_def)
qed

lemma keepsR_for_ports: "(\<And>p. keepsR P (f p) (\<lambda>_. True)) \<Longrightarrow> keepsR P (for_ports f ps) (\<lambda>_. True)"
  by (induction ps) (auto intro: keeps_intros keepsR_bind)

definition bus_inv :: "('hc \<Rightarrow> bool) \<Rightarrow> ('pipe \<Rightarrow> bool) \<Rightarrow> ('hc, 'pipe) BusState \<Rightarrow> bool" where
  "bus_inv hinv pinv s \<longleftrightarrow> hinv (driver s) \<and> topo_ok (topology s) \<and> length (pipes s) = 15 \<and>
     (\<forall>p. Some p \<in> set (pipes s) \<longrightarrow> pinv p)"

text \<open>The same, with a hub at address \<open>hub\<close> that is part of the topology.\<close>

definition bus_inv_at :: "('hc \<Rightarrow> bool) \<Rightarrow> ('pipe \<Rightarrow> bool) \<Rightarrow> u8 \<Rightarrow> ('hc, 'pipe) BusState \<Rightarrow> bool" where
  "bus_inv_at hinv pinv hub s \<longleftrightarrow> bus_inv hinv pinv s \<and> is_present (topology s) hub"

context usb_driver
begin

lemma get_configuration_keeps:
  assumes ps: "ps_ok (unc_packet_size_ep0 device)"
    and "\<And>bs. length bs \<le> 64 \<Longrightarrow> \<exists>v'. parse_descriptors tfb V bs v = Ret v' \<and> Q v'"
  shows "keepsR hinv (get_configuration tfb H device V v) Q"
  unfolding get_configuration_def
proof (rule keepsR_bind [OF control_in_keeps [OF ps]])
  fix x :: "usize \<times> u8 list"
  assume "case x of (n, b) \<Rightarrow> n \<le> length b \<and> length b = length (replicate 64 (0 :: u8))"
  then obtain n b where x: "x = (n, b)" "n \<le> length b" "length b = 64" by auto
  then obtain v' where "parse_descriptors tfb V (take n b) v = Ret v'" "Q v'"
    using assms(2) [of "take n b"] by auto
  then show "keepsR hinv (case x of (sz, buf) \<Rightarrow>
      liftO (obind (slice buf 0 sz) (\<lambda>b. parse_descriptors tfb V b v))) Q"
    using x by (auto intro: keepsR_liftO)
qed

lemma get_basic_configuration_keeps:
  assumes "ps_ok (unc_packet_size_ep0 device)"
  shows "keepsR hinv (get_basic_configuration tfb H device)
     (\<lambda>bc. num_configurations bc \<noteq> 0 \<and> bc_configuration_value bc \<noteq> 0)"
  unfolding get_basic_configuration_def
proof (rule keepsR_bind)
  show "keepsR hinv (get_configuration tfb H device BasicConfigurationVisitor basic_configuration_default) (\<lambda>_. True)"
    by (rule get_configuration_keeps [OF assms]) (simp add: basic_parse)
qed (auto intro: keeps_intros)

lemma configure_keeps:
  assumes "ps_ok (unc_packet_size_ep0 device)"
  shows "keepsR hinv (configure tfb H device v)
    (\<lambda>d. ud_usb_address d = unc_usb_address device \<and> ps_ok (ud_packet_size_ep0 d))"
  unfolding configure_def
proof (rule keepsR_bind [OF control_none_keeps [OF assms]], rule keepsR_bind)
  show "keepsR hinv (get_configuration tfb H device SpecificConfigurationVisitor (specific_configuration_new v))
      (\<lambda>_. True)"
    by (rule get_configuration_keeps [OF assms]) (use specific_parse in blast)
qed (use assms in \<open>auto intro: keeps_intros\<close>)

end

context usb_host
begin

lemma new_device_keeps: "keepsR hinv (new_device H speed) (\<lambda>(d, i). ps_ok (una_packet_size_ep0 d))"
  unfolding new_device_def Let_def
  by (rule keepsR_bind [OF control_in_descriptor_keeps]; simp split: prod.splits)
    (auto intro!: keeps_intros keepsR_bind [OF control_in_keeps])

lemma set_address_keeps:
  "ps_ok (una_packet_size_ep0 device) \<Longrightarrow>
     keepsR hinv (set_address H device a) (\<lambda>d. unc_usb_address d = a \<and> ps_ok (unc_packet_size_ep0 d))"
  unfolding set_address_def by (auto intro!: keeps_intros keepsR_bind [OF control_none_keeps])

lemma port_feature_keeps:
  "keepsR hinv (set_port_feature H hub port f) (\<lambda>_. True)"
  "keepsR hinv (clear_port_feature H hub port f) (\<lambda>_. True)"
  unfolding set_port_feature_def clear_port_feature_def
  by (auto intro!: keeps_intros keepsR_bind [OF control_none_keeps] ps_ok_8)

lemma get_hub_port_status_keeps: "keepsR hinv (get_hub_port_status H hub port) (\<lambda>_. True)"
  unfolding get_hub_port_status_def
  by (rule keepsR_bind [OF control_in_keeps [OF ps_ok_8]]) (auto intro!: keeps_intros split: prod.splits)

lemma reset_root_keeps: "keepsR hinv (reset_root H) (\<lambda>_. True)"
  unfolding reset_root_def by (rule keepsR_act) (simp add: reset_ok)

lemma bus_inv_driver:
  "bus_inv hinv pinv s \<Longrightarrow> hinv (driver s)" "bus_inv hinv pinv s \<Longrightarrow> hinv hc \<Longrightarrow> bus_inv hinv pinv (s\<lparr>driver := hc\<rparr>)"
  "bus_inv_at hinv pinv hub s \<Longrightarrow> hinv (driver s)"
  "bus_inv_at hinv pinv hub s \<Longrightarrow> hinv hc \<Longrightarrow> bus_inv_at hinv pinv hub (s\<lparr>driver := hc\<rparr>)"
  by (simp_all add: bus_inv_def bus_inv_at_def)

lemma on_driver_keeps:
  assumes "keepsR hinv m Q"
  shows "keepsR (bus_inv hinv pinv) (on_driver m) Q" and "keepsR (bus_inv_at hinv pinv hub) (on_driver m) Q"
  by (rule keepsR_on_driver [OF assms]; erule bus_inv_driver; assumption?)+

lemma try_add_keeps: "keepsR (bus_inv hinv pinv) (try_add H a e mp i) (\<lambda>_. True)"
proof (unfold keepsR_def safeR_def, intro allI impI)
  fix s :: "('hc, 'pipe) BusState" assume inv: "bus_inv hinv pinv s"
  then obtain hc r where "hc_try_alloc_interrupt_pipe H a e (ucast mp) i (driver s) = Ret (hc, r)" "hinv hc"
      "\<forall>p. r = Ok p \<longrightarrow> pinv p"
    using try_alloc_ok bus_inv_driver(1) by blast
  then show "\<exists>t r. try_add H a e mp i s = Ret (t, r) \<and> bus_inv hinv pinv t \<and> (\<forall>x. r = Ok x \<longrightarrow> True)"
    using inv by (cases r) (auto simp: try_add_def bus_inv_def split: option.splits dest!: set_update_subset_insert [THEN subsetD])
qed

lemma new_hub_keeps:
  assumes "ps_ok (unc_packet_size_ep0 device)"
  shows "keepsR (bus_inv hinv pinv) (new_hub tfb H device) (\<lambda>_. True)"
  unfolding new_hub_def
  apply (rule keepsR_bind [OF on_driver_keeps(1) [OF get_basic_configuration_keeps [OF assms]]])
  apply (rule keepsR_bind [OF on_driver_keeps(1) [OF configure_keeps [OF assms]]])
  apply (rule keepsR_bind [OF try_add_keeps])
  apply (rule keepsR_bind [OF on_driver_keeps(1) [OF control_in_keeps]], simp)
  apply (auto intro!: keeps_intros keepsR_bind [OF keepsR_for_ports]
      on_driver_keeps(1) port_feature_keeps split: prod.splits)
  done

lemma connect_hub_device_safe:
  assumes "ps_ok (una_packet_size_ep0 device)"
  shows "safeR (bus_inv_at hinv pinv hub) (connect_hub_device tfb H hub port device info) (\<lambda>s r. bus_inv hinv pinv s)"
  unfolding connect_hub_device_def Let_def
proof (rule safeR_bind)
  let ?hub = "di_class info = HUB_CLASSCODE"
  let ?act = "actR (\<lambda>s. case device_connect (topology s) hub port ?hub of (t, r) \<Rightarrow> (s\<lparr>topology := t\<rparr>, r))
    :: (('hc, 'pipe) BusState, UsbError, u8 option) prog"
  show "safeR (bus_inv_at hinv pinv hub) ?act (\<lambda>t r. case r of Inl e \<Rightarrow> bus_inv hinv pinv t | Inr x \<Rightarrow> bus_inv hinv pinv t)"
  proof (unfold safeR_def, intro allI impI)
    fix s :: "('hc, 'pipe) BusState" assume at: "bus_inv_at hinv pinv hub s"
    obtain t r where c: "device_connect (topology s) hub port ?hub = (t, r)" by fastforce
    have "topo_ok t" using device_connect_at_hub_ok [OF _ _ c] at by (simp add: bus_inv_at_def bus_inv_def)
    then show "\<exists>t r. ?act s = Ret (t, r) \<and> (case r of Inl e \<Rightarrow> bus_inv hinv pinv t | Inr x \<Rightarrow> bus_inv hinv pinv t)"
      using c at by (auto simp: actR_def bus_inv_at_def bus_inv_def)
  qed
  show "safeR (bus_inv hinv pinv) (case r of
        None \<Rightarrow> throwR TooManyDevices
      | Some a \<Rightarrow>
          bindR (on_driver (set_address H device a)) (\<lambda>device.
          if ?hub then bindR (new_hub tfb H device) (\<lambda>d. returnR (HubConnect d))
          else returnR (Connect device info))) (\<lambda>s r. bus_inv hinv pinv s)" for r
    by (rule safeR_keep [where Q = "\<lambda>_. True"])
      (auto intro!: keeps_intros keepsR_bind [OF on_driver_keeps(1) [OF set_address_keeps [OF assms]]]
        keepsR_bind [OF new_hub_keeps] split: option.splits)
qed

lemma disconnect_hub_port_safe:
  "safeR (bus_inv_at hinv pinv hub)
     (disconnect_hub_port hub port :: (('hc, 'pipe) BusState, UsbError, DeviceEvent) prog) (\<lambda>s r. bus_inv hinv pinv s)"
proof (unfold safeR_def, intro allI impI)
  fix s :: "('hc, 'pipe) BusState" assume at: "bus_inv_at hinv pinv hub s"
  obtain t gone where "device_disconnect (topology s) hub port = (t, gone)" by fastforce
  then show "\<exists>t r. (disconnect_hub_port hub port :: (('hc, 'pipe) BusState, UsbError, DeviceEvent) prog) s =
      Ret (t, r) \<and> bus_inv hinv pinv t"
    using at device_disconnect_ok by (auto simp: disconnect_hub_port_def actR_def bus_inv_at_def bus_inv_def)
qed

lemma hub_bind:
  assumes "keepsR hinv m Q" and "\<And>x. Q x \<Longrightarrow> safeR (bus_inv_at hinv pinv hub) (f x) (\<lambda>s r. bus_inv hinv pinv s)"
  shows "safeR (bus_inv_at hinv pinv hub) (bindR (on_driver m) f) (\<lambda>s r. bus_inv hinv pinv s)"
  by (rule safeR_keep_bind [OF on_driver_keeps(2) [OF assms(1)] assms(2)])
    (simp_all add: bus_inv_at_def)

lemma handle_hub_ports_safe:
  "safeR (bus_inv_at hinv pinv hub) (handle_hub_ports tfb H hub ports) (\<lambda>s r. bus_inv hinv pinv s)"
proof (induction ports)
  case Nil
  show ?case by (simp add: safeR_def bus_inv_at_def)
next
  case (Cons port ports)
  have clear: "safeR (bus_inv_at hinv pinv hub)
      (bindR (if b then on_driver (clear_port_feature H hub port f) else returnR ()) k) (\<lambda>s r. bus_inv hinv pinv s)"
    if "safeR (bus_inv_at hinv pinv hub) (k ()) (\<lambda>s r. bus_inv hinv pinv s)" for b f k
    using that by (auto intro: hub_bind [OF port_feature_keeps(2)])
  show ?case
    unfolding handle_hub_ports.simps Let_def
    by (intro hub_bind [OF get_hub_port_status_keeps] hub_bind [OF port_feature_keeps(1)]
        hub_bind [OF new_device_keeps] safeR_prod safeR_if clear Cons.IH
        disconnect_hub_port_safe connect_hub_device_safe) simp
qed

lemma handle_hub_packet_safe:
  "safeR (bus_inv_at hinv pinv (ip_address packet)) (handle_hub_packet tfb H packet) (\<lambda>s r. bus_inv hinv pinv s)"
  unfolding handle_hub_packet_def
  by (intro safeR_if handle_hub_ports_safe safeR_throw) (simp add: bus_inv_at_def)

lemma root_event_safe: "keepsR (bus_inv hinv pinv) (device_event tfb H (Root status)) (\<lambda>_. True)"
proof (cases status)
  case (Present speed)
  have connect: "keepsR (bus_inv hinv pinv) (actR (\<lambda>s. case device_connect (topology s) 0 1 b of
      (t, r) \<Rightarrow> (s\<lparr>topology := t\<rparr>, r)) :: (('hc, 'pipe) BusState, unit, u8 option) prog)
      (\<lambda>r. \<exists>a. r = Some a)" for b
  proof (rule keepsR_act)
    fix s :: "('hc, 'pipe) BusState" assume inv: "bus_inv hinv pinv s"
    then obtain t n where c: "device_connect (topology s) 0 1 b = (t, Some n)"
      using root_connect_succeeds unfolding bus_inv_def by blast
    moreover have "topo_ok t" using device_connect_ok(1) [OF _ _ _ _ _ c] inv by (simp add: bus_inv_def)
    ultimately show "bus_inv hinv pinv (fst (case device_connect (topology s) 0 1 b of
          (t, r) \<Rightarrow> (s\<lparr>topology := t\<rparr>, r))) \<and>
        (\<exists>a. snd (case device_connect (topology s) 0 1 b of (t, r) \<Rightarrow> (s\<lparr>topology := t\<rparr>, r)) = Some a)"
      using inv by (simp add: bus_inv_def)
  qed
  show ?thesis
    unfolding device_event_def Present DeviceStatus.case InternalEvent.case
    apply (rule keepsR_bind [OF on_driver_keeps(1) [OF reset_root_keeps]])
    apply (rule keepsR_try [OF on_driver_keeps(1) [OF new_device_keeps]])
     apply (auto intro!: keeps_intros) [1]
    apply (clarsimp simp: Let_def split del: if_split)
    apply (rule keepsR_bind [OF connect])
    apply (clarsimp split del: if_split)
    apply (rule keepsR_try [OF on_driver_keeps(1) [OF set_address_keeps]], assumption)
     apply (auto intro!: keeps_intros keepsR_try [OF new_hub_keeps])
    done
next
  case Absent
  have "bus_inv hinv pinv (s\<lparr>topology := fst (device_disconnect (topology s) 0 1)\<rparr>)"
    if "bus_inv hinv pinv s" for s :: "('hc, 'pipe) BusState"
    using that device_disconnect_ok [of "topology s" 0 1] by (simp add: bus_inv_def prod_eq_iff)
  then show ?thesis by (auto simp: device_event_def Absent intro!: keepsR_act)
qed

lemma packet_event_safe:
  "safeR (bus_inv_at hinv pinv (ip_address packet)) (device_event tfb H (Packet packet)) (\<lambda>s r. bus_inv hinv pinv s)"
  unfolding device_event_def InternalEvent.case
  by (rule safeR_try [OF handle_hub_packet_safe]) (auto simp: safeR_def split: sum.splits)

end

lemma bit_all_ones_u32: "i < 32 \<Longrightarrow> bit (0xFFFFFFFF :: u32) i"
proof -
  assume "i < 32"
  moreover have "(0xFFFFFFFF :: u32) = mask 32" by (simp add: mask_eq_exp_minus_1)
  ultimately show ?thesis by (simp only: bit_mask_iff) simp
qed

lemma bit_ucast_u16 [simp]: "bit (ucast (w :: u16) :: u32) i \<longleftrightarrow> bit w i"
  using bit_imp_le_length [of w i] by (auto simp: bit_simps)

section \<open>A scripted controller\<close>

text \<open>
  A controller that answers each control transfer with the next entry of a script; it serves to run
  the bus on concrete devices.
\<close>

type_synonym script = "(UsbError, u8 list) result list"

definition scripted_control ::
    "u8 \<Rightarrow> u8 \<Rightarrow> SetupPacket \<Rightarrow> DataPhase \<Rightarrow> script \<Rightarrow> (script \<times> (UsbError, usize) result \<times> DataPhase) outcome"
  where
  "scripted_control a ps pkt d sc =
     (case sc of
        [] \<Rightarrow> Ret ([], Err Timeout, d)
      | Inl e # sc' \<Rightarrow> Ret (sc', Err e, d)
      | Inr bs # sc' \<Rightarrow>
          (case d of
             DataIn buf \<Rightarrow> (let n = min (length bs) (length buf) in
               Ret (sc', Ok n, DataIn (overwrite buf 0 (take n bs))))
           | _ \<Rightarrow> Ret (sc', Ok 0, d)))"

definition scripted_host :: "(script, unit) HostController" where
  "scripted_host = \<lparr>
     hc_reset_root_port = \<lambda>b sc. sc,
     hc_control_transfer = scripted_control,
     hc_bulk_in_transfer = \<lambda>a e mp buf ty tog sc. Ret (sc, Err Timeout, buf, tog),
     hc_bulk_out_transfer = \<lambda>a e mp buf ty tog sc. Ret (sc, Err Timeout, tog),
     hc_alloc_interrupt_pipe = \<lambda>a e mp i sc. Ret (sc, Some ()),
     hc_try_alloc_interrupt_pipe = \<lambda>a e mp i sc. Ret (sc, Ok ()),
     hc_poll_pipe = \<lambda>p sc. Ret (sc, p, None)\<rparr>"

interpretation scripted: usb_host scripted_host "\<lambda>_. True" "\<lambda>_. True" "\<lambda>_. True"
proof
  fix a ps pkt d s
  show "\<exists>s' r d'. hc_control_transfer scripted_host a ps pkt d s = Ret (s', r, d') \<and> True \<and> dataphase_fits d r d'"
    by (cases d) (auto simp: scripted_host_def scripted_control_def Let_def split: list.splits sum.splits)
qed (simp_all add: scripted_host_def reports_packet_size_def)

section \<open>Properties\<close>


definition stick_script :: script where
  "stick_script =
     [Ok [], Ok [9, 2, 32, 0, 1, 1, 0, 0x80, 50, 9, 4, 0, 0, 2, 8, 6, 0x50, 0,
                 7, 5, 0x81, 2, 64, 0, 0, 7, 5, 0x02, 2, 64, 0, 0]]"


text \<open>Opening an endpoint consumes it: it succeeds exactly for a number between 1 and 15 that the
device still has, starts with a clear data toggle, and afterwards that endpoint and no other is gone,
so that opening it again fails.\<close>

theorem open_endpoint_consumes:
  "case open_in_endpoint d ep of (d', r) \<Rightarrow>
     ((\<exists>b. r = Ok b) \<longleftrightarrow> 0 < unat ep \<and> unat ep < 16 \<and> unat ep \<in> members (in_endpoints d)) \<and>
     (\<forall>b. r = Ok b \<longrightarrow> bi_endpoint b = ep \<and> bi_usb_address b = ud_usb_address d \<and> \<not> bi_data_toggle b \<and>
        members (in_endpoints d') = members (in_endpoints d) - {unat ep} \<and>
        out_endpoints d' = out_endpoints d \<and> snd (open_in_endpoint d' ep) = Err NoSuchEndpoint)"
proof -
  have "in_endpoints_bitmap d AND one_shl (unat ep) \<noteq> 0 \<longleftrightarrow> unat ep \<in> members (in_endpoints d)" if "unat ep < 16"
    using that by (simp add: and_one_shl_nonzero_iff in_endpoints_def)
  moreover have "(in_endpoints_bitmap d AND NOT (one_shl (unat ep))) AND one_shl (unat ep) = 0"
    by (simp add: word_eq_0_iff_bits bit_and_iff bit_not_iff bit_one_shl)
  ultimately show ?thesis
    by (auto simp: open_in_endpoint_def word_less_nat_alt in_endpoints_def out_endpoints_def
        word_bits)
qed

theorem open_endpoint_consumes_witness:
  "(\<exists>b. snd (open_in_endpoint (create_test_device 2 0) 1) = Ok b) \<and>
   snd (open_in_endpoint (fst (open_in_endpoint (create_test_device 2 0) 1)) 1) = Err NoSuchEndpoint"
proof -
  have "1 \<in> members (in_endpoints (create_test_device 2 0))"
    by (simp add: in_endpoints_def create_test_device_def)
  then show ?thesis
    using open_endpoint_consumes [where d = "create_test_device 2 0" and ep = 1] by (auto split: prod.splits)
qed

end
