(* ===== verification/Usb_Events.thy ===== *)
theory Usb_Events
  imports Usb_Bus
begin

text \<open>
  The streams of \<open>cotton-usb-host/src/usb_bus.rs\<close>: \<open>device_events\<close> merges the changes at the root port
  with the packets of the hubs' interrupt pipes and handles them one after the other. A run of the bus
  interleaves root events, polls of the pipes and anything the hardware or other users of the bus do to
  the driver in between, in any order. The theory shows that no run panics, and counts what hubs use up.
\<close>

section \<open>Runs\<close>

text \<open>
  \<open>bus_run tfb H hinv s evs\<close>: the bus can be in state \<open>s\<close> after its stream has yielded the events \<open>evs\<close>.
  Between two polls the driver may come to any state with the invariant. A packet comes from a device
  that is attached.
\<close>

inductive bus_run ::
    "try_from_bytes \<Rightarrow> ('hc, 'pipe) HostController \<Rightarrow> ('hc \<Rightarrow> bool) \<Rightarrow> ('hc, 'pipe) BusState \<Rightarrow> DeviceEvent list \<Rightarrow> bool"
  for tfb H hinv where
  run_start: "hinv hc \<Longrightarrow> bus_run tfb H hinv (hub_state_default hc) []"
| run_outside: "bus_run tfb H hinv s evs \<Longrightarrow> hinv hc \<Longrightarrow> bus_run tfb H hinv (s\<lparr>driver := hc\<rparr>) evs"
| run_pending: "bus_run tfb H hinv s evs \<Longrightarrow> hub_state_poll_next H s = Ret (s', None) \<Longrightarrow> bus_run tfb H hinv s' evs"
| run_root: "bus_run tfb H hinv s evs \<Longrightarrow> device_event tfb H (Root status) s = Ret (s', Ok ev) \<Longrightarrow>
    bus_run tfb H hinv s' (evs @ [ev])"
| run_packet: "bus_run tfb H hinv s evs \<Longrightarrow> hub_state_poll_next H s = Ret (t, Some pkt) \<Longrightarrow>
    is_present (topology t) (ip_address pkt) \<Longrightarrow> device_event tfb H (Packet pkt) t = Ret (s', Ok ev) \<Longrightarrow>
    bus_run tfb H hinv s' (evs @ [ev])"

section \<open>Runs do not panic\<close>

context usb_driver
begin

lemma poll_pipes_safe:
  assumes "hinv hc" and "\<forall>p. Some p \<in> set ps \<longrightarrow> pinv p"
  shows "\<exists>hc' ps' m. poll_pipes H ps hc = Ret (hc', ps', m) \<and> hinv hc' \<and> length ps' = length ps \<and>
    (\<forall>p. Some p \<in> set ps' \<longrightarrow> pinv p) \<and> map (\<lambda>p. p = None) ps' = map (\<lambda>p. p = None) ps \<and>
    (\<forall>pkt. m = Some pkt \<longrightarrow> interrupt_packet_deref pkt \<noteq> Panic)"
  using assms
proof (induction ps arbitrary: hc)
  case Nil
  then show ?case by simp
next
  case (Cons q ps)
  show ?case
  proof (cases q)
    case None
    then show ?thesis using Cons.IH [of hc] Cons.prems by auto
  next
    case (Some p)
    then obtain hc1 p1 m1 where 1: "hc_poll_pipe H p hc = Ret (hc1, p1, m1)" "hinv hc1" "pinv p1"
      "\<forall>pkt. m1 = Some pkt \<longrightarrow> interrupt_packet_deref pkt \<noteq> Panic"
      using poll_ok [of hc p] Cons.prems by auto
    show ?thesis
    proof (cases m1)
      case None
      then show ?thesis using 1 Some Cons.IH [OF 1(2)] Cons.prems(2) by auto
    next
      case pkt: (Some pkt)
      then show ?thesis using 1 Some Cons.prems(2) by auto
    qed
  qed
qed

lemma hub_poll_safe:
  assumes "bus_inv hinv pinv s"
  shows "\<exists>t m. hub_state_poll_next H s = Ret (t, m) \<and> bus_inv hinv pinv t \<and> topology t = topology s \<and>
    map (\<lambda>p. p = None) (pipes t) = map (\<lambda>p. p = None) (pipes s) \<and>
    (\<forall>pkt. m = Some pkt \<longrightarrow> interrupt_packet_deref pkt \<noteq> Panic)"
  using poll_pipes_safe [of "driver s" "pipes s"] assms by (auto simp: bus_inv_def hub_state_poll_next_def)

text \<open>A stream of interrupt packets can be polled, whatever state it is in.\<close>

lemma interrupt_stream_safe:
  assumes "hinv hc" and "\<forall>p. st = Streaming p \<longrightarrow> pinv p"
  shows "\<exists>hc' st' m. interrupt_stream_poll H st hc = Ret (hc', st', m) \<and> hinv hc' \<and>
    (\<forall>p. st' = Streaming p \<longrightarrow> pinv p) \<and> (\<forall>pkt. m = Some pkt \<longrightarrow> interrupt_packet_deref pkt \<noteq> Panic)"
proof -
  have stream: "\<exists>hc' st' m. stream_pipe H p t = Ret (hc', st', m) \<and> hinv hc' \<and> (\<forall>p. st' = Streaming p \<longrightarrow> pinv p) \<and>
      (\<forall>pkt. m = Some pkt \<longrightarrow> interrupt_packet_deref pkt \<noteq> Panic)" if "hinv t" "pinv p" for t p
    using poll_ok [OF that] by (auto simp: stream_pipe_def)
  show ?thesis
  proof (cases st)
    case (Allocating a e mp i)
    obtain hc' m where "hc_alloc_interrupt_pipe H a e mp i hc = Ret (hc', m)" "hinv hc'" "\<forall>p. m = Some p \<longrightarrow> pinv p"
      using alloc_ok [OF assms(1)] by blast
    then show ?thesis using Allocating stream by (cases m) (simp_all add: interrupt_stream_poll_def)
  next
    case (Streaming p)
    then show ?thesis using stream assms by (simp add: interrupt_stream_poll_def)
  qed
qed

end

context usb_host
begin

lemma packet_event_at:
  assumes "bus_inv hinv pinv s" and "is_present (topology s) (ip_address pkt)"
  shows "\<exists>s' r. device_event tfb H (Packet pkt) s = Ret (s', r) \<and> bus_inv hinv pinv s'"
  using packet_event_safe [of pkt tfb] assms unfolding safeR_def bus_inv_at_def by blast

lemma root_event_at:
  assumes "bus_inv hinv pinv s"
  shows "\<exists>s' r. device_event tfb H (Root status) s = Ret (s', r) \<and> bus_inv hinv pinv s'"
  using root_event_safe [of tfb status] assms unfolding keepsR_def safeR_def by blast

lemma bus_run_inv: "bus_run tfb H hinv s evs \<Longrightarrow> bus_inv hinv pinv s"
proof (induction rule: bus_run.induct)
  case (run_start hc)
  then show ?case by (simp add: bus_inv_def hub_state_default_def topo_ok_new)
next
  case (run_outside s evs hc)
  then show ?case by (simp add: bus_inv_def)
next
  case (run_pending s evs s')
  then show ?case using hub_poll_safe [of s] by auto
next
  case (run_root s evs status s' ev)
  then show ?case using root_event_at [of s tfb status] by auto
next
  case (run_packet s evs t pkt s' ev)
  then have "bus_inv hinv pinv t" using hub_poll_safe [of s] by auto
  then show ?case using packet_event_at [of t pkt tfb] run_packet.hyps(3,4) by auto
qed

text \<open>What can happen next at any moment of a run: every step of the stream returns.\<close>

lemma bus_run_progress:
  assumes "bus_run tfb H hinv s evs"
  shows "\<exists>s' r. device_event tfb H (Root status) s = Ret (s', r) \<and> bus_inv hinv pinv s'"
    and "\<exists>t m. hub_state_poll_next H s = Ret (t, m) \<and> bus_inv hinv pinv t \<and>
      (\<forall>pkt. m = Some pkt \<longrightarrow> interrupt_packet_deref pkt \<noteq> Panic \<and>
        (is_present (topology s) (ip_address pkt) \<longrightarrow>
           (\<exists>s' r. device_event tfb H (Packet pkt) t = Ret (s', r) \<and> bus_inv hinv pinv s')))"
proof -
  note inv = bus_run_inv [OF assms]
  show "\<exists>s' r. device_event tfb H (Root status) s = Ret (s', r) \<and> bus_inv hinv pinv s'"
    by (rule root_event_at [OF inv])
  obtain t m where t: "hub_state_poll_next H s = Ret (t, m)" "bus_inv hinv pinv t" "topology t = topology s"
    "\<forall>pkt. m = Some pkt \<longrightarrow> interrupt_packet_deref pkt \<noteq> Panic"
    using hub_poll_safe [OF inv] by blast
  show "\<exists>t m. hub_state_poll_next H s = Ret (t, m) \<and> bus_inv hinv pinv t \<and>
      (\<forall>pkt. m = Some pkt \<longrightarrow> interrupt_packet_deref pkt \<noteq> Panic \<and>
        (is_present (topology s) (ip_address pkt) \<longrightarrow>
           (\<exists>s' r. device_event tfb H (Packet pkt) t = Ret (s', r) \<and> bus_inv hinv pinv s')))"
    using t packet_event_at [OF t(2), of _ tfb] by auto
qed

end

section \<open>What hubs use up\<close>

text \<open>The interrupt pipes that the hubs hold.\<close>

definition pipes_used :: "('hc, 'pipe) BusState \<Rightarrow> nat" where
  "pipes_used s = length (filter (\<lambda>p. p \<noteq> None) (pipes s))"

text \<open>
  \<open>gains f m\<close>: the program \<open>m\<close> adds at least \<open>f r\<close> pipes to the ones in use when its result is \<open>r\<close>, and
  never gives one back.
\<close>

definition gains :: "(('e, 'a) result \<Rightarrow> nat) \<Rightarrow> (('hc, 'pipe) BusState, 'e, 'a) prog \<Rightarrow> bool" where
  "gains f m \<longleftrightarrow> (\<forall>s t r. m s = Ret (t, r) \<longrightarrow> pipes_used s + f r \<le> pipes_used t \<and> length (pipes t) = length (pipes s))"

named_theorems gains_intros \<open>rules for programs that take interrupt pipes\<close>

lemma gains_bind:
  assumes "gains g m" and "\<And>x. gains (\<lambda>r. f r - g (Ok x)) (k x)" and "\<And>e. f (Err e) \<le> g (Err e)"
  shows "gains f (bindR m k)"
proof (unfold gains_def, intro allI impI)
  fix s t r assume "bindR m k s = Ret (t, r)"
  then consider e where "m s = Ret (t, Err e)" "r = Err e" | s1 x where "m s = Ret (s1, Ok x)" "k x s1 = Ret (t, r)"
    by (auto simp: bindR_def split: outcome.splits prod.splits sum.splits)
  then show "pipes_used s + f r \<le> pipes_used t \<and> length (pipes t) = length (pipes s)"
  proof cases
    case (1 e)
    have "pipes_used s + g (Err e) \<le> pipes_used t" "length (pipes t) = length (pipes s)"
      using assms(1) 1 unfolding gains_def by blast+
    then show ?thesis using assms(3) [of e] 1(2) by simp
  next
    case (2 s1 x)
    have "pipes_used s + g (Ok x) \<le> pipes_used s1" "length (pipes s1) = length (pipes s)"
      using assms(1) 2(1) unfolding gains_def by blast+
    moreover have "pipes_used s1 + (f r - g (Ok x)) \<le> pipes_used t" "length (pipes t) = length (pipes s1)"
      using assms(2) [of x] 2(2) unfolding gains_def by blast+
    ultimately show ?thesis by simp
  qed
qed

lemma gains_try:
  assumes "gains g m" and "\<And>r. gains (\<lambda>q. f q - g r) (k r)"
  shows "gains f (tryR m k)"
proof (unfold gains_def, intro allI impI)
  fix s t q assume "tryR m k s = Ret (t, q)"
  then obtain s1 r where "m s = Ret (s1, r)" "k r s1 = Ret (t, q)" by (auto simp: tryR_Ret_iff)
  then have "pipes_used s + g r \<le> pipes_used s1 \<and> length (pipes s1) = length (pipes s)"
    "pipes_used s1 + (f q - g r) \<le> pipes_used t \<and> length (pipes t) = length (pipes s1)"
    using assms unfolding gains_def by blast+
  then show "pipes_used s + f q \<le> pipes_used t \<and> length (pipes t) = length (pipes s)" by arith
qed

lemma gains_return [gains_intros]: "f (Ok x) = 0 \<Longrightarrow> gains f (returnR x)"
  by (simp add: gains_def)

lemma gains_throw [gains_intros]: "f (Err e) = 0 \<Longrightarrow> gains f (throwR e)"
  by (simp add: gains_def)

lemma gains_panic [gains_intros]: "gains f panicR"
  by (simp add: gains_def)

lemma gains_if [gains_intros]: "(b \<Longrightarrow> gains f m) \<Longrightarrow> (\<not> b \<Longrightarrow> gains f n) \<Longrightarrow> gains f (if b then m else n)"
  by simp

lemma gains_on_driver [gains_intros]: "gains (\<lambda>_. 0) (on_driver m)"
  by (auto simp: gains_def on_driver_def pipes_used_def split: outcome.splits prod.splits)

lemma gains_topology:
  fixes f :: "('e, 'a) result \<Rightarrow> nat"
  assumes "\<And>s. pipes (fst (g s)) = pipes s" and "\<And>x. f (Ok x) = 0"
  shows "gains f (actR g)"
proof (unfold gains_def, intro allI impI)
  fix s t and r :: "('e, 'a) result" assume "actR g s = Ret (t, r)"
  then obtain x where "g s = (t, x)" "r = Ok x" by (auto simp: actR_def split: prod.splits)
  then show "pipes_used s + f r \<le> pipes_used t \<and> length (pipes t) = length (pipes s)"
    using assms(1) [of s] assms(2) by (simp add: pipes_used_def)
qed

text \<open>A bind on a step that takes no pipes.\<close>

lemmas gains_step = gains_bind [where g = "\<lambda>_. 0", simplified]
lemmas gains_match = gains_try [where g = "\<lambda>_. 0", simplified]

lemma gains_for_ports [gains_intros]: "gains (\<lambda>_. 0) (for_ports (\<lambda>p. on_driver (m p)) ps)"
proof (induction ps)
  case (Cons p ps)
  show ?case unfolding for_ports.simps by (rule gains_step [OF gains_on_driver Cons.IH]) simp
qed (simp add: gains_def)

definition hub_taken :: "('e, 'a) result \<Rightarrow> nat" where
  "hub_taken r = (case r of Inl _ \<Rightarrow> 0 | Inr _ \<Rightarrow> 1)"

lemma hub_taken_simps [simp]: "hub_taken (Err e) = 0" "hub_taken (Ok x) = 1"
  by (simp_all add: hub_taken_def)

lemma pipes_used_update:
  assumes "i < length ps" and "ps ! i = None"
  shows "length (filter (\<lambda>p. p \<noteq> None) (ps[i := Some q])) = Suc (length (filter (\<lambda>p. p \<noteq> None) ps))"
  using assms by (induction ps arbitrary: i) (auto simp: nth_Cons split: nat.splits)

lemma gains_try_add: "gains hub_taken (try_add H a e mp i)"
proof (unfold gains_def, intro allI impI)
  fix s t r assume run: "try_add H a e mp i s = Ret (t, r)"
  show "pipes_used s + hub_taken r \<le> pipes_used t \<and> length (pipes t) = length (pipes s)"
  proof (cases "find (\<lambda>i. pipes s ! i = None) [0..<length (pipes s)]")
    case None
    then show ?thesis using run by (auto simp: try_add_def)
  next
    case (Some n)
    then have "n < length (pipes s)" "pipes s ! n = None" by (auto simp: find_Some_iff)
    then show ?thesis
      using run Some pipes_used_update [of n "pipes s"]
      by (auto simp: try_add_def pipes_used_def split: outcome.splits prod.splits sum.splits)
  qed
qed

lemma gains_new_hub: "gains hub_taken (new_hub tfb H device)"
proof -
  have rest: "gains (\<lambda>r. hub_taken r - Suc 0) (m :: (('hc, 'pipe) BusState, UsbError, UsbDevice) prog)"
    if "gains (\<lambda>_. 0) m" for m
    using that unfolding gains_def by (auto simp: hub_taken_def split: sum.splits)
  show ?thesis
    unfolding new_hub_def
    by (rule gains_step [OF gains_on_driver], rule gains_step [OF gains_on_driver],
        rule gains_bind [OF gains_try_add])
      (auto intro!: rest gains_intros gains_step split: prod.splits)
qed

text \<open>The hubs that are reported as connected.\<close>

definition hub_event :: "DeviceEvent \<Rightarrow> nat" where
  "hub_event ev = (case ev of HubConnect _ \<Rightarrow> 1 | _ \<Rightarrow> 0)"

definition hub_connects :: "('e, DeviceEvent) result \<Rightarrow> nat" where
  "hub_connects r = (case r of Inl _ \<Rightarrow> 0 | Inr ev \<Rightarrow> hub_event ev)"

lemma hub_connects_simps [simp]:
  "hub_connects (Err e) = 0" "hub_connects (Ok ev) = hub_event ev"
  "hub_event (HubConnect d) = 1" "hub_event (Connect u i) = 0" "hub_event (Disconnect b) = 0"
  "hub_event (EnumerationError h p e') = 0" "hub_event NoEvent = 0"
  by (simp_all add: hub_connects_def hub_event_def)

lemma gains_connect_hub_device: "gains hub_connects (connect_hub_device tfb H hub port device info)"
proof -
  have hub: "gains hub_connects (bindR (new_hub tfb H d) (\<lambda>d. returnR (HubConnect d)))" for d
    by (rule gains_bind [OF gains_new_hub]) (simp_all add: gains_def)
  show ?thesis
    unfolding connect_hub_device_def Let_def
    by (rule gains_step, rule gains_topology)
      (auto intro!: gains_step [OF gains_on_driver] gains_intros hub split: option.splits prod.splits)
qed

lemma gains_disconnect: "gains hub_connects (disconnect_hub_port hub port)"
  by (auto simp: gains_def disconnect_hub_port_def actR_def pipes_used_def split: prod.splits)

lemma gains_handle_hub_ports: "gains hub_connects (handle_hub_ports tfb H hub ports)"
proof (induction ports)
  case Nil
  show ?case by (simp add: gains_def)
next
  case (Cons port ports)
  show ?case
    unfolding handle_hub_ports.simps Let_def
    by (auto intro!: gains_step gains_intros gains_disconnect gains_connect_hub_device Cons.IH split: prod.splits)
qed

lemma gains_device_event: "gains hub_connects (device_event tfb H ev)"
proof (cases ev)
  case (Root status)
  have hub: "gains hub_connects (tryR (new_hub tfb H d) (\<lambda>r. case r of
      Inl e \<Rightarrow> returnR (EnumerationError 0 1 e) | Inr d \<Rightarrow> returnR (HubConnect d)))" for d
    by (rule gains_try [OF gains_new_hub]) (auto intro!: gains_return split: sum.splits)
  show ?thesis
  proof (cases status)
    case (Present speed)
    then show ?thesis
      unfolding Root device_event_def InternalEvent.case DeviceStatus.case Let_def
      by (auto intro!: gains_step gains_match gains_topology gains_intros hub split: sum.splits option.splits prod.splits)
  next
    case Absent
    then show ?thesis
      by (auto simp: Root device_event_def gains_def actR_def pipes_used_def split: prod.splits)
  qed
next
  case (Packet pkt)
  have "gains hub_connects (handle_hub_packet tfb H pkt)"
    unfolding handle_hub_packet_def by (auto intro!: gains_intros gains_handle_hub_ports)
  then show ?thesis
    unfolding Packet device_event_def InternalEvent.case
    by (rule gains_try) (auto intro!: gains_return split: sum.splits)
qed

lemma poll_pipes_used: "poll_pipes H ps hc = Ret (hc', ps', m) \<Longrightarrow> map (\<lambda>p. p = None) ps' = map (\<lambda>p. p = None) ps"
proof (induction H ps hc arbitrary: hc' ps' m rule: poll_pipes.induct)
  case (3 H p ps hc)
  then show ?case by (auto simp: obind_Ret_iff split: option.splits)
qed (auto simp: obind_Ret_iff)

lemma pipes_used_map: "pipes_used s = length (filter Not (map (\<lambda>p. p = None) (pipes s)))"
  by (simp add: pipes_used_def filter_map comp_def)

lemma hub_poll_used:
  assumes "hub_state_poll_next H s = Ret (t, m)"
  shows "pipes_used t = pipes_used s" and "length (pipes t) = length (pipes s)"
proof -
  have "map (\<lambda>p. p = None) (pipes t) = map (\<lambda>p. p = None) (pipes s)"
    using assms poll_pipes_used by (auto simp: hub_state_poll_next_def obind_Ret_iff)
  then show "pipes_used t = pipes_used s" "length (pipes t) = length (pipes s)"
    unfolding pipes_used_map by (simp, metis length_map)
qed

lemma device_event_used:
  "device_event tfb H ev s = Ret (t, r) \<Longrightarrow>
     pipes_used s + hub_connects r \<le> pipes_used t \<and> length (pipes t) = length (pipes s)"
  using gains_device_event [of tfb H ev] unfolding gains_def by blast

definition count_hubs :: "DeviceEvent list \<Rightarrow> nat" where
  "count_hubs evs = sum_list (map hub_event evs)"

lemma count_hubs_snoc: "count_hubs (evs @ [ev]) = count_hubs evs + hub_event ev"
  by (simp add: count_hubs_def)

lemma bus_run_used: "bus_run tfb H hinv s evs \<Longrightarrow> length (pipes s) = 15 \<and> count_hubs evs \<le> pipes_used s"
proof (induction rule: bus_run.induct)
  case (run_pending s evs s')
  then show ?case using hub_poll_used [of H s] by simp
next
  case (run_root s evs status s' ev)
  then show ?case using device_event_used [OF run_root.hyps(2)] by (auto simp: count_hubs_snoc)
next
  case (run_packet s evs t pkt s' ev)
  then show ?case
    using hub_poll_used [OF run_packet.hyps(2)] device_event_used [OF run_packet.hyps(4)] by (auto simp: count_hubs_snoc)
qed (simp_all add: hub_state_default_def count_hubs_def pipes_used_def)

section \<open>Properties\<close>

text \<open>C7: in the whole life of a bus at most 15 hubs are ever reported as connected: every hub takes one
of the 15 interrupt pipes for good. Pulling a hub out, or the whole tree off the root port, gives none
of them back, so once 15 connections have been made the next hub that is plugged in is an enumeration
error even on an empty bus.\<close>

theorem hub_connects_bounded:
  assumes "bus_run tfb H hinv s evs"
  shows "count_hubs evs \<le> 15 \<and> count_hubs evs \<le> pipes_used s \<and>
    (pipes_used s = 15 \<longrightarrow> try_add H a e mp i s = Ret (s, Err TooManyDevices)) \<and>
    (\<forall>s' r. device_event tfb H ev s = Ret (s', r) \<longrightarrow> pipes_used s \<le> pipes_used s')"
proof -
  have len: "length (pipes s) = 15" "count_hubs evs \<le> pipes_used s" using bus_run_used [OF assms] by simp_all
  moreover have "pipes_used s \<le> 15" using length_filter_le [of _ "pipes s"] len(1) by (simp add: pipes_used_def)
  moreover have "try_add H a e mp i s = Ret (s, Err TooManyDevices)" if "pipes_used s = 15"
  proof -
    have "filter (\<lambda>p. p \<noteq> None) (pipes s) = pipes s"
      using that len(1) by (metis (no_types, lifting) filter_True length_filter_less nat_less_le pipes_used_def)
    then have "None \<notin> set (pipes s)" by (metis (mono_tags, lifting) filter_id_conv)
    then have "find (\<lambda>i. pipes s ! i = None) [0..<length (pipes s)] = None" by (auto simp: find_None_iff in_set_conv_nth)
    then show ?thesis by (simp add: try_add_def)
  qed
  ultimately show ?thesis using device_event_used [of tfb H ev s] by fastforce
qed

lemma scripted_start: "bus_run tfb scripted_host (\<lambda>_. True) (hub_state_default sc) []"
  by (rule run_start) simp

theorem hub_connects_bounded_witness:
  "\<exists>s ev. bus_run (\<lambda>n bs. length bs = n) scripted_host (\<lambda>_. True) s [ev] \<and> count_hubs [ev] \<le> 15 \<and>
     (\<forall>s' r. device_event (\<lambda>n bs. length bs = n) scripted_host (Root (Present Full12)) s = Ret (s', r) \<longrightarrow>
        pipes_used s \<le> pipes_used s')"
proof -
  let ?s = "hub_state_default [] :: (script, unit) BusState"
  let ?t = "?s\<lparr>topology := fst (device_disconnect (topology ?s) 0 1)\<rparr>"
  have "device_event (\<lambda>n bs. length bs = n) scripted_host (Root Absent) ?s = Ret (?t, Ok (Disconnect (BitSet 0xFFFFFFFF)))"
    by (simp add: device_event_def actR_def)
  from run_root [where tfb = "\<lambda>n bs. length bs = n" and hinv = "\<lambda>_. True", OF scripted_start this]
  have run: "bus_run (\<lambda>n bs. length bs = n) scripted_host (\<lambda>_. True) ?t [Disconnect (BitSet 0xFFFFFFFF)]" by simp
  from hub_connects_bounded [OF this] run show ?thesis by blast
qed

text \<open>On a host controller that keeps its contract, no run of the bus panics: whatever happened before,
handling the next change at the root port returns, polling the hubs' pipes returns with a packet that
can be read, and handling that packet returns. In particular a device at the root port always gets an
address, so the \<open>expect\<close> in \<open>device_events\<close> never fails, no slice is out of range and no counter
overflows; the topology stays well-formed throughout.\<close>

theorem bus_events_safe:
  assumes "usb_host H hinv ps_ok pinv" and "bus_run tfb H hinv s evs"
  shows "topo_ok (topology s) \<and>
    (\<exists>s' r. device_event tfb H (Root status) s = Ret (s', r) \<and> topo_ok (topology s')) \<and>
    (\<exists>t m. hub_state_poll_next H s = Ret (t, m) \<and>
      (\<forall>pkt. m = Some pkt \<longrightarrow> is_present (topology s) (ip_address pkt) \<longrightarrow>
         (\<exists>s' r. device_event tfb H (Packet pkt) t = Ret (s', r) \<and> topo_ok (topology s'))))"
  using usb_host.bus_run_inv [OF assms] usb_host.bus_run_progress [OF assms] by (fastforce simp: bus_inv_def)

definition keyboard_script :: script where
  "keyboard_script =
     [Ok [18, 1, 0, 2, 0, 0, 0, 64],
      Ok [18, 1, 0, 2, 0, 0, 0, 64, 0x6d, 0x04, 0x1c, 0xc3, 0, 1, 1, 2, 0, 1],
      Ok []]"

theorem bus_events_safe_witness:
  "\<exists>s' r. device_event (\<lambda>n bs. length bs = n) scripted_host (Root (Present Low1_5))
     (hub_state_default keyboard_script) = Ret (s', r) \<and> topo_ok (topology s')"
  using bus_events_safe [OF scripted.usb_host_axioms scripted_start] by blast

text \<open>When the device at the root port goes away, the topology is empty afterwards, whatever hubs
and devices were attached. The event then reported names all 32 addresses: address 0, which the
documentation of \<open>DeviceEvent::Disconnect\<close> says is never included, is among them.\<close>

theorem root_disconnect_event:
  assumes "usb_host H hinv ps_ok pinv" and "bus_run tfb H hinv s evs"
  shows "device_event tfb H (Root Absent) s =
    Ret (s\<lparr>topology := topology_new\<rparr>, Ok (Disconnect (BitSet 0xFFFFFFFF))) \<and>
    members (BitSet 0xFFFFFFFF) = {0..<32}"
proof -
  have "topo_ok (topology s)" using usb_host.bus_run_inv [OF assms] by (simp add: bus_inv_def)
  moreover have "members (BitSet 0xFFFFFFFF) = {0..<32}"
    using members_subset [of "BitSet 0xFFFFFFFF"] bit_all_ones_u32 by auto
  ultimately show ?thesis by (simp add: device_event_def actR_def root_disconnect_empties)
qed

theorem root_disconnect_event_witness:
  "device_event (\<lambda>n bs. length bs = n) scripted_host (Root Absent) (hub_state_default []) =
     Ret ((hub_state_default [])\<lparr>topology := topology_new\<rparr>, Ok (Disconnect (BitSet 0xFFFFFFFF)))"
  using root_disconnect_event [OF scripted.usb_host_axioms scripted_start] by blast

end
