(* ===== verification/Rp2040_Packets.thy ===== *)
theory Rp2040_Packets
  imports Host_Controller
begin

text \<open>
  The packetisers of \<open>cotton-usb-host/src/host/rp2040.rs\<close>: they cut a transfer into packets for the
  two halves of the RP2040's double buffer, and collect received packets. The buffer-control register
  is a record of its fields; the part of the USB memory from address 0x180 on is a list of bytes, in
  which the first buffer starts at 0 and the second at 0x40.
\<close>

section \<open>The buffer-control register and the USB memory\<close>

record EpBufferControl =
  full_0 :: bool
  pid_0 :: bool
  last_0 :: bool
  length_0 :: "10 word"
  available_0 :: bool
  full_1 :: bool
  pid_1 :: bool
  last_1 :: bool
  length_1 :: "10 word"
  available_1 :: bool

definition ep_buffer_control_zero :: EpBufferControl where
  "ep_buffer_control_zero = \<lparr>full_0 = False, pid_0 = False, last_0 = False, length_0 = 0,
     available_0 = False, full_1 = False, pid_1 = False, last_1 = False, length_1 = 0,
     available_1 = False\<rparr>"

record HwBuffers =
  epbc :: EpBufferControl
  dpram :: "u8 list"

definition DPRAM_SIZE :: nat where "DPRAM_SIZE = 4096 - 0x180"

definition hw_ok :: "HwBuffers \<Rightarrow> bool" where
  "hw_ok h \<longleftrightarrow> length (dpram h) = DPRAM_SIZE"

datatype ZeroLengthPacket = AsNeeded | Never

section \<open>Sizes of packets\<close>

text \<open>
  The state both packetisers share: what remains, the packet size, and whether an empty packet has to
  end the transfer. \<open>next_packet\<close> yields the next size with the flag for the last packet.
\<close>

record PacketSizes =
  remain :: nat
  packet_size :: nat
  need_zero_size_packet :: bool

text \<open>The remainder \<open>%\<close> panics for packet size 0, and is computed only for \<open>AsNeeded\<close>.\<close>

definition packet_sizes_new :: "u16 \<Rightarrow> u16 \<Rightarrow> ZeroLengthPacket \<Rightarrow> PacketSizes outcome" where
  "packet_sizes_new sz ps zlp =
     (case zlp of
        Never \<Rightarrow> Ret \<lparr>remain = unat sz, packet_size = unat ps, need_zero_size_packet = (sz = 0)\<rparr>
      | AsNeeded \<Rightarrow>
          if ps = 0 then Panic
          else Ret \<lparr>remain = unat sz, packet_size = unat ps, need_zero_size_packet = (sz mod ps = 0)\<rparr>)"

definition next_packet :: "PacketSizes \<Rightarrow> PacketSizes \<times> (nat \<times> bool) option" where
  "next_packet p =
     (if remain p = 0 then
        (if need_zero_size_packet p then (p\<lparr>need_zero_size_packet := False\<rparr>, Some (0, True))
         else (p, None))
      else if remain p < packet_size p then (p, Some (remain p, True))
      else if remain p > packet_size p then (p, Some (packet_size p, False))
      else (p, Some (remain p, \<not> need_zero_size_packet p)))"

section \<open>Preparing and retiring packets\<close>

record InPacketiser =
  ip_next_prep :: nat
  ip_sizes :: PacketSizes
  ip_initial_toggle :: bool

definition in_packetiser_new :: "u16 \<Rightarrow> u16 \<Rightarrow> bool \<Rightarrow> ZeroLengthPacket \<Rightarrow> InPacketiser outcome" where
  "in_packetiser_new sz ps toggle zlp =
     obind (packet_sizes_new sz ps zlp) (\<lambda>z.
     Ret \<lparr>ip_next_prep = 0, ip_sizes = z, ip_initial_toggle = toggle\<rparr>)"

definition in_prepare :: "InPacketiser \<Rightarrow> HwBuffers \<Rightarrow> (InPacketiser \<times> HwBuffers \<times> bool) outcome" where
  "in_prepare p h =
     (let val = epbc h in
      if ip_next_prep p = 0 then
        if \<not> available_0 val then
          (case next_packet (ip_sizes p) of
             (z, None) \<Rightarrow> Ret (p\<lparr>ip_sizes := z\<rparr>, h, False)
           | (z, Some (this_packet, is_last)) \<Rightarrow>
               Ret (p\<lparr>ip_sizes := z\<lparr>remain := remain z - this_packet\<rparr>, ip_next_prep := 1\<rparr>,
                    h\<lparr>epbc := val\<lparr>full_0 := False, pid_0 := ip_initial_toggle p, last_0 := is_last,
                        length_0 := word_of_nat (packet_size z), available_0 := True\<rparr>\<rparr>, True))
        else Ret (p, h, False)
      else
        if \<not> available_1 val then
          (case next_packet (ip_sizes p) of
             (z, None) \<Rightarrow> Ret (p\<lparr>ip_sizes := z\<rparr>, h, False)
           | (z, Some (this_packet, is_last)) \<Rightarrow>
               Ret (p\<lparr>ip_sizes := z\<lparr>remain := remain z - this_packet\<rparr>, ip_next_prep := 0\<rparr>,
                    h\<lparr>epbc := val\<lparr>full_1 := False, pid_1 := \<not> ip_initial_toggle p, last_1 := is_last,
                        length_1 := word_of_nat (packet_size z), available_1 := True\<rparr>\<rparr>, True))
        else Ret (p, h, False))"

record OutPacketiser =
  op_next_prep :: nat
  op_initial_pid :: bool
  op_sizes :: PacketSizes
  op_offset :: nat
  op_buf :: "u8 list"

definition out_packetiser_new ::
    "u16 \<Rightarrow> u16 \<Rightarrow> u8 list \<Rightarrow> bool \<Rightarrow> ZeroLengthPacket \<Rightarrow> OutPacketiser outcome" where
  "out_packetiser_new sz ps buf pid zlp =
     obind (packet_sizes_new sz ps zlp) (\<lambda>z.
     Ret \<lparr>op_next_prep = 0, op_initial_pid = pid, op_sizes = z, op_offset = 0, op_buf = buf\<rparr>)"

text \<open>
  Copying \<open>n\<close> bytes from \<open>&buf[offset]\<close> into the USB memory: the index is checked; reading past the end
  of the buffer or writing past the end of the memory, which the unsafe copy would do unchecked, is
  a panic of the model, so that its absence is proved with the others.
\<close>

definition copy_to_dpram :: "u8 list \<Rightarrow> nat \<Rightarrow> nat \<Rightarrow> nat \<Rightarrow> u8 list \<Rightarrow> u8 list outcome" where
  "copy_to_dpram buf offset n pos mem =
     obind (index buf offset) (\<lambda>_.
     obind (slice buf offset (offset + n)) (\<lambda>bytes.
     rust_assert (pos + n \<le> length mem) (Ret (overwrite mem pos bytes))))"

definition out_prepare :: "OutPacketiser \<Rightarrow> HwBuffers \<Rightarrow> (OutPacketiser \<times> HwBuffers \<times> bool) outcome" where
  "out_prepare p h =
     (let val = epbc h in
      if op_next_prep p = 0 then
        if \<not> available_0 val then
          (case next_packet (op_sizes p) of
             (z, None) \<Rightarrow> Ret (p\<lparr>op_sizes := z\<rparr>, h, False)
           | (z, Some (this_packet, is_last)) \<Rightarrow>
               obind (if this_packet > 0 then copy_to_dpram (op_buf p) (op_offset p) this_packet 0 (dpram h)
                      else Ret (dpram h)) (\<lambda>mem.
               Ret (p\<lparr>op_sizes := z\<lparr>remain := remain z - this_packet\<rparr>,
                      op_offset := op_offset p + this_packet, op_next_prep := 1\<rparr>,
                    h\<lparr>epbc := val\<lparr>full_0 := True, pid_0 := op_initial_pid p, last_0 := is_last,
                        length_0 := word_of_nat this_packet, available_0 := True\<rparr>, dpram := mem\<rparr>, True)))
        else Ret (p, h, False)
      else
        if \<not> available_1 val then
          (case next_packet (op_sizes p) of
             (z, None) \<Rightarrow> Ret (p\<lparr>op_sizes := z\<rparr>, h, False)
           | (z, Some (this_packet, is_last)) \<Rightarrow>
               obind (copy_to_dpram (op_buf p) (op_offset p) this_packet 0x40 (dpram h)) (\<lambda>mem.
               Ret (p\<lparr>op_sizes := z\<lparr>remain := remain z - this_packet\<rparr>,
                      op_offset := op_offset p + this_packet, op_next_prep := 0\<rparr>,
                    h\<lparr>epbc := val\<lparr>full_1 := True, pid_1 := \<not> op_initial_pid p, last_1 := is_last,
                        length_1 := word_of_nat this_packet, available_1 := True\<rparr>, dpram := mem\<rparr>, True)))
        else Ret (p, h, False))"

record InDepacketiser =
  id_next_retire :: nat
  id_packet_parity :: bool
  id_remain :: nat
  id_offset :: nat
  id_buf :: "u8 list"

definition in_depacketiser_new :: "u16 \<Rightarrow> u8 list \<Rightarrow> InDepacketiser" where
  "in_depacketiser_new sz buf =
     \<lparr>id_next_retire = 0, id_packet_parity = False, id_remain = unat sz, id_offset = 0, id_buf = buf\<rparr>"

definition in_depacketiser_total :: "InDepacketiser \<Rightarrow> nat" where
  "in_depacketiser_total d = id_offset d"

text \<open>Copying \<open>n\<close> bytes out of the USB memory to \<open>&mut buf[offset]\<close>, with the same conventions.\<close>

definition copy_from_dpram :: "u8 list \<Rightarrow> nat \<Rightarrow> nat \<Rightarrow> nat \<Rightarrow> u8 list \<Rightarrow> u8 list outcome" where
  "copy_from_dpram mem pos n offset buf =
     obind (index buf offset) (\<lambda>_.
     obind (slice mem pos (pos + n)) (\<lambda>bytes.
     rust_assert (offset + n \<le> length buf) (Ret (overwrite buf offset bytes))))"

definition in_retire :: "InDepacketiser \<Rightarrow> HwBuffers \<Rightarrow> (InDepacketiser \<times> bool) outcome" where
  "in_retire d h =
     (let val = epbc h;
        (full, len, pos, next) =
          (if id_next_retire d = 0 then (full_0 val, length_0 val, 0, 1) else (full_1 val, length_1 val, 0x40, 0))
      in if full then
           let this_packet = min (id_remain d) (unat len) in
           obind (if this_packet > 0 then copy_from_dpram (dpram h) pos this_packet (id_offset d) (id_buf d)
                  else Ret (id_buf d)) (\<lambda>buf.
           Ret (d\<lparr>id_packet_parity := \<not> id_packet_parity d, id_buf := buf,
                  id_remain := id_remain d - this_packet, id_offset := id_offset d + this_packet,
                  id_next_retire := next\<rparr>, True))
         else Ret (d, False))"

record OutDepacketiser =
  od_next_retire :: nat
  od_packet_parity :: bool

definition out_depacketiser_new :: OutDepacketiser where
  "out_depacketiser_new = \<lparr>od_next_retire = 0, od_packet_parity = False\<rparr>"

definition out_retire :: "OutDepacketiser \<Rightarrow> HwBuffers \<Rightarrow> (OutDepacketiser \<times> bool) outcome" where
  "out_retire d h =
     (let val = epbc h in
      if od_next_retire d = 0 then
        if \<not> full_0 val then
          Ret (d\<lparr>od_packet_parity := \<not> od_packet_parity d, od_next_retire := 1\<rparr>, True)
        else Ret (d, False)
      else
        if \<not> full_1 val then
          Ret (d\<lparr>od_packet_parity := \<not> od_packet_parity d, od_next_retire := 0\<rparr>, True)
        else Ret (d, False))"

section \<open>The sequence of packets of a transfer\<close>

function packet_list :: "PacketSizes \<Rightarrow> (nat \<times> bool) list" where
  "packet_list z =
     (if packet_size z = 0 then []
      else case next_packet z of
        (z', None) \<Rightarrow> []
      | (z', Some (n, l)) \<Rightarrow> (n, l) # packet_list (z'\<lparr>remain := remain z' - n\<rparr>))"
  by pat_completeness auto
termination
  by (relation "measure (\<lambda>z. remain z + (if need_zero_size_packet z then 1 else 0))")
    (auto simp: next_packet_def split: if_splits)

declare packet_list.simps [simp del]

lemma packet_list_done:
  "packet_list \<lparr>remain = 0, packet_size = ps, need_zero_size_packet = False\<rparr> = []"
  by (subst packet_list.simps) (simp add: next_packet_def)

lemma packet_list_zero:
  "0 < ps \<Longrightarrow> packet_list \<lparr>remain = 0, packet_size = ps, need_zero_size_packet = b\<rparr> = (if b then [(0, True)] else [])"
  by (subst packet_list.simps) (simp add: next_packet_def packet_list_done)

lemma packet_list_small:
  "0 < r \<Longrightarrow> r < ps \<Longrightarrow> packet_list \<lparr>remain = r, packet_size = ps, need_zero_size_packet = False\<rparr> = [(r, True)]"
  by (subst packet_list.simps) (simp add: next_packet_def packet_list_zero)

lemma packet_list_large:
  "0 < ps \<Longrightarrow> ps < r \<Longrightarrow> packet_list \<lparr>remain = r, packet_size = ps, need_zero_size_packet = b\<rparr> =
     (ps, False) # packet_list \<lparr>remain = r - ps, packet_size = ps, need_zero_size_packet = b\<rparr>"
  by (subst packet_list.simps) (simp add: next_packet_def)

lemma packet_list_exact:
  "0 < ps \<Longrightarrow> packet_list \<lparr>remain = ps, packet_size = ps, need_zero_size_packet = b\<rparr> =
     (ps, \<not> b) # (if b then [(0, True)] else [])"
  by (subst packet_list.simps) (simp add: next_packet_def packet_list_zero)

text \<open>An open-ended transfer: full packets, then a short one, empty if need be.\<close>

lemma packet_list_as_needed:
  "0 < ps \<Longrightarrow> packet_list \<lparr>remain = r, packet_size = ps, need_zero_size_packet = (r mod ps = 0)\<rparr> =
     replicate (r div ps) (ps, False) @ [(r mod ps, True)]"
proof (induction r rule: less_induct)
  case (less r)
  consider "r = 0" | "0 < r" "r < ps" | "r = ps" | "ps < r" by linarith
  then show ?case
  proof cases
    case 4
    then have r: "r div ps = Suc ((r - ps) div ps)" "r mod ps = (r - ps) mod ps"
      using less.prems by (simp_all add: le_div_geq le_mod_geq)
    show ?thesis
      using less.IH [of "r - ps"] less.prems 4 unfolding r by (simp add: packet_list_large)
  qed (use less.prems in \<open>simp_all add: packet_list_zero packet_list_small packet_list_exact\<close>)
qed

text \<open>A transfer of known size: the last packet is full if the size is a multiple of the packet size.\<close>

lemma packet_list_never:
  "0 < ps \<Longrightarrow> 0 < r \<Longrightarrow> packet_list \<lparr>remain = r, packet_size = ps, need_zero_size_packet = False\<rparr> =
     replicate ((r - 1) div ps) (ps, False) @ [(Suc ((r - 1) mod ps), True)]"
proof (induction r rule: less_induct)
  case (less r)
  consider "r < ps" | "r = ps" | "ps < r" by linarith
  then show ?case
  proof cases
    case 3
    then have r: "(r - 1) div ps = Suc ((r - ps - 1) div ps)" "(r - 1) mod ps = (r - ps - 1) mod ps"
      using less.prems le_div_geq [of ps "r - 1"] le_mod_geq [of ps "r - 1"] by (simp_all add: diff_right_commute)
    show ?thesis
      using less.IH [of "r - ps"] less.prems 3 unfolding r by (simp add: packet_list_large)
  qed (use less.prems in \<open>simp_all add: packet_list_small packet_list_exact\<close>)
qed

lemma packet_sizes_cases:
  assumes "packet_sizes_new sz ps zlp = Ret z" and "ps \<noteq> 0"
  shows "packet_list z =
    (case zlp of
       AsNeeded \<Rightarrow> replicate (unat sz div unat ps) (unat ps, False) @ [(unat sz mod unat ps, True)]
     | Never \<Rightarrow> if sz = 0 then [(0, True)]
         else replicate ((unat sz - 1) div unat ps) (unat ps, False) @ [(Suc ((unat sz - 1) mod unat ps), True)])"
proof -
  have ps: "0 < unat ps" using assms(2) by (simp add: unat_gt_0)
  have "sz mod ps = 0 \<longleftrightarrow> unat sz mod unat ps = 0" by (simp add: unat_eq_0 [symmetric] unat_mod)
  then show ?thesis
    using assms packet_list_as_needed [OF ps] packet_list_never [OF ps] ps
    by (auto simp: packet_sizes_new_def packet_list_zero unat_gt_0 split: ZeroLengthPacket.splits)
qed

lemma packet_list_sum: "0 < packet_size z \<Longrightarrow> sum_list (map fst (packet_list z)) = remain z"
proof (induction z rule: packet_list.induct)
  case (1 z)
  show ?case
  proof (cases "next_packet z")
    case (Pair z' m)
    show ?thesis
    proof (cases m)
      case None
      then have "remain z = 0" using Pair by (auto simp: next_packet_def split: if_splits)
      then show ?thesis using Pair None "1.prems" by (simp add: packet_list.simps [of z])
    next
      case (Some nl)
      obtain n l where nl: "nl = (n, l)" by fastforce
      have "n \<le> remain z" "remain z' = remain z" "packet_size z' = packet_size z"
        using Pair Some nl by (auto simp: next_packet_def split: if_splits)
      then show ?thesis
        using "1.IH" [OF _ Pair [symmetric] Some nl [symmetric]] Pair Some nl "1.prems"
        by (simp add: packet_list.simps [of z])
    qed
  qed
qed

section \<open>What is sent\<close>

lemma next_packet_facts:
  assumes "next_packet z = (z', Some (n, l))"
  shows "n \<le> remain z" "remain z' = remain z" "packet_size z' = packet_size z" "n \<le> packet_size z \<or> n = 0"
    "need_zero_size_packet z' \<Longrightarrow> need_zero_size_packet z" "n = 0 \<Longrightarrow> remain z \<noteq> 0 \<Longrightarrow> packet_size z = 0"
    "remain z = 0 \<Longrightarrow> \<not> need_zero_size_packet z'"
  using assms by (auto simp: next_packet_def split: if_splits)

text \<open>
  An OUT packetiser is in order when what remains lies within the buffer, packets fit the USB memory,
  and an empty packet that is still due will go to the first buffer.
\<close>

definition out_inv :: "OutPacketiser \<Rightarrow> bool" where
  "out_inv p \<longleftrightarrow> op_offset p + remain (op_sizes p) \<le> length (op_buf p) \<and>
     0 < packet_size (op_sizes p) \<and> packet_size (op_sizes p) \<le> 1023 \<and>
     (need_zero_size_packet (op_sizes p) \<longrightarrow> op_next_prep p = 0 \<and> remain (op_sizes p) = 0)"

lemma copy_to_dpram_in_range:
  "0 < n \<Longrightarrow> off + n \<le> length buf \<Longrightarrow> pos + n \<le> length mem \<Longrightarrow>
     copy_to_dpram buf off n pos mem = Ret (overwrite mem pos (take n (drop off buf)))"
  by (simp add: copy_to_dpram_def slice_def)

definition out_bounds :: "OutPacketiser \<Rightarrow> bool" where
  "out_bounds p \<longleftrightarrow> op_offset p + remain (op_sizes p) \<le> length (op_buf p) \<and> packet_size (op_sizes p) \<le> 1023"

lemma out_prepare_packet:
  assumes "out_bounds p" and "op_next_prep p \<noteq> 0 \<longrightarrow> 0 < n" and "hw_ok h" and "next_packet (op_sizes p) = (z, Some (n, l))"
    and "\<not> (if op_next_prep p = 0 then available_0 (epbc h) else available_1 (epbc h))"
  shows "\<exists>h'. out_prepare p h =
      Ret (p\<lparr>op_sizes := z\<lparr>remain := remain z - n\<rparr>, op_offset := op_offset p + n,
             op_next_prep := (if op_next_prep p = 0 then 1 else 0)\<rparr>, h', True) \<and> hw_ok h' \<and>
    (if op_next_prep p = 0
     then unat (length_0 (epbc h')) = n \<and> take n (dpram h') = take n (drop (op_offset p) (op_buf p)) \<and>
       last_0 (epbc h') = l \<and> pid_0 (epbc h') = op_initial_pid p
     else unat (length_1 (epbc h')) = n \<and> take n (drop 0x40 (dpram h')) = take n (drop (op_offset p) (op_buf p)) \<and>
       last_1 (epbc h') = l \<and> pid_1 (epbc h') = (\<not> op_initial_pid p))"
proof -
  note facts = next_packet_facts [OF assms(4)]
  have n: "n \<le> 1023" "op_offset p + n \<le> length (op_buf p)" "0x40 + n \<le> length (dpram h)"
    using facts assms(1,3) by (auto simp: out_bounds_def hw_ok_def DPRAM_SIZE_def)
  then have len: "unat (word_of_nat n :: 10 word) = n" by (simp add: unat_of_nat take_bit_eq_mod)
  have bytes: "length (take n (drop (op_offset p) (op_buf p))) = n" using n by simp
  show ?thesis
  proof (cases "op_next_prep p = 0")
    case True
    then show ?thesis
      using assms n len bytes copy_to_dpram_in_range [of n "op_offset p" "op_buf p" 0 "dpram h"]
        take_drop_overwrite [of 0 "take n (drop (op_offset p) (op_buf p))" "dpram h"]
      by (cases "n = 0") (simp_all add: out_prepare_def Let_def hw_ok_def)
  next
    case False
    then show ?thesis
      using assms n len bytes copy_to_dpram_in_range [of n "op_offset p" "op_buf p" 64 "dpram h"]
        take_drop_overwrite [of 64 "take n (drop (op_offset p) (op_buf p))" "dpram h"]
      by (simp add: out_prepare_def Let_def hw_ok_def)
  qed
qed

lemma out_inv_packet:
  "out_inv p \<Longrightarrow> next_packet (op_sizes p) = (z, Some (n, l)) \<Longrightarrow>
     out_bounds p \<and> (op_next_prep p \<noteq> 0 \<longrightarrow> 0 < n)"
  by (auto simp: out_inv_def out_bounds_def next_packet_def split: if_splits)

lemma out_inv_step:
  assumes "out_inv p" and "next_packet (op_sizes p) = (z, Some (n, l))"
  shows "out_inv (p\<lparr>op_sizes := z\<lparr>remain := remain z - n\<rparr>, op_offset := op_offset p + n, op_next_prep := k\<rparr>)"
  using assms next_packet_facts [OF assms(2)] by (auto simp: out_inv_def)

text \<open>
  The packets an OUT packetiser puts into the buffers while these are emptied in time: the bytes in
  the buffer, the flag for the last packet and the packet id.
\<close>

fun out_run :: "nat \<Rightarrow> OutPacketiser \<Rightarrow> u8 list \<Rightarrow> (u8 list \<times> bool \<times> bool) list outcome" where
  "out_run 0 p mem = Ret []"
| "out_run (Suc k) p mem =
     obind (out_prepare p \<lparr>epbc = ep_buffer_control_zero, dpram = mem\<rparr>) (\<lambda>(p', h, more).
     if more then
       obind (out_run k p' (dpram h)) (\<lambda>ps. Ret (
         (if op_next_prep p = 0
          then (take (unat (length_0 (epbc h))) (dpram h), last_0 (epbc h), pid_0 (epbc h))
          else (take (unat (length_1 (epbc h))) (drop 0x40 (dpram h)), last_1 (epbc h), pid_1 (epbc h))) # ps))
     else Ret [])"

text \<open>The reference: the data cut at the packet sizes, with alternating packet ids.\<close>

fun cut_packets :: "u8 list \<Rightarrow> (nat \<times> bool) list \<Rightarrow> bool \<Rightarrow> (u8 list \<times> bool \<times> bool) list" where
  "cut_packets buf [] pid = []"
| "cut_packets buf ((n, l) # ps) pid = (take n buf, l, pid) # cut_packets (drop n buf) ps (\<not> pid)"

lemma concat_cut_packets: "concat (map fst (cut_packets buf ps pid)) = take (sum_list (map fst ps)) buf"
  by (induction buf ps pid rule: cut_packets.induct) (simp_all add: take_add)

lemma out_run_cut:
  assumes "out_inv p" and "length mem = DPRAM_SIZE" and "length (packet_list (op_sizes p)) \<le> k"
  shows "out_run k p mem = Ret (cut_packets (drop (op_offset p) (op_buf p)) (packet_list (op_sizes p))
    (if op_next_prep p = 0 then op_initial_pid p else \<not> op_initial_pid p))"
  using assms
proof (induction k arbitrary: p mem)
  case 0
  then show ?case by simp
next
  case (Suc k)
  let ?h = "\<lparr>epbc = ep_buffer_control_zero, dpram = mem\<rparr>"
  have hw: "hw_ok ?h" "\<not> available_0 (epbc ?h)" "\<not> available_1 (epbc ?h)"
    using Suc.prems by (simp_all add: hw_ok_def ep_buffer_control_zero_def)
  have ps: "packet_size (op_sizes p) \<noteq> 0" using Suc.prems by (simp add: out_inv_def)
  obtain z m where nx: "next_packet (op_sizes p) = (z, m)" by fastforce
  show ?case
  proof (cases m)
    case None
    then have "packet_list (op_sizes p) = []" using nx ps by (simp add: packet_list.simps [of "op_sizes p"])
    moreover have "out_prepare p ?h = Ret (p\<lparr>op_sizes := z\<rparr>, ?h, False)"
      using nx None hw by (simp add: out_prepare_def Let_def)
    ultimately show ?thesis by simp
  next
    case (Some nl)
    obtain n l where nl: "nl = (n, l)" by fastforce
    note nx' = nx [unfolded Some nl]
    let ?p = "p\<lparr>op_sizes := z\<lparr>remain := remain z - n\<rparr>, op_offset := op_offset p + n,
      op_next_prep := (if op_next_prep p = 0 then 1 else 0)\<rparr>"
    have list: "packet_list (op_sizes p) = (n, l) # packet_list (op_sizes ?p)"
      using nx' ps by (simp add: packet_list.simps [of "op_sizes p"])
    have free: "\<not> (if op_next_prep p = 0 then available_0 (epbc ?h) else available_1 (epbc ?h))"
      using hw by simp
    obtain h' where prep: "out_prepare p ?h = Ret (?p, h', True)" and "hw_ok h'"
      and pkt: "if op_next_prep p = 0
        then unat (length_0 (epbc h')) = n \<and> take n (dpram h') = take n (drop (op_offset p) (op_buf p)) \<and>
          last_0 (epbc h') = l \<and> pid_0 (epbc h') = op_initial_pid p
        else unat (length_1 (epbc h')) = n \<and> take n (drop 0x40 (dpram h')) = take n (drop (op_offset p) (op_buf p)) \<and>
          last_1 (epbc h') = l \<and> pid_1 (epbc h') = (\<not> op_initial_pid p)"
      using out_prepare_packet [OF _ _ hw(1) nx' free] out_inv_packet [OF Suc.prems(1) nx'] by blast
    have "out_run k ?p (dpram h') = Ret (cut_packets (drop (op_offset ?p) (op_buf ?p)) (packet_list (op_sizes ?p))
        (if op_next_prep ?p = 0 then op_initial_pid ?p else \<not> op_initial_pid ?p))"
      using Suc.IH [of ?p "dpram h'"] out_inv_step [OF Suc.prems(1) nx'] \<open>hw_ok h'\<close> Suc.prems(3) list
      by (simp add: hw_ok_def)
    then show ?thesis using prep pkt list by (simp add: add.commute)
  qed
qed

text \<open>An empty packet that falls to the second buffer is out of the range of the data.\<close>

lemma out_run_zlp:
  assumes "op_sizes p = \<lparr>remain = j * k, packet_size = k, need_zero_size_packet = True\<rparr>"
    and "op_offset p + j * k = length (op_buf p)" and "op_next_prep p = 0 \<longleftrightarrow> odd j" and "0 < k" and "k \<le> 1023"
    and "length mem = DPRAM_SIZE"
  shows "out_run (Suc j) p mem = Panic"
  using assms
proof (induction j arbitrary: p mem)
  case 0
  then show ?case
    by (simp add: out_prepare_def next_packet_def copy_to_dpram_def ep_buffer_control_zero_def index_def)
next
  case (Suc j)
  let ?h = "\<lparr>epbc = ep_buffer_control_zero, dpram = mem\<rparr>"
  let ?p = "p\<lparr>op_sizes := (op_sizes p)\<lparr>remain := remain (op_sizes p) - k\<rparr>, op_offset := op_offset p + k,
      op_next_prep := (if op_next_prep p = 0 then 1 else 0)\<rparr>"
  have nx: "next_packet (op_sizes p) = (op_sizes p, Some (k, False))"
    using Suc.prems by (cases j) (simp_all add: next_packet_def)
  have bounds: "out_bounds p" using Suc.prems by (simp add: out_bounds_def)
  have hw: "hw_ok ?h" using Suc.prems by (simp add: hw_ok_def)
  have "\<not> (if op_next_prep p = 0 then available_0 (epbc ?h) else available_1 (epbc ?h))"
    by (simp add: ep_buffer_control_zero_def)
  then obtain h' where prep: "out_prepare p ?h = Ret (?p, h', True)" and "hw_ok h'"
    using out_prepare_packet [OF bounds _ hw nx] Suc.prems(4) by blast
  have "out_run (Suc j) ?p (dpram h') = Panic"
    by (rule Suc.IH) (use Suc.prems \<open>hw_ok h'\<close> in \<open>simp_all add: hw_ok_def\<close>)
  then show ?case using prep by (simp del: out_run.simps add: out_run.simps(2) [of "Suc j" p])
qed

section \<open>What is received\<close>

text \<open>
  An IN depacketiser is in order when what it still expects lies within its buffer; \<open>rx_total\<close> is how
  much it expects altogether. Retiring a packet never leaves the buffer and changes only the part of
  it that the packet fills.
\<close>

definition in_inv :: "InDepacketiser \<Rightarrow> bool" where
  "in_inv d \<longleftrightarrow> id_offset d + id_remain d \<le> length (id_buf d)"

lemma in_retire_ok:
  assumes "in_inv d" and "hw_ok h"
  shows "\<exists>d' b. in_retire d h = Ret (d', b) \<and> in_inv d' \<and> length (id_buf d') = length (id_buf d) \<and>
    id_offset d' + id_remain d' = id_offset d + id_remain d \<and> id_offset d \<le> id_offset d' \<and>
    take (id_offset d) (id_buf d') = take (id_offset d) (id_buf d) \<and>
    drop (id_offset d') (id_buf d') = drop (id_offset d') (id_buf d)"
proof -
  have "unat (x :: 10 word) \<le> 1023" for x using unsigned_less [of x, where ?'a = nat] by simp
  then have mem: "0x40 + unat (x :: 10 word) \<le> length (dpram h)" for x
    using assms(2) by (simp add: hw_ok_def DPRAM_SIZE_def le_trans [of "64 + unat x" "64 + 1023"])
  have copy: "copy_from_dpram (dpram h) pos n (id_offset d) (id_buf d) =
      Ret (overwrite (id_buf d) (id_offset d) (take n (drop pos (dpram h))))"
    if "0 < n" "n \<le> id_remain d" "pos \<le> 0x40" "n \<le> unat (x :: 10 word)" for n pos x
    using that assms(1) mem [of x] by (simp add: copy_from_dpram_def slice_def in_inv_def)
  let ?r = "if id_next_retire d = 0 then (full_0 (epbc h), length_0 (epbc h), 0 :: nat, 1 :: nat)
    else (full_1 (epbc h), length_1 (epbc h), 0x40, 0)"
  obtain full len pos nx where r: "?r = (full, len, pos, nx)" by (cases ?r) auto
  then have "pos \<le> 0x40" by (auto split: if_splits)
  let ?n = "min (id_remain d) (unat len)"
  let ?bytes = "take ?n (drop pos (dpram h))"
  have bytes: "length ?bytes = ?n" using mem [of len] \<open>pos \<le> 0x40\<close> by simp
  show ?thesis
  proof (cases full)
    case True
    let ?d = "d\<lparr>id_packet_parity := \<not> id_packet_parity d, id_buf := overwrite (id_buf d) (id_offset d) ?bytes,
      id_remain := id_remain d - ?n, id_offset := id_offset d + ?n, id_next_retire := nx\<rparr>"
    have "in_retire d h = Ret (?d, True)"
      using copy [of ?n pos len] \<open>pos \<le> 0x40\<close> True
      by (cases "?n = 0") (auto simp: in_retire_def r Let_def)
    moreover have "id_offset d + ?n \<le> length (id_buf d)" using assms(1) by (simp add: in_inv_def)
    ultimately show ?thesis
      using assms(1) bytes by (auto simp: in_inv_def overwrite_def)
  next
    case False
    then show ?thesis using assms by (auto simp: in_retire_def r Let_def)
  qed
qed

lemma in_prepare_ok: "\<exists>p' h' b. in_prepare p h = Ret (p', h', b) \<and> dpram h' = dpram h"
  by (auto simp: in_prepare_def Let_def split: prod.splits option.splits)

lemma out_prepare_ok:
  assumes "out_inv p" and "hw_ok h"
  shows "\<exists>p' h' b. out_prepare p h = Ret (p', h', b) \<and> out_inv p' \<and> hw_ok h'"
proof (cases "if op_next_prep p = 0 then available_0 (epbc h) else available_1 (epbc h)")
  case True
  then show ?thesis using assms by (auto simp: out_prepare_def Let_def split: if_splits)
next
  case False
  obtain z m where nx: "next_packet (op_sizes p) = (z, m)" by fastforce
  show ?thesis
  proof (cases m)
    case None
    then have "z = op_sizes p" using nx by (auto simp: next_packet_def split: if_splits)
    then show ?thesis using None nx False assms by (auto simp: out_prepare_def Let_def split: if_splits)
  next
    case (Some nl)
    obtain n l where nl: "nl = (n, l)" by fastforce
    note nx' = nx [unfolded Some nl]
    from out_prepare_packet [OF _ _ assms(2) nx' False] out_inv_packet [OF assms(1) nx']
      out_inv_step [OF assms(1) nx'] show ?thesis by blast
  qed
qed

lemma out_retire_ok: "\<exists>d' b. out_retire d h = Ret (d', b)"
  by (auto simp: out_retire_def Let_def)

lemma out_new_inv:
  assumes "out_packetiser_new sz ps buf pid Never = Ret p" and "unat sz \<le> length buf" and "0 < ps" and "ps \<le> 1023"
  shows "out_inv p"
  using assms by (auto simp: out_packetiser_new_def packet_sizes_new_def out_inv_def word_less_nat_alt word_le_nat_alt)

lemma out_run_never:
  assumes "out_packetiser_new sz ps buf pid Never = Ret p" and "unat sz \<le> length buf" and "0 < ps" and "ps \<le> 1023"
    and "length mem = DPRAM_SIZE" and "unat sz + 1 \<le> k"
  shows "\<exists>sizes. sizes = (if sz = 0 then [(0, True)]
       else replicate ((unat sz - 1) div unat ps) (unat ps, False) @ [(Suc ((unat sz - 1) mod unat ps), True)]) \<and>
    out_run k p mem = Ret (cut_packets buf sizes pid) \<and>
    concat (map fst (cut_packets buf sizes pid)) = take (unat sz) buf"
proof -
  obtain z where z: "packet_sizes_new sz ps Never = Ret z"
    and p: "p = \<lparr>op_next_prep = 0, op_initial_pid = pid, op_sizes = z, op_offset = 0, op_buf = buf\<rparr>"
    using assms(1) by (auto simp: out_packetiser_new_def obind_Ret_iff)
  have list: "packet_list z = (if sz = 0 then [(0, True)]
       else replicate ((unat sz - 1) div unat ps) (unat ps, False) @ [(Suc ((unat sz - 1) mod unat ps), True)])"
    using packet_sizes_cases [OF z] assms(3) by (simp add: word_gt_0)
  have "Suc ((unat sz - 1) div unat ps) \<le> Suc (unat sz - 1)" by (simp add: div_le_dividend)
  also have "\<dots> \<le> k" using assms(6) by simp
  finally have "length (packet_list z) \<le> k" by (simp add: list)
  then have run: "out_run k p mem = Ret (cut_packets buf (packet_list z) pid)"
    using out_run_cut [OF out_new_inv [OF assms(1-4)] assms(5), of k] by (simp add: p)
  have "remain z = unat sz" "0 < packet_size z"
    using z assms(3) by (auto simp: packet_sizes_new_def word_less_nat_alt)
  then have "concat (map fst (cut_packets buf (packet_list z) pid)) = take (unat sz) buf"
    by (simp add: concat_cut_packets packet_list_sum)
  then show ?thesis using run list by auto
qed

lemma out_run_carries:
  assumes "out_packetiser_new sz ps buf pid Never = Ret p" and "unat sz \<le> length buf" and "0 < ps" and "ps \<le> 1023"
    and "length mem = DPRAM_SIZE" and "unat sz + 1 \<le> k"
  shows "\<exists>packets. out_run k p mem = Ret packets \<and> concat (map fst packets) = take (unat sz) buf"
  using out_run_never [OF assms] by blast

section \<open>Properties\<close>



text \<open>C40: an open-ended outgoing transfer whose length is an odd multiple of the packet size panics
instead of sending the empty packet that has to end it: that packet falls to the second buffer, where
the byte after the end of the data is indexed without the check the first buffer has.\<close>

theorem out_packets_zlp_panics:
  assumes "out_packetiser_new sz ps buf pid AsNeeded = Ret p" and "length buf = unat sz" and "0 < ps" and "ps \<le> 1023"
    and "unat sz = (2 * m + 1) * unat ps" and "length mem = DPRAM_SIZE"
  shows "out_run (2 * m + 2) p mem = Panic"
proof -
  have "sz mod ps = 0"
    using assms(5) by (simp add: unat_eq_0 [symmetric] unat_mod)
  then have p: "p = \<lparr>op_next_prep = 0, op_initial_pid = pid, op_sizes = \<lparr>remain = unat sz, packet_size = unat ps,
      need_zero_size_packet = True\<rparr>, op_offset = 0, op_buf = buf\<rparr>"
    using assms(1,3) by (auto simp: out_packetiser_new_def packet_sizes_new_def split: if_splits)
  have "out_run (Suc (2 * m + 1)) p mem = Panic"
    by (rule out_run_zlp [where k = "unat ps"])
      (use assms in \<open>simp_all add: p word_less_nat_alt word_le_nat_alt\<close>)
  then show ?thesis by (simp del: out_run.simps)
qed

theorem out_packets_zlp_panics_witness:
  "out_run 2 \<lparr>op_next_prep = 0, op_initial_pid = False,
      op_sizes = \<lparr>remain = 64, packet_size = 64, need_zero_size_packet = True\<rparr>, op_offset = 0,
      op_buf = replicate 64 7\<rparr> (replicate DPRAM_SIZE 0) = Panic"
proof -
  have "out_packetiser_new 64 64 (replicate 64 7) False AsNeeded = Ret \<lparr>op_next_prep = 0, op_initial_pid = False,
      op_sizes = \<lparr>remain = 64, packet_size = 64, need_zero_size_packet = True\<rparr>, op_offset = 0,
      op_buf = replicate 64 7\<rparr>"
    by (simp add: out_packetiser_new_def packet_sizes_new_def)
  then have "out_run (2 * 0 + 2) \<lparr>op_next_prep = 0, op_initial_pid = False,
      op_sizes = \<lparr>remain = 64, packet_size = 64, need_zero_size_packet = True\<rparr>, op_offset = 0,
      op_buf = replicate 64 7\<rparr> (replicate DPRAM_SIZE 0) = Panic"
    by (rule out_packets_zlp_panics) simp_all
  then show ?thesis by (simp only: mult_zero_right add_0_left)
qed

end
