(* ===== verification/Async_Pool.thy ===== *)
theory Async_Pool
  imports Bit_Set
begin

text \<open>
  \<open>cotton-usb-host/src/async_pool.rs\<close>: a pool of up to 32 equivalent resources, handed out as
  \<open>Pooled\<close> values which return to the pool when they are dropped. The locale \<open>slot_pool\<close> states what
  a user of a pool relies on; it is interpreted on both ways of obtaining a resource, the
  synchronous \<open>try_alloc\<close> and one poll of the future behind \<open>alloc\<close>. The reachable states of a
  pool with the handles its users hold are an inductive relation.
\<close>

section \<open>The pool\<close>

record 'w Pool =
  total :: u8
  allocated :: BitSet
  waker :: "'w option"

text \<open>A \<open>Pooled\<close> is the resource number; the reference to its pool is the state passed along.\<close>

datatype Pooled = Pooled (which: u8)

definition pool_new :: "u8 \<Rightarrow> 'w Pool outcome" where
  "pool_new n = rust_assert (n \<le> 32) (Ret \<lparr>total = n, allocated = bitset_new, waker = None\<rparr>)"

definition alloc_internal :: "'w Pool \<Rightarrow> ('w Pool \<times> u8 option) outcome" where
  "alloc_internal p =
     obind (bitset_set_any (allocated p)) (\<lambda>(bits, m).
       case m of
         None \<Rightarrow> Ret (p, None)
       | Some n \<Rightarrow> if n \<ge> total p then Ret (p, None) else Ret (p\<lparr>allocated := bits\<rparr>, Some n))"

text \<open>
  Returning a resource: the debug assertion, the clearing of the bit, and the waking of the
  registered waker, which is the second component.
\<close>

definition dealloc_internal :: "'w Pool \<Rightarrow> u8 \<Rightarrow> ('w Pool \<times> 'w option) outcome" where
  "dealloc_internal p n =
     obind (bitset_contains (allocated p) n) (\<lambda>present.
     rust_assert present (
     obind (bitset_clear (allocated p) n) (\<lambda>bits.
     Ret (p\<lparr>allocated := bits, waker := None\<rparr>, waker p))))"

definition try_alloc :: "'w Pool \<Rightarrow> ('w Pool \<times> Pooled option) outcome" where
  "try_alloc p = obind (alloc_internal p) (\<lambda>(p', m). Ret (p', map_option Pooled m))"

text \<open>One poll of \<open>PoolFuture\<close> by the task with waker \<open>w\<close>: \<open>None\<close> is \<open>Poll::Pending\<close>.\<close>

definition poolfuture_poll :: "'w Pool \<Rightarrow> 'w \<Rightarrow> ('w Pool \<times> Pooled option) outcome" where
  "poolfuture_poll p w =
     obind (alloc_internal (p\<lparr>waker := Some w\<rparr>)) (\<lambda>(p', m).
       case m of Some n \<Rightarrow> Ret (p', Some (Pooled n)) | None \<Rightarrow> Ret (p', None))"

definition pooled_drop :: "'w Pool \<Rightarrow> Pooled \<Rightarrow> ('w Pool \<times> 'w option) outcome" where
  "pooled_drop p h = dealloc_internal p (which h)"

section \<open>What users of a pool rely on\<close>

text \<open>
  A well-formed pool state has a set of held resources below its capacity. Acquiring hands out a
  resource nobody holds whenever there is one and waits otherwise; releasing a held resource
  succeeds and frees exactly that one.
\<close>

locale slot_pool =
  fixes wf :: "'p \<Rightarrow> bool"
    and held :: "'p \<Rightarrow> nat set"
    and cap :: "'p \<Rightarrow> nat"
    and acquire :: "'p \<Rightarrow> ('p \<times> Pooled option) outcome"
    and release :: "'p \<Rightarrow> Pooled \<Rightarrow> ('p \<times> 'w option) outcome"
  assumes held_below: "wf p \<Longrightarrow> held p \<subseteq> {..<cap p}"
    and acquire_free: "wf p \<Longrightarrow> held p \<noteq> {..<cap p} \<Longrightarrow>
      \<exists>p' n. acquire p = Ret (p', Some (Pooled n)) \<and> wf p' \<and> cap p' = cap p \<and>
        unat n < cap p \<and> unat n \<notin> held p \<and> held p' = insert (unat n) (held p)"
    and acquire_full: "wf p \<Longrightarrow> held p = {..<cap p} \<Longrightarrow>
      \<exists>p'. acquire p = Ret (p', None) \<and> wf p' \<and> cap p' = cap p \<and> held p' = held p"
    and release_held: "wf p \<Longrightarrow> unat (which h) \<in> held p \<Longrightarrow>
      \<exists>p' w. release p h = Ret (p', w) \<and> wf p' \<and> cap p' = cap p \<and> held p' = held p - {unat (which h)}"
begin

text \<open>The handles in the users' hands are exactly the held resources, each held once.\<close>

definition owners_ok :: "'p \<Rightarrow> Pooled list \<Rightarrow> bool" where
  "owners_ok p hs \<longleftrightarrow> wf p \<and> distinct hs \<and> (unat \<circ> which) ` set hs = held p"

lemma owners_inj: "inj_on (\<lambda>h. unat (which h)) A"
  by (auto simp: inj_on_def word_unat_eq_iff [symmetric] intro: Pooled.expand)

lemma owners_held: "owners_ok p hs \<Longrightarrow> h \<in> set hs \<Longrightarrow> unat (which h) \<in> held p"
  by (auto simp: owners_ok_def)

lemma acquire_total: "wf p \<Longrightarrow> acquire p \<noteq> Panic"
  using acquire_free acquire_full by (cases "held p = {..<cap p}") fastforce+

lemma acquire_cap: "wf p \<Longrightarrow> acquire p = Ret (p', m) \<Longrightarrow> wf p' \<and> cap p' = cap p"
  using acquire_free [of p] acquire_full [of p] by (cases "held p = {..<cap p}") auto

lemma acquire_owners:
  assumes "owners_ok p hs" and "acquire p = Ret (p', Some h)"
  shows "owners_ok p' (h # hs)" and "h \<notin> set hs" and "unat (which h) < cap p"
proof -
  have "wf p" and "held p \<noteq> {..<cap p}"
    using assms acquire_full [of p] by (auto simp: owners_ok_def)
  then obtain n where n: "h = Pooled n" "wf p'" "unat n < cap p" "unat n \<notin> held p"
      "held p' = insert (unat n) (held p)"
    using acquire_free [of p] assms(2) by auto
  show fresh: "h \<notin> set hs" using owners_held [OF assms(1), of h] n by auto
  show "unat (which h) < cap p" using n by simp
  show "owners_ok p' (h # hs)" using assms(1) n fresh by (auto simp: owners_ok_def)
qed

lemma acquire_wait_owners:
  "owners_ok p hs \<Longrightarrow> acquire p = Ret (p', None) \<Longrightarrow> owners_ok p' hs \<and> held p = {..<cap p}"
  using acquire_free [of p] acquire_full [of p] by (fastforce simp: owners_ok_def)

lemma release_owners:
  assumes "owners_ok p hs" and "h \<in> set hs" and "release p h = Ret (p', w)"
  shows "owners_ok p' (remove1 h hs)"
proof -
  have held: "unat (which h) \<in> held p" using owners_held assms by blast
  then have "wf p'" and eq: "held p' = held p - {unat (which h)}"
    using release_held [of p h] assms by (auto simp: owners_ok_def)
  moreover have "(\<lambda>h. unat (which h)) ` set (remove1 h hs) = held p - {unat (which h)}"
    using assms(1) inj_onD [OF owners_inj [of UNIV]] by (auto simp: owners_ok_def)
  ultimately show ?thesis using assms(1) by (simp add: owners_ok_def)
qed

lemma release_total: "owners_ok p hs \<Longrightarrow> h \<in> set hs \<Longrightarrow> release p h \<noteq> Panic"
  using release_held [of p h] owners_held [of p hs h] by (auto simp: owners_ok_def)

lemma owners_count: "owners_ok p hs \<Longrightarrow> card (held p) = length hs"
  using card_image [OF owners_inj, of "set hs"] distinct_card [of hs] by (auto simp: owners_ok_def)

lemma acquire_succeeds_iff:
  assumes "owners_ok p hs"
  shows "(\<exists>p' h. acquire p = Ret (p', Some h)) \<longleftrightarrow> length hs < cap p"
proof -
  have sub: "held p \<subseteq> {..<cap p}" and wf: "wf p"
    using assms held_below by (auto simp: owners_ok_def)
  have len: "length hs = card (held p)" using owners_count [OF assms] by simp
  show ?thesis
  proof (cases "held p = {..<cap p}")
    case True
    then have "length hs = cap p" using len by simp
    then show ?thesis using acquire_full [OF wf True] by auto
  next
    case False
    then have "length hs < cap p" using sub len psubset_card_mono [of "{..<cap p}" "held p"] by auto
    then show ?thesis using acquire_free [OF wf False] by blast
  qed
qed

end

section \<open>The pool meets the contract\<close>

definition pool_wf :: "'w Pool \<Rightarrow> bool" where
  "pool_wf p \<longleftrightarrow> total p \<le> 32 \<and> members (allocated p) \<subseteq> {..<unat (total p)}"

definition pool_held :: "'w Pool \<Rightarrow> nat set" where
  "pool_held p = members (allocated p)"

definition pool_cap :: "'w Pool \<Rightarrow> nat" where
  "pool_cap p = unat (total p)"

lemmas pool_abs_defs = pool_wf_def pool_held_def pool_cap_def

lemma pool_cap_32: "pool_wf p \<Longrightarrow> pool_cap p \<le> 32"
  by (simp add: pool_abs_defs word_le_nat_alt)

lemma alloc_internal_free:
  assumes "pool_wf p" and "pool_held p \<noteq> {..<pool_cap p}"
  shows "\<exists>p' n. alloc_internal p = Ret (p', Some n) \<and> pool_wf p' \<and> pool_cap p' = pool_cap p \<and>
    unat n < pool_cap p \<and> unat n \<notin> pool_held p \<and> pool_held p' = insert (unat n) (pool_held p) \<and>
    waker p' = waker p"
proof (cases "allocated p" rule: bitset_set_any_cases)
  case full
  then have "{0..<32} \<subseteq> {..<unat (total p)}" using assms(1) by (simp add: pool_abs_defs)
  then have "unat (total p) = 32"
    using pool_cap_32 [OF assms(1)] by (auto simp: pool_cap_def atLeast0LessThan)
  then show ?thesis using full assms by (auto simp: pool_abs_defs atLeast0LessThan)
next
  case (added n s')
  have "unat n < unat (total p)"
  proof (rule ccontr)
    assume "\<not> unat n < unat (total p)"
    then have "{..<pool_cap p} \<subseteq> pool_held p"
      using added(4) by (auto simp: pool_abs_defs)
    then show False using assms by (auto simp: pool_abs_defs)
  qed
  then show ?thesis
    using added assms by (auto simp: alloc_internal_def pool_abs_defs word_le_nat_alt)
qed

lemma alloc_internal_full:
  assumes "pool_wf p" and "pool_held p = {..<pool_cap p}"
  shows "alloc_internal p = Ret (p, None)"
proof (cases "allocated p" rule: bitset_set_any_cases)
  case full
  then show ?thesis by (simp add: alloc_internal_def)
next
  case (added n s')
  then have "\<not> unat n < unat (total p)" using assms by (auto simp: pool_abs_defs)
  then show ?thesis using added by (simp add: alloc_internal_def word_le_nat_alt)
qed

lemma dealloc_internal_held:
  assumes "pool_wf p" and "unat n \<in> pool_held p"
  shows "\<exists>p'. dealloc_internal p n = Ret (p', waker p) \<and> pool_wf p' \<and> pool_cap p' = pool_cap p \<and>
    pool_held p' = pool_held p - {unat n} \<and> waker p' = None"
proof -
  have "n < 32" using assms members_subset [of "allocated p"] by (auto simp: pool_held_def u8_less_32)
  then obtain s' where "bitset_clear (allocated p) n = Ret s'"
      and "members s' = members (allocated p) - {unat n}"
    using bitset_clear_members by blast
  then show ?thesis
    using assms \<open>n < 32\<close> by (auto simp: dealloc_internal_def bitset_contains_members pool_abs_defs)
qed

interpretation try_pool: slot_pool pool_wf pool_held pool_cap try_alloc pooled_drop
proof unfold_locales
  fix p :: "'w Pool" and h
  show "pool_wf p \<Longrightarrow> pool_held p \<subseteq> {..<pool_cap p}" by (simp add: pool_abs_defs)
  show "pool_wf p \<Longrightarrow> unat (which h) \<in> pool_held p \<Longrightarrow>
      \<exists>p' w. pooled_drop p h = Ret (p', w) \<and> pool_wf p' \<and> pool_cap p' = pool_cap p \<and>
        pool_held p' = pool_held p - {unat (which h)}"
    using dealloc_internal_held [of p "which h"] by (auto simp: pooled_drop_def)
  show "pool_wf p \<Longrightarrow> pool_held p \<noteq> {..<pool_cap p} \<Longrightarrow>
      \<exists>p' n. try_alloc p = Ret (p', Some (Pooled n)) \<and> pool_wf p' \<and> pool_cap p' = pool_cap p \<and>
        unat n < pool_cap p \<and> unat n \<notin> pool_held p \<and> pool_held p' = insert (unat n) (pool_held p)"
    using alloc_internal_free [of p] by (auto simp: try_alloc_def)
  show "pool_wf p \<Longrightarrow> pool_held p = {..<pool_cap p} \<Longrightarrow>
      \<exists>p'. try_alloc p = Ret (p', None) \<and> pool_wf p' \<and> pool_cap p' = pool_cap p \<and>
        pool_held p' = pool_held p"
    using alloc_internal_full [of p] by (auto simp: try_alloc_def)
qed

lemma inj_unat_word: "inj (unat :: 'a::len word \<Rightarrow> nat)"
  by (simp add: inj_on_def word_unat_eq_iff [symmetric])

lemma pool_abs_waker [simp]:
  "pool_wf (p\<lparr>waker := w\<rparr>) = pool_wf p" "pool_held (p\<lparr>waker := w\<rparr>) = pool_held p"
  "pool_cap (p\<lparr>waker := w\<rparr>) = pool_cap p"
  by (simp_all add: pool_abs_defs)

interpretation poll_pool: slot_pool pool_wf pool_held pool_cap "\<lambda>p. poolfuture_poll p w" pooled_drop
  for w :: 'w
proof unfold_locales
  fix p :: "'w Pool" and h
  show "pool_wf p \<Longrightarrow> pool_held p \<subseteq> {..<pool_cap p}" by (rule try_pool.held_below)
  show "pool_wf p \<Longrightarrow> unat (which h) \<in> pool_held p \<Longrightarrow>
      \<exists>p' w. pooled_drop p h = Ret (p', w) \<and> pool_wf p' \<and> pool_cap p' = pool_cap p \<and>
        pool_held p' = pool_held p - {unat (which h)}"
    by (rule try_pool.release_held)
  show "pool_wf p \<Longrightarrow> pool_held p \<noteq> {..<pool_cap p} \<Longrightarrow>
      \<exists>p' n. poolfuture_poll p w = Ret (p', Some (Pooled n)) \<and> pool_wf p' \<and> pool_cap p' = pool_cap p \<and>
        unat n < pool_cap p \<and> unat n \<notin> pool_held p \<and> pool_held p' = insert (unat n) (pool_held p)"
    using alloc_internal_free [of "p\<lparr>waker := Some w\<rparr>"] by (auto simp: poolfuture_poll_def)
  show "pool_wf p \<Longrightarrow> pool_held p = {..<pool_cap p} \<Longrightarrow>
      \<exists>p'. poolfuture_poll p w = Ret (p', None) \<and> pool_wf p' \<and> pool_cap p' = pool_cap p \<and>
        pool_held p' = pool_held p"
    using alloc_internal_full [of "p\<lparr>waker := Some w\<rparr>"] by (auto simp: poolfuture_poll_def)
qed

section \<open>Pools in use\<close>

text \<open>
  The states a pool and the handles held on it can reach: every user may obtain a handle either
  way, be told to wait, or drop a handle it holds (Rust's ownership lets a handle be dropped once).
\<close>

inductive pool_reach :: "'w Pool \<Rightarrow> Pooled list \<Rightarrow> bool" where
  reach_new: "pool_new n = Ret p \<Longrightarrow> pool_reach p []"
| reach_try: "pool_reach p hs \<Longrightarrow> try_alloc p = Ret (p', Some h) \<Longrightarrow> pool_reach p' (h # hs)"
| reach_try_none: "pool_reach p hs \<Longrightarrow> try_alloc p = Ret (p', None) \<Longrightarrow> pool_reach p' hs"
| reach_poll: "pool_reach p hs \<Longrightarrow> poolfuture_poll p w = Ret (p', Some h) \<Longrightarrow> pool_reach p' (h # hs)"
| reach_pending: "pool_reach p hs \<Longrightarrow> poolfuture_poll p w = Ret (p', None) \<Longrightarrow> pool_reach p' hs"
| reach_drop: "pool_reach p hs \<Longrightarrow> h \<in> set hs \<Longrightarrow> pooled_drop p h = Ret (p', w) \<Longrightarrow>
    pool_reach p' (remove1 h hs)"

lemma pool_owners_new: "pool_new n = Ret p \<Longrightarrow> try_pool.owners_ok p []"
  by (auto simp: pool_new_def rust_assert_def try_pool.owners_ok_def pool_abs_defs split: if_splits)

lemma pool_reach_owners: "pool_reach p hs \<Longrightarrow> try_pool.owners_ok p hs"
proof (induction rule: pool_reach.induct)
  case (reach_new n p)
  then show ?case by (rule pool_owners_new)
next
  case (reach_try p hs p' h)
  then show ?case by (blast intro: try_pool.acquire_owners)
next
  case (reach_try_none p hs p')
  then show ?case by (blast dest: try_pool.acquire_wait_owners)
next
  case (reach_poll p hs w p' h)
  then show ?case by (blast intro: poll_pool.acquire_owners)
next
  case (reach_pending p hs w p')
  then show ?case by (blast dest: poll_pool.acquire_wait_owners)
next
  case (reach_drop p hs h p' w)
  then show ?case by (blast intro: try_pool.release_owners)
qed


section \<open>Properties\<close>

text \<open>C13: whatever the users of a pool do, the resources they hold at any moment are different from
one another, each is one of the pool's resources and is marked as taken, and there are never more
of them than the pool has.\<close>

theorem pool_mutual_exclusion:
  assumes "pool_reach p hs"
  shows "distinct (map which hs) \<and> (\<forall>h\<in>set hs. which h < total p) \<and>
    bitset_iter (allocated p) = sort (map which hs) \<and> length hs \<le> unat (total p)"
proof -
  have ok: "try_pool.owners_ok p hs" using pool_reach_owners assms .
  then have held: "unat ` set (map which hs) = members (allocated p)" and wf: "pool_wf p"
    and d: "distinct hs"
    by (auto simp: try_pool.owners_ok_def pool_held_def image_image)
  have dist: "distinct (map which hs)" using d by (simp add: distinct_map inj_on_def Pooled.expand)
  have below: "\<forall>h\<in>set hs. which h < total p"
    using held wf by (auto simp: pool_abs_defs word_less_nat_alt)
  have "length hs = card (members (allocated p))"
    using try_pool.owners_count [OF ok] by (simp add: pool_held_def)
  also have "\<dots> \<le> unat (total p)"
    using wf card_mono [of "{..<unat (total p)}" "members (allocated p)"] by (simp add: pool_abs_defs)
  finally have len: "length hs \<le> unat (total p)" .
  have "n \<in> set (bitset_iter (allocated p)) \<longleftrightarrow> n \<in> set (map which hs)" for n
    unfolding set_bitset_iter held [symmetric] by (simp only: inj_image_mem_iff [OF inj_unat_word])
  then have "set (bitset_iter (allocated p)) = set (map which hs)" by blast
  then have "bitset_iter (allocated p) = sort (map which hs)"
    using dist by (intro sorted_distinct_set_unique) (simp_all add: sorted_bitset_iter)
  with dist below len show ?thesis by blast
qed

lemma pool_reach_example: "pool_reach \<lparr>total = 1, allocated = BitSet 1, waker = (None :: unit option)\<rparr> [Pooled 0]"
proof -
  have "pool_reach \<lparr>total = 1, allocated = bitset_new, waker = (None :: unit option)\<rparr> []"
    by (rule reach_new [of 1]) (simp add: pool_new_def)
  moreover have "try_alloc \<lparr>total = 1, allocated = bitset_new, waker = (None :: unit option)\<rparr> =
      Ret (\<lparr>total = 1, allocated = BitSet 1, waker = None\<rparr>, Some (Pooled 0))" by code_simp
  ultimately show ?thesis by (rule reach_try)
qed

theorem pool_mutual_exclusion_witness:
  "bitset_iter (BitSet 1) = [0] \<and> (0 :: u8) < 1"
  using pool_mutual_exclusion [OF pool_reach_example] by simp

text \<open>In every state its users can bring a pool into, no operation of the pool panics (the
assertions on bit numbers and the debug assertion that a returned resource was taken hold), an
attempt to obtain a resource succeeds exactly when fewer resources are held than the pool has, and
it never succeeds with a resource somebody holds.\<close>

theorem pool_ops_total:
  assumes "pool_reach p hs"
  shows "try_alloc p \<noteq> Panic \<and> poolfuture_poll p w \<noteq> Panic \<and> (\<forall>h\<in>set hs. pooled_drop p h \<noteq> Panic) \<and>
    ((\<exists>p' h. try_alloc p = Ret (p', Some h) \<and> h \<notin> set hs) \<longleftrightarrow> length hs < unat (total p)) \<and>
    ((\<exists>p' h. poolfuture_poll p w = Ret (p', Some h) \<and> h \<notin> set hs) \<longleftrightarrow> length hs < unat (total p))"
proof -
  have ok: "try_pool.owners_ok p hs" using pool_reach_owners assms .
  then have "pool_wf p" by (simp add: try_pool.owners_ok_def)
  then have "try_alloc p \<noteq> Panic" "poolfuture_poll p w \<noteq> Panic"
    by (auto dest: try_pool.acquire_total poll_pool.acquire_total)
  moreover have "\<forall>h\<in>set hs. pooled_drop p h \<noteq> Panic" using try_pool.release_total [OF ok] by blast
  moreover have "(\<exists>p' h. try_alloc p = Ret (p', Some h) \<and> h \<notin> set hs) \<longleftrightarrow> length hs < unat (total p)"
    using try_pool.acquire_succeeds_iff [OF ok] try_pool.acquire_owners(2) [OF ok]
    by (auto simp: pool_cap_def)
  moreover have "(\<exists>p' h. poolfuture_poll p w = Ret (p', Some h) \<and> h \<notin> set hs) \<longleftrightarrow> length hs < unat (total p)"
    using poll_pool.acquire_succeeds_iff [OF ok, of w] poll_pool.acquire_owners(2) [OF ok, of w]
    unfolding pool_cap_def by blast
  ultimately show ?thesis by blast
qed

theorem pool_ops_total_witness:
  "\<not> (\<exists>p' h. try_alloc \<lparr>total = 1, allocated = BitSet 1, waker = (None :: unit option)\<rparr> = Ret (p', Some h)
     \<and> h \<notin> set [Pooled 0])"
  using pool_ops_total [OF pool_reach_example, of "()"] by simp

text \<open>A task that finds the pool empty is woken when a resource comes back only if no other task
has found the pool empty in the meantime: the pool remembers one waker, and of two waiting tasks
the drop of a resource wakes the second and forgets the first.\<close>

theorem pool_drop_wakes_last_waiter:
  assumes "pool_reach p hs" and "h \<in> set hs"
    and "poolfuture_poll p w1 = Ret (p1, None)" and "poolfuture_poll p1 w2 = Ret (p2, None)"
  shows "\<exists>p3. pooled_drop p2 h = Ret (p3, Some w2) \<and> waker p3 = None"
proof -
  have reach: "pool_reach p2 hs" using assms pool_reach.reach_pending by metis
  have "waker p2 = Some w2"
    using assms(4) pool_reach_owners [OF pool_reach.reach_pending [OF assms(1,3)]]
    by (auto simp: poolfuture_poll_def obind_Ret_iff alloc_internal_def split: option.splits if_splits)
  moreover have "pool_wf p2" and "unat (which h) \<in> pool_held p2"
    using pool_reach_owners [OF reach] try_pool.owners_held assms(2)
    by (auto simp: try_pool.owners_ok_def)
  ultimately show ?thesis
    using dealloc_internal_held [of p2 "which h"] by (auto simp: pooled_drop_def)
qed

theorem pool_drop_wakes_last_waiter_witness:
  "\<exists>p3. pooled_drop \<lparr>total = 1, allocated = BitSet 1, waker = Some True\<rparr> (Pooled 0) = Ret (p3, Some True)
     \<and> waker p3 = None"
proof -
  let ?p = "\<lambda>w. \<lparr>total = 1, allocated = BitSet 1, waker = (w :: bool option)\<rparr>"
  have new: "pool_reach \<lparr>total = 1, allocated = bitset_new, waker = (None :: bool option)\<rparr> []"
    by (rule reach_new [of 1]) (simp add: pool_new_def)
  have "try_alloc \<lparr>total = 1, allocated = bitset_new, waker = (None :: bool option)\<rparr> =
      Ret (?p None, Some (Pooled 0))" by code_simp
  from reach_try [OF new this] have "pool_reach (?p None) [Pooled 0]" .
  moreover have "poolfuture_poll (?p None) False = Ret (?p (Some False), None)" by code_simp
  moreover have "poolfuture_poll (?p (Some False)) True = Ret (?p (Some True), None)" by code_simp
  ultimately show ?thesis
    using pool_drop_wakes_last_waiter [of "?p None" "[Pooled 0]" "Pooled 0" False _ True] by simp
qed

end
