(* ===== verification/Rp2040.thy ===== *)
theory Rp2040
  imports Rp2040_Packets Async_Pool Usb_Bus
begin

text \<open>
  \<open>cotton-usb-host/src/host/rp2040.rs\<close>: the host-controller driver for the RP2040. The state is the
  pools of pipes and the registers and memory the driver works with. What the hardware does while
  the driver awaits an interrupt is a list of responses: each gives the status bits the driver is
  woken with and what the buffer-control register and the USB memory hold by then. When the list is
  used up nothing answers any more, and the hardware reports a receive timeout. Writes that
  acknowledge or enable interrupts, pacing delays and log output are left out. The driver's contract
  \<open>usb_driver\<close> is proved at the end.
\<close>

section \<open>Hardware\<close>

record SieStatus =
  trans_complete :: bool
  data_seq_error :: bool
  stall_rec :: bool
  rx_overflow :: bool
  rx_timeout :: bool
  bit_stuff_error :: bool
  crc_error :: bool

definition sie_status_zero :: SieStatus where
  "sie_status_zero = \<lparr>trans_complete = False, data_seq_error = False, stall_rec = False, rx_overflow = False,
     rx_timeout = False, bit_stuff_error = False, crc_error = False\<rparr>"

record HwResponse =
  resp_status :: SieStatus
  resp_hw :: HwBuffers

record EpxControl =
  buffer_address :: u16
  double_buffered :: bool
  interrupt_per_buff :: bool
  endpoint_type :: EndpointType
  ep_enable :: bool

text \<open>One of the 15 endpoints that the hardware polls by itself, used for interrupt pipes.\<close>

record IntEndpoint =
  ie_address :: u8
  ie_endpoint :: u8
  ie_poll_interval :: u16
  ie_buffer_address :: u16
  ie_control :: EpBufferControl
  ie_memory :: "u8 list"

text \<open>The configuration of the USB block: multiplexing, power, mode, and the interrupts that are enabled.\<close>

record UsbRegs =
  to_phy :: bool
  softcon :: bool
  vbus_detect :: bool
  vbus_detect_override_en :: bool
  sim_timing :: bool
  host_ndevice :: bool
  controller_en :: bool
  pulldown_en :: bool
  vbus_en :: bool
  keep_alive_en :: bool
  sof_en :: bool
  irq_unmasked :: bool
  ur_inte :: u32

record Rp2040 =
  usb_regs :: UsbRegs
  bulk_pipes :: "unit Pool"
  control_pipes :: "unit Pool"
  hw :: HwBuffers
  epx_control :: EpxControl
  setup_packet :: SetupPacket
  addr_endp :: "u8 \<times> u8"
  sie_receive_data :: bool
  sie_send_data :: bool
  sie_send_setup :: bool
  sie_start_trans :: bool
  sie_reset_bus :: bool
  int_endpoints :: "IntEndpoint list"
  responses :: "HwResponse list"

section \<open>Interrupts and detection of devices\<close>

text \<open>
  \<open>on_irq\<close>: from the interrupt status, the buffer status and the interrupts enabled, which pipes'
  tasks and whether the detection task are woken, and which interrupts stay enabled.
\<close>

definition on_irq :: "u32 \<Rightarrow> bool \<Rightarrow> u32 \<Rightarrow> u32 \<Rightarrow> u32 \<Rightarrow> nat list \<times> bool \<times> u32" where
  "on_irq ints buff_status_set bs ints_after inte =
     (let buffs = (if buff_status_set then filter (\<lambda>i. bs AND push_bit (i * 2) 3 \<noteq> 0) [0..<15] else []);
          ctrl = (if ints AND 0x458 \<noteq> 0 then [0] else [])
      in (buffs @ ctrl, ints AND 1 \<noteq> 0, inte AND NOT ints_after))"

text \<open>
  One poll of \<open>Rp2040ControlEndpoint\<close>, which a transfer waits for: from the raw interrupts, the status
  register and the interrupts enabled, the status if it is ready, and the interrupts enabled afterwards.
  The three interrupts it enables are bits 10 (stall), 6 (timeout) and 3 (transaction complete).
\<close>

definition control_endpoint_poll :: "u32 \<Rightarrow> 'st \<Rightarrow> u32 \<Rightarrow> 'st option \<times> u32" where
  "control_endpoint_poll intr status inte =
     (if intr AND 0x458 \<noteq> 0 then (Some status, inte) else (None, inte OR 0x448))"

text \<open>
  An interrupt wakes a waiting transfer exactly if the transfer is then ready. The errors of bits 5, 7, 8
  and 9 (data sequence, overflow, bit stuffing, CRC), which a transfer enables and checks for, do neither
  when they occur alone: the interrupt handler only disables them, and the transfer goes on waiting.
\<close>

lemma control_irq_wakes_iff_ready:
  "0 \<in> set (fst (on_irq intr False bs after inte)) \<longleftrightarrow> fst (control_endpoint_poll intr status inte) = Some status"
  by (simp add: on_irq_def control_endpoint_poll_def Let_def)

lemma lone_errors_missed:
  assumes "intr \<in> {0x20, 0x80, 0x100, 0x200}"
  shows "fst (control_endpoint_poll intr status inte) = None \<and>
    on_irq intr False bs intr inte = ([], False, inte AND NOT intr)"
  using assms by (auto simp: on_irq_def control_endpoint_poll_def Let_def)

record DeviceDetect =
  dd_status :: DeviceStatus

definition device_detect_new :: DeviceDetect where
  "device_detect_new = \<lparr>dd_status = Absent\<rparr>"

text \<open>One poll of the detection stream, given the speed field of the status register.\<close>

definition device_detect_poll :: "2 word \<Rightarrow> DeviceDetect \<Rightarrow> DeviceDetect \<times> DeviceStatus option" where
  "device_detect_poll speed d =
     (let device_status = (if speed = 0 then Absent else if speed = 1 then Present Low1_5 else Present Full12)
      in if device_status \<noteq> dd_status d then (d\<lparr>dd_status := device_status\<rparr>, Some device_status) else (d, None))"

text \<open>The events of the stream over a sequence of polls.\<close>

definition speed_status :: "2 word \<Rightarrow> DeviceStatus" where
  "speed_status speed = (if speed = 0 then Absent else if speed = 1 then Present Low1_5 else Present Full12)"

fun detect_run :: "DeviceDetect \<Rightarrow> 2 word list \<Rightarrow> DeviceStatus list" where
  "detect_run d [] = []"
| "detect_run d (speed # speeds) =
     (case device_detect_poll speed d of
        (d', None) \<Rightarrow> detect_run d' speeds
      | (d', Some e) \<Rightarrow> e # detect_run d' speeds)"

lemma detect_run_changes: "detect_run d speeds = tl (remdups_adj (dd_status d # map speed_status speeds))"
proof (induction d speeds rule: detect_run.induct)
  case (2 d speed speeds)
  then show ?case
    by (auto simp: device_detect_poll_def Let_def speed_status_def split: if_splits)
qed simp

section \<open>Pipes\<close>

record Pipe =
  pipe_pooled :: Pooled
  pipe_which :: u8

definition pipe_new :: "Pooled \<Rightarrow> u8 \<Rightarrow> Pipe outcome" where
  "pipe_new pooled offset =
     (if unat (which pooled) + unat offset \<ge> 256 then Panic
      else Ret \<lparr>pipe_pooled = pooled, pipe_which = which pooled + offset\<rparr>)"

text \<open>
  One poll of the future of \<open>alloc_pipe\<close> yields a pipe or is pending. Inside a transfer, waiting for a
  pipe that nobody returns is a panic of the model, so that the proofs show that it does not happen.
\<close>

definition poll_alloc_pipe :: "EndpointType \<Rightarrow> Rp2040 \<Rightarrow> (Rp2040 \<times> Pipe option) outcome" where
  "poll_alloc_pipe ty s =
     (if ty = Control then
        obind (poolfuture_poll (control_pipes s) ()) (\<lambda>(p, h). case h of
          None \<Rightarrow> Ret (s\<lparr>control_pipes := p\<rparr>, None)
        | Some h \<Rightarrow> obind (pipe_new h 0) (\<lambda>pipe. Ret (s\<lparr>control_pipes := p\<rparr>, Some pipe)))
      else
        obind (poolfuture_poll (bulk_pipes s) ()) (\<lambda>(p, h). case h of
          None \<Rightarrow> Ret (s\<lparr>bulk_pipes := p\<rparr>, None)
        | Some h \<Rightarrow> obind (pipe_new h 1) (\<lambda>pipe. Ret (s\<lparr>bulk_pipes := p\<rparr>, Some pipe))))"

definition alloc_pipe :: "EndpointType \<Rightarrow> Rp2040 \<Rightarrow> (Rp2040 \<times> Pipe) outcome" where
  "alloc_pipe ty s =
     obind (poll_alloc_pipe ty s) (\<lambda>(s', pipe). case pipe of None \<Rightarrow> Panic | Some pipe \<Rightarrow> Ret (s', pipe))"

definition try_alloc_pipe :: "EndpointType \<Rightarrow> Rp2040 \<Rightarrow> (Rp2040 \<times> Pipe option) outcome" where
  "try_alloc_pipe ty s =
     (if ty = Control then
        obind (try_alloc (control_pipes s)) (\<lambda>(p, h). case h of
          None \<Rightarrow> Ret (s\<lparr>control_pipes := p\<rparr>, None)
        | Some h \<Rightarrow> obind (pipe_new h 0) (\<lambda>pipe. Ret (s\<lparr>control_pipes := p\<rparr>, Some pipe)))
      else
        obind (try_alloc (bulk_pipes s)) (\<lambda>(p, h). case h of
          None \<Rightarrow> Ret (s\<lparr>bulk_pipes := p\<rparr>, None)
        | Some h \<Rightarrow> obind (pipe_new h 1) (\<lambda>pipe. Ret (s\<lparr>bulk_pipes := p\<rparr>, Some pipe))))"

text \<open>The drop of a control pipe at the end of a transfer.\<close>

definition drop_control_pipe :: "Pipe \<Rightarrow> Rp2040 \<Rightarrow> Rp2040 outcome" where
  "drop_control_pipe pipe s =
     obind (pooled_drop (control_pipes s) (pipe_pooled pipe)) (\<lambda>(p, w). Ret (s\<lparr>control_pipes := p\<rparr>))"

section \<open>Interrupt pipes\<close>

record InterruptPipe =
  itp_pipe :: Pipe
  itp_max_packet_size :: u16
  itp_data_toggle :: bool

definition interrupt_pipe :: "Pipe \<Rightarrow> u8 \<Rightarrow> u8 \<Rightarrow> u16 \<Rightarrow> u8 \<Rightarrow> Rp2040 \<Rightarrow> (Rp2040 \<times> InterruptPipe) outcome" where
  "interrupt_pipe pipe a endpoint max_packet_size interval_ms s =
     (let n = unat (pipe_which pipe) in
      if n = 0 then Panic
      else obind (index (int_endpoints s) (n - 1)) (\<lambda>ie.
        Ret (s\<lparr>int_endpoints := (int_endpoints s)[n - 1 :=
               ie\<lparr>ie_address := a, ie_endpoint := endpoint,
                  ie_poll_interval := min (ucast interval_ms) 9,
                  ie_buffer_address := 0x200 + word_of_nat (n * 128),
                  ie_control := ep_buffer_control_zero\<lparr>length_0 := ucast max_packet_size,
                    last_0 := True, available_0 := True\<rparr>\<rparr>]\<rparr>,
             \<lparr>itp_pipe = pipe, itp_max_packet_size = max_packet_size, itp_data_toggle = False\<rparr>)))"

definition interrupt_poll :: "InterruptPipe \<Rightarrow> Rp2040 \<Rightarrow> (Rp2040 \<times> InterruptPipe \<times> InterruptPacket option) outcome"
  where
  "interrupt_poll itp s =
     (let n = unat (pipe_which (itp_pipe itp)) in
      if n = 0 then Panic
      else obind (index (int_endpoints s) (n - 1)) (\<lambda>ie.
        if full_0 (ie_control ie) then
          let sz = min (unat (length_0 (ie_control ie))) 64; toggle = (\<not> itp_data_toggle itp) in
          obind (slice (ie_memory ie) 0 sz) (\<lambda>bytes.
          Ret (s\<lparr>int_endpoints := (int_endpoints s)[n - 1 :=
                 ie\<lparr>ie_control := ep_buffer_control_zero\<lparr>pid_0 := toggle,
                   length_0 := ucast (itp_max_packet_size itp), last_0 := True, available_0 := True\<rparr>\<rparr>]\<rparr>,
               itp\<lparr>itp_data_toggle := toggle\<rparr>,
               Some (interrupt_packet_new\<lparr>ip_address := ie_address ie, ip_endpoint := ie_endpoint ie,
                 ip_size := word_of_nat sz, ip_data := overwrite (replicate 64 0) 0 bytes\<rparr>)))
        else Ret (s, itp, None)))"

section \<open>Transfers\<close>

text \<open>What the driver finds when it is woken: the next response, or a timeout.\<close>

definition timeout_response :: "HwBuffers \<Rightarrow> HwResponse" where
  "timeout_response h = \<lparr>resp_status = sie_status_zero\<lparr>rx_timeout := True\<rparr>, resp_hw = h\<rparr>"

text \<open>The checks of the status bits after a wake-up, in their order.\<close>

definition status_error :: "SieStatus \<Rightarrow> UsbError option" where
  "status_error st =
     (if data_seq_error st then Some DataSeqError
      else if stall_rec st then Some Stall
      else if rx_overflow st then Some Overflow
      else if rx_timeout st then Some Timeout
      else if bit_stuff_error st then Some BitStuffError
      else if crc_error st then Some CrcError
      else None)"

fun setup_loop :: "HwResponse list \<Rightarrow> (Rp2040, UsbError, unit) prog" where
  "setup_loop [] s = Ret (s\<lparr>responses := []\<rparr>, Err Timeout)"
| "setup_loop (r # rs) s =
     (let s' = s\<lparr>hw := resp_hw r, responses := rs\<rparr> in
      if trans_complete (resp_status r) then Ret (s', Ok ())
      else case status_error (resp_status r) of
        Some e \<Rightarrow> Ret (s', Err e)
      | None \<Rightarrow> setup_loop rs s')"

definition send_setup :: "u8 \<Rightarrow> SetupPacket \<Rightarrow> (Rp2040, UsbError, unit) prog" where
  "send_setup a pkt = (\<lambda>s.
     let s' = s\<lparr>
       epx_control := \<lparr>buffer_address = 0x180, double_buffered = False, interrupt_per_buff = False,
         endpoint_type = Control, ep_enable = False\<rparr>,
       hw := (hw s)\<lparr>epbc := ep_buffer_control_zero\<rparr>,
       setup_packet := pkt,
       addr_endp := (a, 0),
       sie_receive_data := False, sie_send_data := False, sie_send_setup := True, sie_start_trans := True\<rparr>
     in setup_loop (responses s') s')"

text \<open>\<open>prepare\<close> and \<open>retire\<close> as the transfer loop calls them, with the count of packets in flight.\<close>

definition prepare_if ::
    "('p \<Rightarrow> HwBuffers \<Rightarrow> ('p \<times> HwBuffers \<times> bool) outcome) \<Rightarrow> nat \<times> 'p \<times> HwBuffers \<Rightarrow> (nat \<times> 'p \<times> HwBuffers) outcome"
  where
  "prepare_if prep = (\<lambda>(in_flight, p, h).
     if in_flight < 2 then
       obind (prep p h) (\<lambda>(p', h', ok). Ret (if ok then in_flight + 1 else in_flight, p', h'))
     else Ret (in_flight, p, h))"

definition retire_if ::
    "('d \<Rightarrow> HwBuffers \<Rightarrow> ('d \<times> bool) outcome) \<Rightarrow> HwBuffers \<Rightarrow> nat \<times> 'd \<Rightarrow> (nat \<times> 'd) outcome" where
  "retire_if ret h = (\<lambda>(in_flight, d).
     if in_flight > 0 then
       obind (ret d h) (\<lambda>(d', ok). Ret (if ok then in_flight - 1 else in_flight, d'))
     else Ret (in_flight, d))"

text \<open>
  The loop of \<open>control_transfer_inner\<close>: prepare packets, start the transfer the first time, wait, and
  act on the status. A transfer that ends returns the depacketiser with its result.
\<close>

definition start_transfer :: "Direction \<Rightarrow> bool \<Rightarrow> Rp2040 \<Rightarrow> Rp2040" where
  "start_transfer dir started s =
     (if started then s
      else s\<lparr>sie_receive_data := (dir = In), sie_send_data := (dir = Out), sie_send_setup := False,
             sie_start_trans := True\<rparr>)"

fun transfer_loop ::
    "('p \<Rightarrow> HwBuffers \<Rightarrow> ('p \<times> HwBuffers \<times> bool) outcome) \<Rightarrow> ('d \<Rightarrow> HwBuffers \<Rightarrow> ('d \<times> bool) outcome) \<Rightarrow>
       Direction \<Rightarrow> HwResponse list \<Rightarrow> bool \<Rightarrow> nat \<Rightarrow> 'p \<Rightarrow> 'd \<Rightarrow> Rp2040 \<Rightarrow> (Rp2040 \<times> 'd \<times> (UsbError, unit) result) outcome"
  where
  "transfer_loop prep ret dir [] started in_flight p d s =
     obind (prepare_if prep (in_flight, p, hw s)) (\<lambda>x.
     obind (prepare_if prep x) (\<lambda>(in_flight', p', h).
     Ret (start_transfer dir started (s\<lparr>hw := h, responses := []\<rparr>), d, Err Timeout)))"
| "transfer_loop prep ret dir (r # rs) started in_flight p d s =
     obind (prepare_if prep (in_flight, p, hw s)) (\<lambda>x.
     obind (prepare_if prep x) (\<lambda>(in_flight', p', h).
     let s' = (start_transfer dir started s)\<lparr>hw := resp_hw r, responses := rs\<rparr> in
     if trans_complete (resp_status r) then
       obind (retire_if ret (hw s') (in_flight', d)) (\<lambda>y.
       obind (retire_if ret (hw s') y) (\<lambda>(n, d').
       Ret (s', d', Ok ())))
     else case status_error (resp_status r) of
       Some e \<Rightarrow> Ret (s', d, Err e)
     | None \<Rightarrow>
         obind (retire_if ret (hw s') (in_flight', d)) (\<lambda>y.
         obind (retire_if ret (hw s') y) (\<lambda>(n, d').
         transfer_loop prep ret dir rs True n p' d' s'))))"

text \<open>The division by the packet size panics for packet size 0.\<close>

definition control_transfer_inner ::
    "u8 \<Rightarrow> u8 \<Rightarrow> u8 \<Rightarrow> Direction \<Rightarrow> nat \<Rightarrow> ('p \<Rightarrow> HwBuffers \<Rightarrow> ('p \<times> HwBuffers \<times> bool) outcome) \<Rightarrow>
       ('d \<Rightarrow> HwBuffers \<Rightarrow> ('d \<times> bool) outcome) \<Rightarrow> 'p \<Rightarrow> 'd \<Rightarrow> Rp2040 \<Rightarrow>
       (Rp2040 \<times> 'd \<times> (UsbError, unit) result) outcome" where
  "control_transfer_inner a endpoint ps dir sz prep ret p d s =
     (if ps = 0 then Panic
      else
        let packets = sz div unat ps + 1;
          s' = s\<lparr>
            epx_control := \<lparr>buffer_address = 0x180, double_buffered = (packets > 1),
              interrupt_per_buff = (packets > 1), endpoint_type = (if endpoint = 0 then Control else Bulk),
              ep_enable = True\<rparr>,
            hw := (hw s)\<lparr>epbc := ep_buffer_control_zero\<rparr>,
            addr_endp := (a, endpoint)\<rparr>
        in transfer_loop prep ret dir (responses s') False 0 p d s')"

definition control_transfer_in ::
    "u8 \<Rightarrow> u8 \<Rightarrow> nat \<Rightarrow> u8 list \<Rightarrow> Rp2040 \<Rightarrow> (Rp2040 \<times> (UsbError, usize) result \<times> u8 list) outcome" where
  "control_transfer_in a ps sz buf s =
     (if length buf < sz then Ret (s, Err BufferTooSmall, buf)
      else
        obind (in_packetiser_new (word_of_nat sz) (ucast ps) True Never) (\<lambda>p.
        obind (control_transfer_inner a 0 ps In sz in_prepare in_retire p (in_depacketiser_new (word_of_nat sz) buf) s)
          (\<lambda>(s', d, r).
        Ret (s', case r of Inl e \<Rightarrow> Err e | Inr _ \<Rightarrow> Ok (in_depacketiser_total d), id_buf d))))"

definition control_transfer_out ::
    "u8 \<Rightarrow> u8 \<Rightarrow> nat \<Rightarrow> u8 list \<Rightarrow> (Rp2040, UsbError, usize) prog" where
  "control_transfer_out a ps sz buf = (\<lambda>s.
     if length buf < sz then Ret (s, Err BufferTooSmall)
     else
       obind (out_packetiser_new (word_of_nat sz) (ucast ps) buf True Never) (\<lambda>p.
       obind (control_transfer_inner a 0 ps Out sz out_prepare out_retire p out_depacketiser_new s)
         (\<lambda>(s', d, r).
       Ret (s', case r of Inl e \<Rightarrow> Err e | Inr _ \<Rightarrow> Ok (length buf)))))"

text \<open>The three kinds of control transfer, between the allocation and the drop of the control pipe.\<close>

definition control_phases ::
    "u8 \<Rightarrow> u8 \<Rightarrow> SetupPacket \<Rightarrow> DataPhase \<Rightarrow> Rp2040 \<Rightarrow> (Rp2040 \<times> (UsbError, usize) result \<times> DataPhase) outcome" where
  "control_phases a ps pkt data_phase s =
     obind (send_setup a pkt s) (\<lambda>(s1, r). case r of
       Inl e \<Rightarrow> Ret (s1, Err e, data_phase)
     | Inr _ \<Rightarrow>
        (case data_phase of
           DataIn buf \<Rightarrow>
             obind (control_transfer_in a ps (unat (wLength pkt)) buf s1) (\<lambda>(s2, r, buf').
             case r of
               Inl e \<Rightarrow> Ret (s2, Err e, DataIn buf')
             | Inr sz \<Rightarrow>
                 obind (control_transfer_out a ps 0 [] s2) (\<lambda>(s3, r).
                 case r of Inl e \<Rightarrow> Ret (s3, Err e, DataIn buf') | Inr _ \<Rightarrow> Ret (s3, Ok sz, DataIn buf')))
         | DataOut buf \<Rightarrow>
             obind (control_transfer_out a ps (unat (wLength pkt)) buf s1) (\<lambda>(s2, r).
             case r of
               Inl e \<Rightarrow> Ret (s2, Err e, data_phase)
             | Inr sz \<Rightarrow>
                 obind (control_transfer_in a ps 0 [] s2) (\<lambda>(s3, r, _).
                 case r of Inl e \<Rightarrow> Ret (s3, Err e, data_phase) | Inr _ \<Rightarrow> Ret (s3, Ok sz, data_phase)))
         | DataNone \<Rightarrow>
             obind (control_transfer_in a ps 0 [] s1) (\<lambda>(s2, r, _). Ret (s2, r, data_phase))))"

definition rp2040_control_transfer ::
    "u8 \<Rightarrow> u8 \<Rightarrow> SetupPacket \<Rightarrow> DataPhase \<Rightarrow> Rp2040 \<Rightarrow> (Rp2040 \<times> (UsbError, usize) result \<times> DataPhase) outcome" where
  "rp2040_control_transfer a ps pkt data_phase s =
     obind (alloc_pipe Control s) (\<lambda>(s1, pipe).
     obind (control_phases a ps pkt data_phase s1) (\<lambda>(s2, r, d).
     obind (drop_control_pipe pipe s2) (\<lambda>s3. Ret (s3, r, d))))"

fun zlp_of :: "TransferType \<Rightarrow> ZeroLengthPacket" where
  "zlp_of FixedSize = Never"
| "zlp_of VariableSize = AsNeeded"

definition rp2040_bulk_in_transfer ::
    "u8 \<Rightarrow> u8 \<Rightarrow> u16 \<Rightarrow> u8 list \<Rightarrow> TransferType \<Rightarrow> bool \<Rightarrow> Rp2040 \<Rightarrow>
       (Rp2040 \<times> (UsbError, usize) result \<times> u8 list \<times> bool) outcome" where
  "rp2040_bulk_in_transfer a endpoint ps data ty toggle s =
     obind (alloc_pipe Control s) (\<lambda>(s1, pipe).
     obind (in_packetiser_new (word_of_nat (length data)) ps toggle (zlp_of ty)) (\<lambda>p.
     let len = (word_of_nat (length data) :: u16) in
     obind (control_transfer_inner a endpoint (ucast ps) In (unat len) in_prepare in_retire p
              (in_depacketiser_new len data) s1) (\<lambda>(s2, d, r).
     obind (drop_control_pipe pipe s2) (\<lambda>s3.
     case r of
       Inl e \<Rightarrow> Ret (s3, Err e, id_buf d, toggle)
     | Inr _ \<Rightarrow> Ret (s3, Ok (in_depacketiser_total d), id_buf d, toggle \<noteq> id_packet_parity d)))))"

definition rp2040_bulk_out_transfer ::
    "u8 \<Rightarrow> u8 \<Rightarrow> u16 \<Rightarrow> u8 list \<Rightarrow> TransferType \<Rightarrow> bool \<Rightarrow> Rp2040 \<Rightarrow> (Rp2040 \<times> (UsbError, usize) result \<times> bool) outcome"
  where
  "rp2040_bulk_out_transfer a endpoint ps data ty toggle s =
     obind (alloc_pipe Control s) (\<lambda>(s1, pipe).
     obind (out_packetiser_new (word_of_nat (length data)) ps data toggle (zlp_of ty)) (\<lambda>p.
     obind (control_transfer_inner a endpoint (ucast ps) Out (length data) out_prepare out_retire p
              out_depacketiser_new s1) (\<lambda>(s2, d, r).
     obind (drop_control_pipe pipe s2) (\<lambda>s3.
     case r of
       Inl e \<Rightarrow> Ret (s3, Err e, toggle)
     | Inr _ \<Rightarrow> Ret (s3, Ok (length data), toggle \<noteq> od_packet_parity d)))))"

definition rp2040_try_alloc_interrupt_pipe ::
    "u8 \<Rightarrow> u8 \<Rightarrow> u16 \<Rightarrow> u8 \<Rightarrow> Rp2040 \<Rightarrow> (Rp2040 \<times> (UsbError, InterruptPipe) result) outcome" where
  "rp2040_try_alloc_interrupt_pipe a endpoint mp interval_ms s =
     obind (try_alloc_pipe Interrupt s) (\<lambda>(s1, pipe). case pipe of
       None \<Rightarrow> Ret (s1, Err TooManyDevices)
     | Some pipe \<Rightarrow> obind (interrupt_pipe pipe a endpoint mp interval_ms s1) (\<lambda>(s2, itp). Ret (s2, Ok itp)))"

text \<open>One poll of the future: pending while all pipes are in use.\<close>

definition rp2040_alloc_interrupt_pipe ::
    "u8 \<Rightarrow> u8 \<Rightarrow> u16 \<Rightarrow> u8 \<Rightarrow> Rp2040 \<Rightarrow> (Rp2040 \<times> InterruptPipe option) outcome" where
  "rp2040_alloc_interrupt_pipe a endpoint mp interval_ms s =
     obind (poll_alloc_pipe Interrupt s) (\<lambda>(s1, pipe). case pipe of
       None \<Rightarrow> Ret (s1, None)
     | Some pipe \<Rightarrow> obind (interrupt_pipe pipe a endpoint mp interval_ms s1) (\<lambda>(s2, itp). Ret (s2, Some itp)))"

definition rp2040_reset_root_port :: "bool \<Rightarrow> Rp2040 \<Rightarrow> Rp2040" where
  "rp2040_reset_root_port rst s = (if rst then s\<lparr>sie_reset_bus := True\<rparr> else s)"

text \<open>The implementation of the trait.\<close>

definition rp2040_host :: "(Rp2040, InterruptPipe) HostController" where
  "rp2040_host = \<lparr>
     hc_reset_root_port = rp2040_reset_root_port,
     hc_control_transfer = rp2040_control_transfer,
     hc_bulk_in_transfer = rp2040_bulk_in_transfer,
     hc_bulk_out_transfer = rp2040_bulk_out_transfer,
     hc_alloc_interrupt_pipe = rp2040_alloc_interrupt_pipe,
     hc_try_alloc_interrupt_pipe = rp2040_try_alloc_interrupt_pipe,
     hc_poll_pipe = interrupt_poll\<rparr>"

section \<open>Transfers stay within their buffers\<close>

definition rp_hw_ok :: "Rp2040 \<Rightarrow> bool" where
  "rp_hw_ok s \<longleftrightarrow> hw_ok (hw s) \<and> (\<forall>r\<in>set (responses s). hw_ok (resp_hw r))"

text \<open>A transfer leaves the pools and the interrupt endpoints alone.\<close>

definition rp_frame :: "Rp2040 \<Rightarrow> Rp2040 \<Rightarrow> bool" where
  "rp_frame s t \<longleftrightarrow> bulk_pipes t = bulk_pipes s \<and> control_pipes t = control_pipes s \<and>
     int_endpoints t = int_endpoints s"

lemma rp_frame_refl [simp]: "rp_frame s s"
  by (simp add: rp_frame_def)

lemma rp_frame_trans: "rp_frame s t \<Longrightarrow> rp_frame t u \<Longrightarrow> rp_frame s u"
  by (simp add: rp_frame_def)

lemma start_transfer_simps [simp]:
  "hw (start_transfer dir b s) = hw s" "responses (start_transfer dir b s) = responses s"
  "bulk_pipes (start_transfer dir b s) = bulk_pipes s" "control_pipes (start_transfer dir b s) = control_pipes s"
  "int_endpoints (start_transfer dir b s) = int_endpoints s"
  by (simp_all add: start_transfer_def)

text \<open>
  A packetiser with a depacketiser: both have an invariant that their operations keep on any contents
  of the register and the memory. The transfer loop then ends with the depacketiser's invariant.
\<close>

locale packet_engine =
  fixes prep :: "'p \<Rightarrow> HwBuffers \<Rightarrow> ('p \<times> HwBuffers \<times> bool) outcome"
    and ret :: "'d \<Rightarrow> HwBuffers \<Rightarrow> ('d \<times> bool) outcome"
    and PI :: "'p \<Rightarrow> bool"
    and DI :: "'d \<Rightarrow> bool"
  assumes prep_ok: "PI p \<Longrightarrow> hw_ok h \<Longrightarrow> \<exists>p' h' b. prep p h = Ret (p', h', b) \<and> PI p' \<and> hw_ok h'"
    and ret_ok: "DI d \<Longrightarrow> hw_ok h \<Longrightarrow> \<exists>d' b. ret d h = Ret (d', b) \<and> DI d'"
begin

lemma prepare_if_ok:
  assumes "PI p" and "hw_ok h"
  shows "\<exists>n' p' h'. prepare_if prep (n, p, h) = Ret (n', p', h') \<and> PI p' \<and> hw_ok h'"
  using prep_ok [OF assms] assms by (cases "n < 2") (auto simp: prepare_if_def)

lemma retire_if_ok:
  assumes "DI d" and "hw_ok h"
  shows "\<exists>n' d'. retire_if ret h (n, d) = Ret (n', d') \<and> DI d'"
  using ret_ok [OF assms] assms(1) by (cases "n > 0") (auto simp: retire_if_def)

lemma transfer_loop_ok:
  assumes "PI p" and "DI d" and "hw_ok (hw s)" and "\<forall>r\<in>set rs. hw_ok (resp_hw r)"
  shows "\<exists>s' d' r. transfer_loop prep ret dir rs started n p d s = Ret (s', d', r) \<and> DI d' \<and>
    rp_frame s s' \<and> rp_hw_ok s' \<and> (rs \<noteq> [] \<and> trans_complete (resp_status (hd rs)) \<longrightarrow> r = Ok ())"
  using assms
proof (induction rs arbitrary: started n p d s)
  case Nil
  obtain n1 p1 h1 where 1: "prepare_if prep (n, p, hw s) = Ret (n1, p1, h1)" "PI p1" "hw_ok h1"
    using prepare_if_ok Nil.prems by blast
  obtain n2 p2 h2 where 2: "prepare_if prep (n1, p1, h1) = Ret (n2, p2, h2)" "PI p2" "hw_ok h2"
    using prepare_if_ok 1 by blast
  show ?case using 1 2 Nil.prems by (simp add: rp_frame_def rp_hw_ok_def)
next
  case (Cons r rs)
  let ?s = "(start_transfer dir started s)\<lparr>hw := resp_hw r, responses := rs\<rparr>"
  have h: "hw_ok (hw ?s)" and rs: "\<forall>r\<in>set rs. hw_ok (resp_hw r)" using Cons.prems by simp_all
  have frame: "rp_frame s ?s" "rp_hw_ok ?s" using h rs by (simp_all add: rp_frame_def rp_hw_ok_def)
  obtain n1 p1 h1 where 1: "prepare_if prep (n, p, hw s) = Ret (n1, p1, h1)" "PI p1" "hw_ok h1"
    using prepare_if_ok Cons.prems by blast
  obtain n2 p2 h2 where 2: "prepare_if prep (n1, p1, h1) = Ret (n2, p2, h2)" "PI p2" "hw_ok h2"
    using prepare_if_ok 1 by blast
  obtain n3 d3 where 3: "retire_if ret (hw ?s) (n2, d) = Ret (n3, d3)" "DI d3"
    using retire_if_ok [OF Cons.prems(2) h] by blast
  obtain n4 d4 where 4: "retire_if ret (hw ?s) (n3, d3) = Ret (n4, d4)" "DI d4"
    using retire_if_ok [OF 3(2) h] by blast
  have next_round: "\<exists>s' d' r. transfer_loop prep ret dir rs True n4 p2 d4 ?s = Ret (s', d', r) \<and> DI d' \<and>
      rp_frame ?s s' \<and> rp_hw_ok s' \<and> (rs \<noteq> [] \<and> trans_complete (resp_status (hd rs)) \<longrightarrow> r = Ok ())"
    by (rule Cons.IH) (use 2 4 h rs in simp_all)
  show ?case
    using 1 2 3 4 next_round frame Cons.prems(2) rp_frame_trans [OF frame(1)]
    by (cases "trans_complete (resp_status r)"; cases "status_error (resp_status r)") (auto simp: Let_def)
qed

lemma control_transfer_inner_ok:
  assumes "PI p" and "DI d" and "rp_hw_ok s" and "ps \<noteq> 0"
  shows "\<exists>s' d' r. control_transfer_inner a e ps dir sz prep ret p d s = Ret (s', d', r) \<and> DI d' \<and>
    rp_frame s s' \<and> rp_hw_ok s' \<and>
    (responses s \<noteq> [] \<and> trans_complete (resp_status (hd (responses s))) \<longrightarrow> r = Ok ())"
proof -
  let ?s = "s\<lparr>epx_control := \<lparr>buffer_address = 0x180, double_buffered = (sz div unat ps + 1 > 1),
      interrupt_per_buff = (sz div unat ps + 1 > 1), endpoint_type = (if e = 0 then Control else Bulk),
      ep_enable = True\<rparr>, hw := (hw s)\<lparr>epbc := ep_buffer_control_zero\<rparr>, addr_endp := (a, e)\<rparr>"
  have hw: "hw_ok (hw ?s)" "\<forall>r\<in>set (responses ?s). hw_ok (resp_hw r)"
    using assms(3) by (simp_all add: rp_hw_ok_def hw_ok_def)
  have frame: "rp_frame s ?s" by (simp add: rp_frame_def)
  obtain s' d' r where "transfer_loop prep ret dir (responses ?s) False 0 p d ?s = Ret (s', d', r)"
      "DI d'" "rp_frame ?s s'" "rp_hw_ok s'"
      "responses ?s \<noteq> [] \<and> trans_complete (resp_status (hd (responses ?s))) \<longrightarrow> r = Ok ()"
    using transfer_loop_ok [OF assms(1,2) hw] by blast
  then show ?thesis
    using assms(4) rp_frame_trans [OF frame] by (auto simp: control_transfer_inner_def Let_def)
qed

end

interpretation in_engine: packet_engine in_prepare in_retire "\<lambda>_. True"
    "\<lambda>d. in_inv d \<and> length (id_buf d) = length B \<and> id_offset d + id_remain d = T \<and>
       drop (id_offset d) (id_buf d) = drop (id_offset d) B" for B T
proof
  show "\<exists>p' h' b. in_prepare p h = Ret (p', h', b) \<and> True \<and> hw_ok h'" if "hw_ok h" for p h
    using in_prepare_ok [of p h] that by (auto simp: hw_ok_def)
  fix d h
  assume d: "in_inv d \<and> length (id_buf d) = length B \<and> id_offset d + id_remain d = T \<and>
      drop (id_offset d) (id_buf d) = drop (id_offset d) B" and "hw_ok h"
  then obtain d' b where d': "in_retire d h = Ret (d', b)" "in_inv d'" "length (id_buf d') = length B"
      "id_offset d' + id_remain d' = T" "id_offset d \<le> id_offset d'"
      "drop (id_offset d') (id_buf d') = drop (id_offset d') (id_buf d)"
    using in_retire_ok [of d h] by auto
  obtain k where "id_offset d' = k + id_offset d" using d'(5) le_iff_add add.commute by metis
  then have "drop (id_offset d') (id_buf d) = drop (id_offset d') B"
    using d by (simp only: drop_drop [symmetric])
  then show "\<exists>d' b. in_retire d h = Ret (d', b) \<and> in_inv d' \<and> length (id_buf d') = length B \<and>
      id_offset d' + id_remain d' = T \<and> drop (id_offset d') (id_buf d') = drop (id_offset d') B"
    using d' by auto
qed

interpretation out_engine: packet_engine out_prepare out_retire out_inv "\<lambda>_. True"
  by unfold_locales (use out_prepare_ok out_retire_ok in \<open>auto\<close>)

lemma unat_ucast_u8_u16: "unat (ucast (x :: u8) :: u16) = unat x"
proof -
  have "unat x < 65536" using unat_u8_lt [of x] by simp
  then show ?thesis by (simp add: unsigned_ucast_eq take_bit_nat_eq_self_iff)
qed

lemma u16_of_nat_le: "unat (word_of_nat n :: u16) \<le> n"
  by (simp add: unat_of_nat take_bit_eq_mod)

lemma control_transfer_in_ok:
  assumes "rp_hw_ok s" and "ps \<noteq> 0"
  shows "\<exists>s' r buf'. control_transfer_in a ps sz buf s = Ret (s', r, buf') \<and> rp_frame s s' \<and> rp_hw_ok s' \<and>
    length buf' = length buf \<and> (\<forall>n. r = Ok n \<longrightarrow> n \<le> sz \<and> n \<le> length buf)"
proof (cases "length buf < sz")
  case False
  let ?sz = "word_of_nat sz :: u16"
  let ?d = "in_depacketiser_new ?sz buf"
  have sz: "unat ?sz \<le> sz" by (rule u16_of_nat_le)
  obtain p where p: "in_packetiser_new ?sz (ucast ps) True Never = Ret p"
    by (simp add: in_packetiser_new_def packet_sizes_new_def)
  have "in_inv ?d \<and> length (id_buf ?d) = length buf \<and> id_offset ?d + id_remain ?d = unat ?sz \<and>
      drop (id_offset ?d) (id_buf ?d) = drop (id_offset ?d) buf"
    using sz False by (simp add: in_inv_def in_depacketiser_new_def)
  from in_engine.control_transfer_inner_ok [OF TrueI this assms, of a 0 In sz p] obtain s' d' r where
    inner: "control_transfer_inner a 0 ps In sz in_prepare in_retire p ?d s = Ret (s', d', r)"
      "in_inv d'" "length (id_buf d') = length buf" "id_offset d' + id_remain d' = unat ?sz"
      "rp_frame s s'" "rp_hw_ok s'" by blast
  have "id_offset d' \<le> unat ?sz" using inner(4) by simp
  with sz False have "id_offset d' \<le> sz" "id_offset d' \<le> length buf" by simp_all
  then show ?thesis
    using False p inner by (cases r) (simp_all add: control_transfer_in_def in_depacketiser_total_def)
qed (use assms in \<open>simp add: control_transfer_in_def\<close>)

lemma control_transfer_out_ok:
  assumes "rp_hw_ok s" and "ps \<noteq> 0"
  shows "\<exists>s' r. control_transfer_out a ps sz buf s = Ret (s', r) \<and> rp_frame s s' \<and> rp_hw_ok s'"
proof (cases "length buf < sz")
  case False
  let ?sz = "word_of_nat sz :: u16" and ?ps = "ucast ps :: u16"
  have ps: "unat ?ps = unat ps" by (rule unat_ucast_u8_u16)
  obtain p where p: "out_packetiser_new ?sz ?ps buf True Never = Ret p"
    by (simp add: out_packetiser_new_def packet_sizes_new_def)
  have "out_inv p"
    using assms(2) unat_u8_lt [of ps] False u16_of_nat_le [of sz] ps
    by (intro out_new_inv [OF p]) (simp_all add: word_less_nat_alt word_le_nat_alt unat_gt_0)
  from out_engine.control_transfer_inner_ok [OF this TrueI assms, of a 0 Out sz out_depacketiser_new]
  obtain s' d' r where "control_transfer_inner a 0 ps Out sz out_prepare out_retire p out_depacketiser_new s = Ret (s', d', r)"
      "rp_frame s s'" "rp_hw_ok s'" by blast
  then show ?thesis using False p by (simp add: control_transfer_out_def)
qed (use assms in \<open>simp add: control_transfer_out_def\<close>)

lemma setup_loop_ok:
  "\<forall>r\<in>set rs. hw_ok (resp_hw r) \<Longrightarrow> hw_ok (hw s) \<Longrightarrow>
     \<exists>s' r. setup_loop rs s = Ret (s', r) \<and> rp_frame s s' \<and> rp_hw_ok s'"
proof (induction rs arbitrary: s)
  case Nil
  then show ?case by (simp add: rp_frame_def rp_hw_ok_def)
next
  case (Cons r rs)
  let ?s = "s\<lparr>hw := resp_hw r, responses := rs\<rparr>"
  have "\<exists>s' q. setup_loop rs ?s = Ret (s', q) \<and> rp_frame ?s s' \<and> rp_hw_ok s'"
    by (rule Cons.IH) (use Cons.prems in simp_all)
  moreover have frame: "rp_frame s ?s" and "rp_hw_ok ?s"
    using Cons.prems by (simp_all add: rp_frame_def rp_hw_ok_def)
  ultimately show ?case
    using rp_frame_trans [OF frame] by (cases "status_error (resp_status r)") (auto simp: Let_def)
qed

lemma send_setup_ok:
  assumes "rp_hw_ok s"
  shows "\<exists>s' r. send_setup a pkt s = Ret (s', r) \<and> rp_frame s s' \<and> rp_hw_ok s'"
proof -
  let ?s = "s\<lparr>epx_control := \<lparr>buffer_address = 0x180, double_buffered = False, interrupt_per_buff = False,
      endpoint_type = Control, ep_enable = False\<rparr>, hw := (hw s)\<lparr>epbc := ep_buffer_control_zero\<rparr>,
      setup_packet := pkt, addr_endp := (a, 0), sie_receive_data := False, sie_send_data := False,
      sie_send_setup := True, sie_start_trans := True\<rparr>"
  have "\<exists>s' r. setup_loop (responses ?s) ?s = Ret (s', r) \<and> rp_frame ?s s' \<and> rp_hw_ok s'"
    by (rule setup_loop_ok) (use assms in \<open>simp_all add: rp_hw_ok_def hw_ok_def\<close>)
  moreover have "rp_frame s ?s" by (simp add: rp_frame_def)
  ultimately show ?thesis using rp_frame_trans by (auto simp: send_setup_def Let_def)
qed

lemma control_phases_ok:
  assumes "rp_hw_ok s" and "ps \<noteq> 0"
  shows "\<exists>s' r d'. control_phases a ps pkt d s = Ret (s', r, d') \<and> rp_frame s s' \<and> rp_hw_ok s' \<and>
    dataphase_fits d r d'"
proof -
  obtain s1 r1 where 1: "send_setup a pkt s = Ret (s1, r1)" "rp_frame s s1" "rp_hw_ok s1"
    using send_setup_ok [OF assms(1)] by blast
  obtain s2 r2 b2 where 2: "control_transfer_in a ps (if is_in d then unat (wLength pkt) else 0)
        (if is_in d then in_buffer d else []) s1 = Ret (s2, r2, b2)" "rp_frame s1 s2" "rp_hw_ok s2"
      "length b2 = length (if is_in d then in_buffer d else [])"
      "\<forall>n. r2 = Ok n \<longrightarrow> n \<le> length (if is_in d then in_buffer d else [])"
    using control_transfer_in_ok [OF 1(3) assms(2)] by blast
  obtain s3 r3 where 3: "control_transfer_out a ps 0 [] s2 = Ret (s3, r3)" "rp_frame s2 s3" "rp_hw_ok s3"
    using control_transfer_out_ok [OF 2(3) assms(2)] by blast
  have f: "rp_frame s s2" "rp_frame s s3" using 1 2 3 rp_frame_trans by blast+
  show ?thesis
  proof (cases r1)
    case (Inl e)
    then show ?thesis using 1 by (cases d) (simp_all add: control_phases_def)
  next
    case (Inr u)
    show ?thesis
    proof (cases d)
      case (DataIn buf)
      then show ?thesis
        using 1 2 3 f Inr by (cases r2; cases r3) (simp_all add: control_phases_def is_in_def)
    next
      case (DataOut buf)
      obtain s4 r4 where 4: "control_transfer_out a ps (unat (wLength pkt)) buf s1 = Ret (s4, r4)"
          "rp_frame s1 s4" "rp_hw_ok s4"
        using control_transfer_out_ok [OF 1(3) assms(2)] by blast
      obtain s5 r5 b5 where 5: "control_transfer_in a ps 0 [] s4 = Ret (s5, r5, b5)" "rp_frame s4 s5" "rp_hw_ok s5"
        using control_transfer_in_ok [OF 4(3) assms(2)] by blast
      have "rp_frame s s4" "rp_frame s s5" using 1 4 5 rp_frame_trans by blast+
      then show ?thesis
        using 1 4 5 Inr DataOut by (cases r4; cases r5) (simp_all add: control_phases_def)
    next
      case DataNone
      then show ?thesis using 1 2 f Inr by (simp add: control_phases_def is_in_def)
    qed
  qed
qed

section \<open>The driver's contract\<close>

definition rp_inv :: "Rp2040 \<Rightarrow> bool" where
  "rp_inv s \<longleftrightarrow> rp_hw_ok s \<and> pool_wf (control_pipes s) \<and> pool_cap (control_pipes s) = 1 \<and>
     pool_held (control_pipes s) = {} \<and> pool_wf (bulk_pipes s) \<and> pool_cap (bulk_pipes s) = 15 \<and>
     length (int_endpoints s) = 15 \<and> (\<forall>ie\<in>set (int_endpoints s). length (ie_memory ie) = 128)"

text \<open>A control pipe is there for the asking, and comes back when it is dropped.\<close>

lemma alloc_control_pipe:
  assumes "rp_inv s"
  shows "\<exists>s' pipe. alloc_pipe Control s = Ret (s', pipe) \<and> rp_hw_ok s' \<and> responses s' = responses s \<and>
    (\<forall>t. rp_frame s' t \<longrightarrow> rp_hw_ok t \<longrightarrow> (\<exists>t'. drop_control_pipe pipe t = Ret t' \<and> rp_inv t'))"
proof -
  have "pool_wf (control_pipes s)" "pool_held (control_pipes s) \<noteq> {..<pool_cap (control_pipes s)}"
    using assms by (auto simp: rp_inv_def)
  from poll_pool.acquire_free [OF this, of "()"] obtain p n where
    p: "poolfuture_poll (control_pipes s) () = Ret (p, Some (Pooled n))" "pool_wf p" "pool_cap p = 1"
      "unat n < 1" "pool_held p = {unat n}"
    using assms by (auto simp: rp_inv_def)
  let ?s = "s\<lparr>control_pipes := p\<rparr>" and ?pipe = "\<lparr>pipe_pooled = Pooled n, pipe_which = n\<rparr>"
  have "alloc_pipe Control s = Ret (?s, ?pipe)" using p by (simp add: alloc_pipe_def poll_alloc_pipe_def pipe_new_def)
  moreover have "rp_hw_ok ?s" "responses ?s = responses s" using assms by (simp_all add: rp_inv_def rp_hw_ok_def)
  moreover have "\<exists>t'. drop_control_pipe ?pipe t = Ret t' \<and> rp_inv t'" if "rp_frame ?s t" "rp_hw_ok t" for t
  proof -
    have t: "control_pipes t = p" "bulk_pipes t = bulk_pipes s" "int_endpoints t = int_endpoints s"
      using that(1) by (simp_all add: rp_frame_def)
    obtain p' w where "pooled_drop p (Pooled n) = Ret (p', w)" "pool_wf p'" "pool_cap p' = 1" "pool_held p' = {}"
      using try_pool.release_held [of p "Pooled n"] p by auto
    then show ?thesis
      using t assms that(2) by (simp add: drop_control_pipe_def rp_inv_def rp_hw_ok_def)
  qed
  ultimately show ?thesis by blast
qed

lemma rp2040_control_ok:
  assumes "rp_inv s" and "ps \<noteq> 0"
  shows "\<exists>s' r d'. rp2040_control_transfer a ps pkt d s = Ret (s', r, d') \<and> rp_inv s' \<and> dataphase_fits d r d'"
proof -
  obtain s1 pipe where 1: "alloc_pipe Control s = Ret (s1, pipe)" "rp_hw_ok s1"
    "\<forall>t. rp_frame s1 t \<longrightarrow> rp_hw_ok t \<longrightarrow> (\<exists>t'. drop_control_pipe pipe t = Ret t' \<and> rp_inv t')"
    using alloc_control_pipe [OF assms(1)] by blast
  obtain s2 r d' where 2: "control_phases a ps pkt d s1 = Ret (s2, r, d')" "rp_frame s1 s2" "rp_hw_ok s2"
    "dataphase_fits d r d'"
    using control_phases_ok [OF 1(2) assms(2)] by blast
  then obtain s3 where "drop_control_pipe pipe s2 = Ret s3" "rp_inv s3" using 1(3) by blast
  then show ?thesis using 1 2 by (simp add: rp2040_control_transfer_def)
qed

text \<open>The interrupt pipes that the driver hands out have numbers from 1 to 15.\<close>

definition itp_ok :: "InterruptPipe \<Rightarrow> bool" where
  "itp_ok itp \<longleftrightarrow> 0 < unat (pipe_which (itp_pipe itp)) \<and> unat (pipe_which (itp_pipe itp)) \<le> 15"

lemma interrupt_pipe_ok:
  assumes "rp_inv s" and "0 < unat (pipe_which pipe)" and "unat (pipe_which pipe) \<le> 15"
  shows "\<exists>s' itp. interrupt_pipe pipe a e mp i s = Ret (s', itp) \<and> rp_inv s' \<and> itp_ok itp"
proof -
  let ?n = "unat (pipe_which pipe) - 1"
  have n: "?n < length (int_endpoints s)" using assms by (simp add: rp_inv_def)
  then have "int_endpoints s ! ?n \<in> set (int_endpoints s)" by simp
  then have "length (ie_memory (int_endpoints s ! ?n)) = 128" using assms(1) by (simp add: rp_inv_def)
  then show ?thesis
    using assms n
    by (auto simp: interrupt_pipe_def Let_def rp_inv_def rp_hw_ok_def itp_ok_def
        dest!: set_update_subset_insert [THEN subsetD])
qed

lemma bulk_pipe_ok:
  assumes "rp_inv s" and "pool_wf p" and "pool_cap p = 15"
  shows "rp_inv (s\<lparr>bulk_pipes := p\<rparr>)"
    and "unat n < 15 \<Longrightarrow> \<exists>pipe. pipe_new (Pooled n) 1 = Ret pipe \<and> 0 < unat (pipe_which pipe) \<and> unat (pipe_which pipe) \<le> 15"
  using assms by (auto simp: rp_inv_def rp_hw_ok_def pipe_new_def unat_word_ariths)

lemma rp2040_try_alloc_ok:
  assumes "rp_inv s"
  shows "\<exists>s' r. rp2040_try_alloc_interrupt_pipe a e mp i s = Ret (s', r) \<and> rp_inv s' \<and> (\<forall>p. r = Ok p \<longrightarrow> itp_ok p)"
proof (cases "pool_held (bulk_pipes s) = {..<pool_cap (bulk_pipes s)}")
  case True
  then obtain p where "try_alloc (bulk_pipes s) = Ret (p, None)" "pool_wf p" "pool_cap p = 15"
    using try_pool.acquire_full [of "bulk_pipes s"] assms by (auto simp: rp_inv_def)
  then show ?thesis
    using bulk_pipe_ok(1) [OF assms] by (simp add: rp2040_try_alloc_interrupt_pipe_def try_alloc_pipe_def)
next
  case False
  then obtain p n where p: "try_alloc (bulk_pipes s) = Ret (p, Some (Pooled n))" "pool_wf p" "pool_cap p = 15" "unat n < 15"
    using try_pool.acquire_free [of "bulk_pipes s"] assms by (auto simp: rp_inv_def)
  note ok = bulk_pipe_ok [OF assms p(2,3)]
  obtain pipe where "pipe_new (Pooled n) 1 = Ret pipe" "0 < unat (pipe_which pipe)" "unat (pipe_which pipe) \<le> 15"
    using ok(2) [OF p(4)] by blast
  then show ?thesis
    using p(1) interrupt_pipe_ok [OF ok(1), of pipe a e mp i]
    by (auto simp: rp2040_try_alloc_interrupt_pipe_def try_alloc_pipe_def)
qed

lemma rp2040_alloc_ok:
  assumes "rp_inv s"
  shows "\<exists>s' m. rp2040_alloc_interrupt_pipe a e mp i s = Ret (s', m) \<and> rp_inv s' \<and> (\<forall>p. m = Some p \<longrightarrow> itp_ok p)"
proof (cases "pool_held (bulk_pipes s) = {..<pool_cap (bulk_pipes s)}")
  case True
  then obtain p where "poolfuture_poll (bulk_pipes s) () = Ret (p, None)" "pool_wf p" "pool_cap p = 15"
    using poll_pool.acquire_full [of "bulk_pipes s" "()"] assms by (auto simp: rp_inv_def)
  then show ?thesis
    using bulk_pipe_ok(1) [OF assms] by (simp add: rp2040_alloc_interrupt_pipe_def poll_alloc_pipe_def)
next
  case False
  then obtain p n where p: "poolfuture_poll (bulk_pipes s) () = Ret (p, Some (Pooled n))" "pool_wf p" "pool_cap p = 15" "unat n < 15"
    using poll_pool.acquire_free [of "bulk_pipes s" "()"] assms by (auto simp: rp_inv_def)
  note ok = bulk_pipe_ok [OF assms p(2,3)]
  obtain pipe where "pipe_new (Pooled n) 1 = Ret pipe" "0 < unat (pipe_which pipe)" "unat (pipe_which pipe) \<le> 15"
    using ok(2) [OF p(4)] by blast
  then show ?thesis
    using p(1) interrupt_pipe_ok [OF ok(1), of pipe a e mp i]
    by (auto simp: rp2040_alloc_interrupt_pipe_def poll_alloc_pipe_def)
qed

lemma interrupt_poll_ok:
  assumes "rp_inv s" and "itp_ok itp"
  shows "\<exists>s' itp' m. interrupt_poll itp s = Ret (s', itp', m) \<and> rp_inv s' \<and> itp_ok itp' \<and>
    (itp_data_toggle itp' \<noteq> itp_data_toggle itp \<longleftrightarrow> m \<noteq> None) \<and>
    (\<forall>pkt. m = Some pkt \<longrightarrow> (\<exists>ie. ie = int_endpoints s ! (unat (pipe_which (itp_pipe itp)) - 1) \<and>
       interrupt_packet_deref pkt = Ret (take (min (unat (length_0 (ie_control ie))) 64) (ie_memory ie)) \<and>
       ip_address pkt = ie_address ie))"
proof -
  let ?n = "unat (pipe_which (itp_pipe itp))"
  let ?ie = "int_endpoints s ! (?n - 1)" and ?tog = "\<not> itp_data_toggle itp"
  let ?sz = "min (unat (length_0 (ie_control ?ie))) 64"
  have n: "?n - 1 < length (int_endpoints s)" using assms by (auto simp: rp_inv_def itp_ok_def)
  then have "?ie \<in> set (int_endpoints s)" by simp
  then have mem: "length (ie_memory ?ie) = 128" using assms(1) by (simp add: rp_inv_def)
  show ?thesis
  proof (cases "full_0 (ie_control ?ie)")
    case True
    let ?ie' = "?ie\<lparr>ie_control := ep_buffer_control_zero\<lparr>pid_0 := ?tog,
      length_0 := ucast (itp_max_packet_size itp), last_0 := True, available_0 := True\<rparr>\<rparr>"
    let ?pkt = "interrupt_packet_new\<lparr>ip_address := ie_address ?ie, ip_endpoint := ie_endpoint ?ie,
      ip_size := word_of_nat ?sz, ip_data := overwrite (replicate 64 0) 0 (take ?sz (ie_memory ?ie))\<rparr>"
    have poll: "interrupt_poll itp s =
        Ret (s\<lparr>int_endpoints := (int_endpoints s)[?n - 1 := ?ie']\<rparr>, itp\<lparr>itp_data_toggle := ?tog\<rparr>, Some ?pkt)"
      using True n assms(2) mem by (simp add: interrupt_poll_def Let_def itp_ok_def)
    have inv: "rp_inv (s\<lparr>int_endpoints := (int_endpoints s)[?n - 1 := ?ie']\<rparr>)"
      using assms(1) mem by (auto simp: rp_inv_def rp_hw_ok_def dest!: set_update_subset_insert [THEN subsetD])
    have deref: "interrupt_packet_deref ?pkt = Ret (take ?sz (ie_memory ?ie))"
    proof -
      have "unat (word_of_nat ?sz :: u8) = ?sz" by (simp add: unat_of_nat take_bit_eq_mod)
      then show ?thesis
        using mem take_drop_overwrite [of 0 "take ?sz (ie_memory ?ie)" "replicate 64 0"]
        by (simp add: interrupt_packet_deref_def)
    qed
    show ?thesis by (intro exI, rule conjI, rule poll) (use inv deref assms(2) in \<open>simp add: itp_ok_def\<close>)
  next
    case False
    then show ?thesis using n assms by (simp add: interrupt_poll_def Let_def itp_ok_def)
  qed
qed

interpretation rp2040: usb_driver rp2040_host rp_inv "\<lambda>ps. ps \<noteq> 0" itp_ok
proof
  fix s assume s: "rp_inv s"
  show "rp_inv (hc_reset_root_port rp2040_host b s)" for b
    using s by (simp add: rp2040_host_def rp2040_reset_root_port_def rp_inv_def rp_hw_ok_def)
  show "\<exists>s' r. hc_try_alloc_interrupt_pipe rp2040_host a e mp i s = Ret (s', r) \<and> rp_inv s' \<and> (\<forall>p. r = Ok p \<longrightarrow> itp_ok p)"
    for a e mp i
    using rp2040_try_alloc_ok [OF s] by (simp add: rp2040_host_def)
  show "\<exists>s' m. hc_alloc_interrupt_pipe rp2040_host a e mp i s = Ret (s', m) \<and> rp_inv s' \<and> (\<forall>p. m = Some p \<longrightarrow> itp_ok p)"
    for a e mp i
    using rp2040_alloc_ok [OF s] by (simp add: rp2040_host_def)
  show "\<exists>s' p' m. hc_poll_pipe rp2040_host p s = Ret (s', p', m) \<and> rp_inv s' \<and> itp_ok p' \<and>
      (\<forall>pkt. m = Some pkt \<longrightarrow> interrupt_packet_deref pkt \<noteq> Panic)" if "itp_ok p" for p
    using interrupt_poll_ok [OF s that] unfolding rp2040_host_def HostController.simps by (metis outcome.distinct(1))
qed (simp_all add: rp2040_host_def rp2040_control_ok)

section \<open>Bulk transfers\<close>

lemma rp2040_bulk_in_ok:
  assumes "rp_inv s" and "(ucast ps :: u8) \<noteq> 0" and "ty = FixedSize \<or> ps \<noteq> 0"
  shows "\<exists>s' r buf tog'. rp2040_bulk_in_transfer a e ps data ty tog s = Ret (s', r, buf, tog') \<and> rp_inv s' \<and>
    length buf = length data \<and> (\<forall>n. r = Ok n \<longrightarrow> n \<le> length data \<and> drop n buf = drop n data)"
proof -
  let ?len = "word_of_nat (length data) :: u16"
  let ?d = "in_depacketiser_new ?len data"
  obtain s1 pipe where 1: "alloc_pipe Control s = Ret (s1, pipe)" "rp_hw_ok s1"
    "\<forall>t. rp_frame s1 t \<longrightarrow> rp_hw_ok t \<longrightarrow> (\<exists>t'. drop_control_pipe pipe t = Ret t' \<and> rp_inv t')"
    using alloc_control_pipe [OF assms(1)] by blast
  obtain p where p: "in_packetiser_new ?len ps tog (zlp_of ty) = Ret p"
    using assms(3) by (cases ty) (auto simp: in_packetiser_new_def packet_sizes_new_def)
  have "in_inv ?d \<and> length (id_buf ?d) = length data \<and> id_offset ?d + id_remain ?d = unat ?len \<and>
      drop (id_offset ?d) (id_buf ?d) = drop (id_offset ?d) data"
    by (simp add: in_inv_def in_depacketiser_new_def u16_of_nat_le)
  from in_engine.control_transfer_inner_ok [OF TrueI this 1(2) assms(2), of a e In "unat ?len" p] obtain s2 d r where
    2: "control_transfer_inner a e (ucast ps) In (unat ?len) in_prepare in_retire p ?d s1 = Ret (s2, d, r)"
      "length (id_buf d) = length data" "id_offset d + id_remain d = unat ?len"
      "drop (id_offset d) (id_buf d) = drop (id_offset d) data" "rp_frame s1 s2" "rp_hw_ok s2" by blast
  obtain s3 where "drop_control_pipe pipe s2 = Ret s3" "rp_inv s3" using 1(3) 2(5,6) by blast
  moreover have "id_offset d \<le> length data" using 2(3) u16_of_nat_le [of "length data"] by simp
  ultimately show ?thesis
    using 1 2 p by (cases r) (simp_all add: rp2040_bulk_in_transfer_def Let_def in_depacketiser_total_def)
qed

lemma rp2040_bulk_out_ok:
  assumes "rp_inv s" and "0 < ps" and "ps \<le> 255"
  shows "\<exists>s' r tog'. rp2040_bulk_out_transfer a e ps data FixedSize tog s = Ret (s', r, tog') \<and> rp_inv s' \<and>
    (\<forall>n. r = Ok n \<longrightarrow> n = length data) \<and>
    (responses s \<noteq> [] \<and> trans_complete (resp_status (hd (responses s))) \<longrightarrow> r = Ok (length data))"
proof -
  let ?len = "word_of_nat (length data) :: u16"
  obtain s1 pipe where 1: "alloc_pipe Control s = Ret (s1, pipe)" "rp_hw_ok s1" "responses s1 = responses s"
    "\<forall>t. rp_frame s1 t \<longrightarrow> rp_hw_ok t \<longrightarrow> (\<exists>t'. drop_control_pipe pipe t = Ret t' \<and> rp_inv t')"
    using alloc_control_pipe [OF assms(1)] by blast
  obtain p where p: "out_packetiser_new ?len ps data tog Never = Ret p"
    by (simp add: out_packetiser_new_def packet_sizes_new_def)
  have "ps \<le> 1023" using assms(3) by (simp add: word_le_nat_alt)
  then have inv: "out_inv p" using p assms(2) by (intro out_new_inv [OF p]) (simp_all add: u16_of_nat_le)
  have "unat ps < 256" "unat ps \<noteq> 0" using assms(2,3) by (simp_all add: word_le_nat_alt word_less_nat_alt)
  then have "unat (ucast ps :: u8) \<noteq> 0" by (simp add: unsigned_ucast_eq take_bit_eq_mod)
  then have ps: "(ucast ps :: u8) \<noteq> 0" by auto
  from out_engine.control_transfer_inner_ok [OF inv TrueI 1(2) ps, of a e Out "length data" out_depacketiser_new]
  obtain s2 d r where 2: "control_transfer_inner a e (ucast ps) Out (length data) out_prepare out_retire p
      out_depacketiser_new s1 = Ret (s2, d, r)" "rp_frame s1 s2" "rp_hw_ok s2"
      "responses s1 \<noteq> [] \<and> trans_complete (resp_status (hd (responses s1))) \<longrightarrow> r = Ok ()" by blast
  obtain s3 where "drop_control_pipe pipe s2 = Ret s3" "rp_inv s3" using 1(4) 2(2,3) by blast
  then show ?thesis
    using 1 2 p by (cases r) (auto simp: rp2040_bulk_out_transfer_def)
qed

interpretation rp2040_bulk: usb_bulk_driver rp2040_host rp_inv "\<lambda>ps. ps \<noteq> 0" itp_ok
proof
  fix s a e data ty tog assume s: "rp_inv s"
  show "\<exists>s' r buf tog'. hc_bulk_in_transfer rp2040_host a e 64 data ty tog s = Ret (s', r, buf, tog') \<and> rp_inv s' \<and>
      length buf = length data \<and> (\<forall>n. r = Ok n \<longrightarrow> n \<le> length data)"
    using rp2040_bulk_in_ok [OF s, of 64 ty a e data tog] by (auto simp: rp2040_host_def)
  show "\<exists>s' r tog'. hc_bulk_out_transfer rp2040_host a e 64 data FixedSize tog s = Ret (s', r, tog') \<and> rp_inv s'"
    using rp2040_bulk_out_ok [OF s, of 64 a e data tog] by (auto simp: rp2040_host_def)
qed

text \<open>The driver after its construction: all pipes free, and the hardware as it answers from then on.\<close>

text \<open>The register writes of the constructor; \<open>host_conn_dis\<close> is bit 0 of the interrupts enabled.\<close>

definition usb_regs_setup :: "UsbRegs \<Rightarrow> UsbRegs" where
  "usb_regs_setup r =
     (let muxed = r\<lparr>to_phy := True, softcon := True\<rparr>;
        powered = muxed\<lparr>vbus_detect := True, vbus_detect_override_en := True\<rparr>;
        enabled = powered\<lparr>sim_timing := False, host_ndevice := True, controller_en := True\<rparr>;
        running = enabled\<lparr>pulldown_en := True, vbus_en := True, keep_alive_en := True, sof_en := True\<rparr>
      in running\<lparr>irq_unmasked := True, ur_inte := 1\<rparr>)"

text \<open>The registers after the reset of the block that the constructor begins with.\<close>

definition usb_regs_reset :: UsbRegs where
  "usb_regs_reset = \<lparr>to_phy = False, softcon = False, vbus_detect = False, vbus_detect_override_en = False,
     sim_timing = False, host_ndevice = False, controller_en = False, pulldown_en = False, vbus_en = False,
     keep_alive_en = False, sof_en = False, irq_unmasked = False, ur_inte = 0\<rparr>"

definition rp2040_new :: "HwResponse list \<Rightarrow> Rp2040 outcome" where
  "rp2040_new rs =
     obind (pool_new 15) (\<lambda>bulk. obind (pool_new 1) (\<lambda>control.
     Ret \<lparr>usb_regs = usb_regs_setup usb_regs_reset, bulk_pipes = bulk, control_pipes = control,
       hw = \<lparr>epbc = ep_buffer_control_zero, dpram = replicate DPRAM_SIZE 0\<rparr>,
       epx_control = \<lparr>buffer_address = 0, double_buffered = False, interrupt_per_buff = False,
         endpoint_type = Control, ep_enable = False\<rparr>,
       setup_packet = \<lparr>bmRequestType = 0, bRequest = 0, wValue = 0, wIndex = 0, wLength = 0\<rparr>,
       addr_endp = (0, 0), sie_receive_data = False, sie_send_data = False, sie_send_setup = False,
       sie_start_trans = False, sie_reset_bus = False,
       int_endpoints = replicate 15 \<lparr>ie_address = 0, ie_endpoint = 0, ie_poll_interval = 0,
         ie_buffer_address = 0, ie_control = ep_buffer_control_zero, ie_memory = replicate 128 0\<rparr>,
       responses = rs\<rparr>))"

definition ack_response :: HwResponse where
  "ack_response = \<lparr>resp_status = sie_status_zero\<lparr>trans_complete := True\<rparr>,
     resp_hw = \<lparr>epbc = ep_buffer_control_zero, dpram = replicate DPRAM_SIZE 0\<rparr>\<rparr>"

lemma rp2040_new_inv:
  assumes "\<forall>r\<in>set rs. hw_ok (resp_hw r)"
  shows "\<exists>s. rp2040_new rs = Ret s \<and> rp_inv s \<and> responses s = rs"
  using assms
  by (auto simp: rp2040_new_def pool_new_def rp_inv_def rp_hw_ok_def hw_ok_def pool_abs_defs)

section \<open>Properties\<close>



text \<open>A device that reports a packet size of 0 for its endpoint 0 makes the next control transfer
to it panic with a division by zero, as soon as the device acknowledges the setup packet. The packet
size comes unchecked from byte 7 of the device descriptor.\<close>

theorem zero_packet_size_panics:
  assumes "rp_inv s" and "responses s = r # rs" and "trans_complete (resp_status r)"
    and "d = DataNone \<or> d = DataIn buf \<and> unat (wLength pkt) \<le> length buf"
  shows "rp2040_control_transfer a 0 pkt d s = Panic"
proof -
  obtain s1 pipe where 1: "alloc_pipe Control s = Ret (s1, pipe)" "responses s1 = r # rs"
    using alloc_control_pipe [OF assms(1)] assms(2)
    by (fastforce simp: alloc_pipe_def obind_Ret_iff split: option.splits)
  obtain s2 where 2: "send_setup a pkt s1 = Ret (s2, Ok ())"
    using 1(2) assms(3) by (auto simp: send_setup_def Let_def)
  have "control_transfer_in a 0 sz b s2 = Panic" if "sz \<le> length b" for sz b
    using that
    by (simp add: control_transfer_in_def in_packetiser_new_def packet_sizes_new_def control_transfer_inner_def)
  then have "control_phases a 0 pkt d s1 = Panic"
    using 2 assms(4) by (auto simp: control_phases_def)
  then show ?thesis using 1 by (simp add: rp2040_control_transfer_def)
qed

theorem zero_packet_size_panics_witness:
  "\<exists>s. rp2040_new [ack_response] = Ret s \<and>
     rp2040_control_transfer 0 0 (get_device_descriptor_packet 18) (DataIn (replicate 18 0)) s = Panic"
proof -
  obtain s where s: "rp2040_new [ack_response] = Ret s" "rp_inv s" "responses s = [ack_response]"
    using rp2040_new_inv [of "[ack_response]"] by (auto simp: ack_response_def hw_ok_def)
  have "trans_complete (resp_status ack_response)" by (simp add: ack_response_def)
  from zero_packet_size_panics [OF s(2,3) this, of "DataIn (replicate 18 0)" "replicate 18 0"
      "get_device_descriptor_packet 18" 0] s(1)
  show ?thesis by (simp add: get_device_descriptor_packet_def)
qed

text \<open>An outgoing bulk transfer is cut to its length modulo 65536 and yet reports that all of it was
sent: if it succeeds it returns the length of the data, while the packets it is cut into carry only
the first \<open>length mod 65536\<close> bytes. A transfer of exactly 65536 bytes sends one empty packet.\<close>

theorem bulk_out_truncates:
  assumes "rp_inv s" and "rp2040_bulk_out_transfer a e 64 data FixedSize tog s = Ret (s', Ok n, tog')"
    and "length mem = DPRAM_SIZE"
  shows "n = length data \<and> (\<exists>p packets. out_packetiser_new (word_of_nat (length data)) 64 data tog Never = Ret p \<and>
     out_run 65536 p mem = Ret packets \<and> concat (map fst packets) = take (length data mod 65536) data)"
proof -
  have "n = length data" using rp2040_bulk_out_ok [OF assms(1), of 64 a e data tog] assms(2) by auto
  moreover obtain p where p: "out_packetiser_new (word_of_nat (length data)) 64 data tog Never = Ret p"
    by (simp add: out_packetiser_new_def packet_sizes_new_def)
  moreover have sz: "unat (word_of_nat (length data) :: u16) = length data mod 65536"
    by (simp add: unat_of_nat take_bit_eq_mod)
  moreover have "\<exists>packets. out_run 65536 p mem = Ret packets \<and>
      concat (map fst packets) = take (unat (word_of_nat (length data) :: u16)) data"
    by (rule out_run_carries [OF p]) (use assms(3) sz in \<open>simp_all add: Suc_le_eq\<close>)
  ultimately show ?thesis by auto
qed

theorem bulk_out_truncates_witness:
  "\<exists>s s' tog'. rp2040_new [ack_response] = Ret s \<and>
     rp2040_bulk_out_transfer 1 2 64 (replicate 65536 7) FixedSize False s = Ret (s', Ok 65536, tog') \<and>
     (\<exists>p packets. out_packetiser_new (word_of_nat 65536) 64 (replicate 65536 7) False Never = Ret p \<and>
        out_run 65536 p (replicate DPRAM_SIZE 0) = Ret packets \<and> concat (map fst packets) = [])"
proof -
  obtain s where s: "rp2040_new [ack_response] = Ret s" "rp_inv s" "responses s = [ack_response]"
    using rp2040_new_inv [of "[ack_response]"] by (auto simp: ack_response_def hw_ok_def)
  have "trans_complete (resp_status ack_response)" by (simp add: ack_response_def)
  then obtain s' tog' where out: "rp2040_bulk_out_transfer 1 2 64 (replicate 65536 7) FixedSize False s =
      Ret (s', Ok 65536, tog')"
    using rp2040_bulk_out_ok [OF s(2), of 64 1 2 "replicate 65536 7" False] s(3) by auto
  from bulk_out_truncates [OF s(2) this, of "replicate DPRAM_SIZE 0"] s(1) out show ?thesis
    by (simp only: length_replicate mod_self take_0) blast
qed

text \<open>The detection of devices reports every change and nothing else: over any sequence of readings
of the speed field, starting from no device, the events are the readings' statuses with successive
repetitions removed, less an initial absence.\<close>

theorem device_detect_reports_changes:
  "detect_run device_detect_new speeds = tl (remdups_adj (Absent # map speed_status speeds))"
  using detect_run_changes [of device_detect_new speeds] by (simp add: device_detect_new_def)

text \<open>Polling an interrupt pipe of the driver returns; a packet it yields holds at most 64 bytes, so
that reading its contents never fails, its contents are what the hardware stored for that endpoint,
and the expected data toggle alternates with every packet and only then.\<close>

theorem interrupt_packets_fit:
  assumes "rp_inv s" and "0 < unat (pipe_which (itp_pipe itp))" and "unat (pipe_which (itp_pipe itp)) \<le> 15"
  shows "\<exists>s' itp' m. interrupt_poll itp s = Ret (s', itp', m) \<and> rp_inv s' \<and>
    (itp_data_toggle itp' \<noteq> itp_data_toggle itp \<longleftrightarrow> m \<noteq> None) \<and>
    (\<forall>pkt. m = Some pkt \<longrightarrow> (\<exists>ie. ie = int_endpoints s ! (unat (pipe_which (itp_pipe itp)) - 1) \<and>
       interrupt_packet_deref pkt = Ret (take (min (unat (length_0 (ie_control ie))) 64) (ie_memory ie)) \<and>
       ip_address pkt = ie_address ie))"
  using interrupt_poll_ok [OF assms(1), of itp] assms(2,3) unfolding itp_ok_def by blast

theorem interrupt_packets_fit_witness:
  "\<exists>s s' itp' m. rp2040_new [] = Ret s \<and>
     interrupt_poll \<lparr>itp_pipe = \<lparr>pipe_pooled = Pooled 2, pipe_which = 3\<rparr>, itp_max_packet_size = 8,
       itp_data_toggle = False\<rparr> s = Ret (s', itp', m) \<and> rp_inv s' \<and> (itp_data_toggle itp' \<longleftrightarrow> m \<noteq> None)"
proof -
  obtain s where s: "rp2040_new [] = Ret s" "rp_inv s" using rp2040_new_inv [of "[]"] by auto
  from interrupt_packets_fit [OF s(2), of "\<lparr>itp_pipe = \<lparr>pipe_pooled = Pooled 2, pipe_which = 3\<rparr>,
      itp_max_packet_size = 8, itp_data_toggle = False\<rparr>"] s(1)
  show ?thesis by auto
qed

end
