(* ===== verification/Scsi.thy ===== *)
theory Scsi
  imports Wire
begin

text \<open>
  \<open>cotton-scsi/src/scsi_transport.rs\<close> and \<open>scsi_device.rs\<close>: the interface of a transport for SCSI
  commands, the command blocks, and the device operations with their upgrading of errors through
  REQUEST SENSE. A transport is a record of its one operation. Command and reply structs are
  \<open>repr(C)\<close> structs of bytes, so a command is the list of its bytes in order. The locale
  \<open>scsi_transport\<close> states what a transport promises.
\<close>

section \<open>Transports\<close>

datatype ScsiDataPhase = CmdIn "u8 list" | CmdOut "u8 list" | CmdNone

datatype ScsiError =
    BecomingReady | StartUnitRequired | ManualInterventionRequired | FormatInProgress
  | SelfTestInProgress | PowerCycleRequired | Overheat | EnclosureDegraded | WriteError
  | WriteReallocationFailed | UnrecoveredReadError | ReadRetriesExhausted | ReadErrorTooLong
  | ReadReallocationFailed | LogicalBlockNotFound | RecordNotFound | InvalidFieldInParameterList
  | ParameterNotSupported | ParameterValueInvalid | LogicalUnitSelfTestFailed | SelfTestFailed
  | PositioningError | ParameterListLengthError | MiscompareDuringVerify
  | InvalidCommandOperationCode | LogicalBlockAddressOutOfRange | InvalidFieldInCDB
  | LogicalUnitNotSupported | NotReady | MediumError | HardwareError | IllegalRequest
  | UnitAttention | DataProtect | BlankCheck | VendorSpecific | CopyAborted | Aborted
  | VolumeOverflow | Miscompare

datatype 'e Error = CommandFailed | ProtocolError | Transport 'e | Scsi ScsiError

text \<open>
  The operation of a transport returns its state, the result, and the buffer of an IN data phase as
  the command left it (the empty list for the other data phases).
\<close>

record ('t, 'e) ScsiTransport =
  scsi_command :: "u8 list \<Rightarrow> ScsiDataPhase \<Rightarrow> 't \<Rightarrow> ('t \<times> ('e Error, usize) result \<times> u8 list) outcome"

fun data_buffer :: "ScsiDataPhase \<Rightarrow> u8 list" where
  "data_buffer (CmdIn b) = b"
| "data_buffer (CmdOut b) = []"
| "data_buffer CmdNone = []"

text \<open>
  What a transport promises: \<open>tinv k\<close> holds of a state in which \<open>k\<close> more commands can be issued.
\<close>

locale scsi_transport =
  fixes T :: "('t, 'e) ScsiTransport"
    and tinv :: "nat \<Rightarrow> 't \<Rightarrow> bool"
  assumes command_ok: "tinv (Suc k) t \<Longrightarrow> length cmd \<le> 16 \<Longrightarrow>
      \<exists>t' r buf. scsi_command T cmd d t = Ret (t', r, buf) \<and> tinv k t' \<and>
        length buf = length (data_buffer d) \<and> (\<forall>n b. r = Ok n \<longrightarrow> d = CmdIn b \<longrightarrow> n \<le> length b)"
    and fewer: "tinv (Suc k) t \<Longrightarrow> tinv k t"

section \<open>Command blocks\<close>

definition Read10 :: "u32 \<Rightarrow> u16 \<Rightarrow> u8 list" where
  "Read10 lba count = [0x28, 0] @ u32_to_be_bytes lba @ [0] @ u16_to_be_bytes count @ [0]"

definition Read16 :: "u64 \<Rightarrow> u32 \<Rightarrow> u8 list" where
  "Read16 lba count = [0x88, 0] @ u64_to_be_bytes lba @ u32_to_be_bytes count @ [0, 0]"

definition Write10 :: "u32 \<Rightarrow> u16 \<Rightarrow> u8 list" where
  "Write10 lba count = [0x2A, 0] @ u32_to_be_bytes lba @ [0] @ u16_to_be_bytes count @ [0]"

definition Write16 :: "u64 \<Rightarrow> u32 \<Rightarrow> u8 list" where
  "Write16 lba count = [0x8A, 0] @ u64_to_be_bytes lba @ u32_to_be_bytes count @ [0, 0]"

definition ReadCapacity10 :: "u8 list" where
  "ReadCapacity10 = [0x25, 0] @ [0, 0, 0, 0] @ [0, 0, 0] @ [0]"

definition ReadCapacity16 :: "u8 list" where
  "ReadCapacity16 = [0x9E, 0x10] @ replicate 8 0 @ [0, 0, 0, 32] @ [0, 0]"

definition TestUnitReady :: "u8 list" where
  "TestUnitReady = [0x00] @ replicate 4 0 @ [0]"

definition RequestSense :: "u8 list" where
  "RequestSense = [3, 0] @ [0, 0] @ [18, 0]"

definition ReportSupportedOperationCodes :: "u8 \<Rightarrow> u16 option \<Rightarrow> u8 list" where
  "ReportSupportedOperationCodes opcode service_action =
     [0xA3, 0x0C, 3, opcode] @ u16_to_be_bytes (case service_action of Some a \<Rightarrow> a | None \<Rightarrow> 0) @
     [0, 0, 0, 4] @ [0, 0]"

definition Inquiry :: "u8 option \<Rightarrow> u16 \<Rightarrow> u8 list" where
  "Inquiry evpd len =
     [0x12, if evpd = None then 0 else 1, case evpd of Some p \<Rightarrow> p | None \<Rightarrow> 0] @ u16_to_be_bytes len @ [0]"

lemmas cdb_defs =
  Read10_def Read16_def Write10_def Write16_def ReadCapacity10_def ReadCapacity16_def
  TestUnitReady_def RequestSense_def ReportSupportedOperationCodes_def Inquiry_def

lemma cdb_lengths [simp]:
  "length (Read10 l c) = 10" "length (Read16 l' c') = 16" "length (Write10 l c) = 10"
  "length (Write16 l' c') = 16" "length ReadCapacity10 = 10" "length ReadCapacity16 = 16"
  "length TestUnitReady = 6" "length RequestSense = 6"
  "length (ReportSupportedOperationCodes opc sa) = 12" "length (Inquiry e n) = 6"
  by (simp_all add: cdb_defs)

section \<open>Replies\<close>

record RequestSenseReply =
  rs_response_code :: u8
  rs_sense_key :: u8
  rs_information :: "u8 list"
  rs_additional_length :: u8
  rs_command_specific_information :: "u8 list"
  rs_additional_sense_code :: u8
  rs_additional_sense_code_qualifier :: u8
  rs_fru_code :: u8
  rs_sense_key_specific :: "u8 list"

definition request_sense_reply_of_bytes :: "u8 list \<Rightarrow> RequestSenseReply" where
  "request_sense_reply_of_bytes b =
     \<lparr>rs_response_code = b ! 0, rs_sense_key = b ! 2, rs_information = take 4 (drop 3 b),
      rs_additional_length = b ! 7, rs_command_specific_information = take 4 (drop 8 b),
      rs_additional_sense_code = b ! 12, rs_additional_sense_code_qualifier = b ! 13,
      rs_fru_code = b ! 14, rs_sense_key_specific = take 3 (drop 15 b)\<rparr>"

datatype PeripheralType =
    Disk | Sequential | Printer | Processor | WriteOnce | Optical | Scanner | OpticalMemory
  | Changer | Communications | Obsolete10 | Obsolete11 | StorageArray | EnclosureServices
  | SimplifiedDirect | OpticalCardReader | BridgeController | ObjectStorage | Automation
  | Reserved13 | Reserved14 | Reserved15 | Reserved16 | Reserved17 | Reserved18 | Reserved19
  | Reserved1A | Reserved1B | Reserved1C | Reserved1D | WellKnownUnit | Other

definition peripheral_types :: "PeripheralType list" where
  "peripheral_types =
     [Disk, Sequential, Printer, Processor, WriteOnce, Optical, Scanner, OpticalMemory,
      Changer, Communications, Obsolete10, Obsolete11, StorageArray, EnclosureServices,
      SimplifiedDirect, OpticalCardReader, BridgeController, ObjectStorage, Automation,
      Reserved13, Reserved14, Reserved15, Reserved16, Reserved17, Reserved18, Reserved19,
      Reserved1A, Reserved1B, Reserved1C, Reserved1D, WellKnownUnit, Other]"

text \<open>The transmutation of a discriminant; one that is out of range is a panic of the model.\<close>

definition peripheral_type_of :: "u8 \<Rightarrow> PeripheralType outcome" where
  "peripheral_type_of n = index peripheral_types (unat n)"

record InquiryData =
  peripheral_type :: PeripheralType
  is_removable :: bool

record BlockLimitsPage =
  bl_peripheral_device_type :: u8
  bl_page_code :: u8
  bl_page_length :: "u8 list"
  bl_wsnz :: u8
  bl_max_compare_and_write :: u8
  bl_optimal_transfer_length_granularity :: "u8 list"
  bl_maximum_transfer_length :: "u8 list"
  bl_optimal_transfer_length :: "u8 list"
  bl_maximum_prefetch_length :: "u8 list"
  bl_maximum_unmap_lba_count :: "u8 list"
  bl_maximum_unmap_block_descriptor_count :: "u8 list"
  bl_optimal_unmap_granularity :: "u8 list"
  bl_unmap_granularity_alignment :: "u8 list"
  bl_maximum_write_same_length :: "u8 list"
  bl_maximum_atomic_transfer_length :: "u8 list"
  bl_atomic_alignment :: "u8 list"
  bl_atomic_transfer_length_granularity :: "u8 list"
  bl_maximum_atomic_transfer_length_with_atomic_boundary :: "u8 list"
  bl_maximum_atomic_boundary_size :: "u8 list"

definition field_at :: "u8 list \<Rightarrow> nat \<Rightarrow> nat \<Rightarrow> u8 list" where
  "field_at b i n = take n (drop i b)"

definition block_limits_of_bytes :: "u8 list \<Rightarrow> BlockLimitsPage" where
  "block_limits_of_bytes b =
     \<lparr>bl_peripheral_device_type = b ! 0, bl_page_code = b ! 1, bl_page_length = field_at b 2 2,
      bl_wsnz = b ! 4, bl_max_compare_and_write = b ! 5,
      bl_optimal_transfer_length_granularity = field_at b 6 2,
      bl_maximum_transfer_length = field_at b 8 4, bl_optimal_transfer_length = field_at b 12 4,
      bl_maximum_prefetch_length = field_at b 16 4, bl_maximum_unmap_lba_count = field_at b 20 4,
      bl_maximum_unmap_block_descriptor_count = field_at b 24 4,
      bl_optimal_unmap_granularity = field_at b 28 4,
      bl_unmap_granularity_alignment = field_at b 32 4,
      bl_maximum_write_same_length = field_at b 36 8,
      bl_maximum_atomic_transfer_length = field_at b 44 4,
      bl_atomic_alignment = field_at b 48 4, bl_atomic_transfer_length_granularity = field_at b 52 4,
      bl_maximum_atomic_transfer_length_with_atomic_boundary = field_at b 56 4,
      bl_maximum_atomic_boundary_size = field_at b 60 4\<rparr>"

section \<open>Errors\<close>

definition ERRORS3 :: "(u8 \<times> u8 \<times> u8 \<times> ScsiError) list" where
  "ERRORS3 =
     [(2, 4, 1, BecomingReady), (2, 4, 2, StartUnitRequired), (2, 4, 3, ManualInterventionRequired),
      (2, 4, 4, FormatInProgress), (2, 4, 9, SelfTestInProgress), (2, 4, 0x22, PowerCycleRequired),
      (1, 0x0B, 0x01, Overheat), (1, 0x0B, 0x02, EnclosureDegraded), (3, 0x0C, 0x00, WriteError),
      (3, 0x0C, 0x02, WriteReallocationFailed), (1, 0x11, 0x00, UnrecoveredReadError),
      (1, 0x11, 0x01, ReadRetriesExhausted), (1, 0x11, 0x02, ReadErrorTooLong),
      (3, 0x11, 0x04, ReadReallocationFailed), (3, 0x14, 0x00, LogicalBlockNotFound),
      (3, 0x14, 0x01, RecordNotFound), (5, 0x26, 0x00, InvalidFieldInParameterList),
      (5, 0x26, 0x01, ParameterNotSupported), (5, 0x26, 0x02, ParameterValueInvalid),
      (4, 0x3E, 0x03, LogicalUnitSelfTestFailed), (4, 0x42, 0x00, SelfTestFailed)]"

definition ERRORS2 :: "(u8 \<times> u8 \<times> ScsiError) list" where
  "ERRORS2 =
     [(3, 0x14, PositioningError), (5, 0x1A, ParameterListLengthError),
      (0xE, 0x1D, MiscompareDuringVerify), (5, 0x20, InvalidCommandOperationCode),
      (0xD, 0x21, LogicalBlockAddressOutOfRange), (5, 0x24, InvalidFieldInCDB),
      (5, 0x25, LogicalUnitNotSupported)]"

definition ERRORS1 :: "(u8 \<times> ScsiError) list" where
  "ERRORS1 =
     [(2, NotReady), (3, MediumError), (4, HardwareError), (5, IllegalRequest), (6, UnitAttention),
      (7, DataProtect), (8, BlankCheck), (9, VendorSpecific), (10, CopyAborted), (11, Aborted),
      (13, VolumeOverflow), (14, Miscompare)]"

text \<open>The three loops over the tables: the first entry that matches, the most specific table first.\<close>

definition sense_error :: "u8 \<Rightarrow> u8 \<Rightarrow> u8 \<Rightarrow> ScsiError option" where
  "sense_error key asc ascq =
     (case find (\<lambda>(k, a, q, _). key = k \<and> asc = a \<and> ascq = q) ERRORS3 of
        Some (_, _, _, e) \<Rightarrow> Some e
      | None \<Rightarrow>
        (case find (\<lambda>(k, a, _). key = k \<and> asc = a) ERRORS2 of
           Some (_, _, e) \<Rightarrow> Some e
         | None \<Rightarrow>
           (case find (\<lambda>(k, _). key = k) ERRORS1 of
              Some (_, e) \<Rightarrow> Some e
            | None \<Rightarrow> None)))"

section \<open>Device operations\<close>

text \<open>A command without data, or with data whose buffer the caller does not use after an error.\<close>

definition run_command ::
    "('t, 'e) ScsiTransport \<Rightarrow> u8 list \<Rightarrow> ScsiDataPhase \<Rightarrow> ('t, 'e Error, usize \<times> u8 list) prog" where
  "run_command T cmd d = (\<lambda>t.
     case scsi_command T cmd d t of
       Panic \<Rightarrow> Panic
     | Ret (t', Inl e, buf) \<Rightarrow> Ret (t', Err e)
     | Ret (t', Inr n, buf) \<Rightarrow> Ret (t', Ok (n, buf)))"

definition request_sense ::
    "try_from_bytes \<Rightarrow> ('t, 'e) ScsiTransport \<Rightarrow> ('t, 'e Error, RequestSenseReply) prog" where
  "request_sense tfb T =
     bindR (run_command T RequestSense (CmdIn (replicate 18 0))) (\<lambda>(sz, buf).
     bindR (liftO (slice buf 0 sz)) (\<lambda>b.
     if tfb 18 b then returnR (request_sense_reply_of_bytes b) else throwR ProtocolError))"

text \<open>\<open>try_upgrade_error\<close> returns the error to report, so it does not fail itself.\<close>

definition try_upgrade_error ::
    "try_from_bytes \<Rightarrow> ('t, 'e) ScsiTransport \<Rightarrow> 'e Error \<Rightarrow> 't \<Rightarrow> ('t \<times> 'e Error) outcome" where
  "try_upgrade_error tfb T e t =
     (if e = CommandFailed then
        (case request_sense tfb T t of
           Panic \<Rightarrow> Panic
         | Ret (t', Inl _) \<Rightarrow> Ret (t', e)
         | Ret (t', Inr r) \<Rightarrow>
             (case sense_error (rs_sense_key r) (rs_additional_sense_code r)
                     (rs_additional_sense_code_qualifier r) of
                Some s \<Rightarrow> Ret (t', Scsi s)
              | None \<Rightarrow> Ret (t', e)))
      else Ret (t, e))"

text \<open>A command whose error is upgraded: the pattern of all device operations.\<close>

definition upgrading ::
    "try_from_bytes \<Rightarrow> ('t, 'e) ScsiTransport \<Rightarrow> ('t, 'e Error, 'a) prog \<Rightarrow> ('t, 'e Error, 'a) prog" where
  "upgrading tfb T m = (\<lambda>t.
     case m t of
       Panic \<Rightarrow> Panic
     | Ret (t', Inr x) \<Rightarrow> Ret (t', Ok x)
     | Ret (t', Inl e) \<Rightarrow>
         (case try_upgrade_error tfb T e t' of Panic \<Rightarrow> Panic | Ret (t'', e') \<Rightarrow> Ret (t'', Err e')))"

text \<open>\<open>command_response\<close> for a reply of \<open>n\<close> bytes, which it returns as they are in memory.\<close>

definition command_response ::
    "try_from_bytes \<Rightarrow> ('t, 'e) ScsiTransport \<Rightarrow> u8 list \<Rightarrow> nat \<Rightarrow> ('t, 'e Error, u8 list) prog" where
  "command_response tfb T cmd n =
     bindR (upgrading tfb T (run_command T cmd (CmdIn (replicate n 0)))) (\<lambda>(sz, buf).
     if sz < n then throwR ProtocolError else returnR buf)"

definition read_capacity_10 ::
    "try_from_bytes \<Rightarrow> ('t, 'e) ScsiTransport \<Rightarrow> ('t, 'e Error, u32 \<times> u32) prog" where
  "read_capacity_10 tfb T =
     bindR (command_response tfb T ReadCapacity10 8) (\<lambda>reply.
     returnR (u32_from_be_bytes (field_at reply 0 4), u32_from_be_bytes (field_at reply 4 4)))"

definition read_capacity_16 ::
    "try_from_bytes \<Rightarrow> ('t, 'e) ScsiTransport \<Rightarrow> ('t, 'e Error, u64 \<times> u32) prog" where
  "read_capacity_16 tfb T =
     bindR (command_response tfb T ReadCapacity16 32) (\<lambda>reply.
     returnR (u64_from_be_bytes (field_at reply 0 8), u32_from_be_bytes (field_at reply 8 4)))"

definition report_supported_operation_codes ::
    "try_from_bytes \<Rightarrow> ('t, 'e) ScsiTransport \<Rightarrow> u8 \<Rightarrow> u16 option \<Rightarrow> ('t, 'e Error, bool) prog" where
  "report_supported_operation_codes tfb T opcode service_action =
     bindR (command_response tfb T (ReportSupportedOperationCodes opcode service_action) 4) (\<lambda>reply.
     returnR (reply ! 1 AND 7 = 3))"

definition test_unit_ready ::
    "try_from_bytes \<Rightarrow> ('t, 'e) ScsiTransport \<Rightarrow> ('t, 'e Error, unit) prog" where
  "test_unit_ready tfb T =
     bindR (upgrading tfb T (run_command T TestUnitReady CmdNone)) (\<lambda>_. returnR ())"

definition inquiry :: "try_from_bytes \<Rightarrow> ('t, 'e) ScsiTransport \<Rightarrow> ('t, 'e Error, InquiryData) prog" where
  "inquiry tfb T =
     bindR (command_response tfb T (Inquiry None 36) 36) (\<lambda>reply.
     bindR (liftO (peripheral_type_of (reply ! 0 AND 0x1F))) (\<lambda>ty.
     returnR \<lparr>peripheral_type = ty, is_removable = (reply ! 1 AND 0x80 \<noteq> 0)\<rparr>))"

definition block_limits_page ::
    "try_from_bytes \<Rightarrow> ('t, 'e) ScsiTransport \<Rightarrow> ('t, 'e Error, BlockLimitsPage) prog" where
  "block_limits_page tfb T =
     bindR (command_response tfb T (Inquiry (Some 0xB0) 64) 64) (\<lambda>reply.
     returnR (block_limits_of_bytes reply))"

text \<open>The reads return the buffer with the count; the writes return the count.\<close>

definition read_10 ::
    "try_from_bytes \<Rightarrow> ('t, 'e) ScsiTransport \<Rightarrow> u32 \<Rightarrow> u16 \<Rightarrow> u8 list \<Rightarrow> ('t, 'e Error, usize \<times> u8 list) prog" where
  "read_10 tfb T start_block count buf =
     upgrading tfb T (run_command T (Read10 start_block count) (CmdIn buf))"

definition read_16 ::
    "try_from_bytes \<Rightarrow> ('t, 'e) ScsiTransport \<Rightarrow> u64 \<Rightarrow> u32 \<Rightarrow> u8 list \<Rightarrow> ('t, 'e Error, usize \<times> u8 list) prog" where
  "read_16 tfb T start_block count buf =
     upgrading tfb T (run_command T (Read16 start_block count) (CmdIn buf))"

definition write_10 ::
    "try_from_bytes \<Rightarrow> ('t, 'e) ScsiTransport \<Rightarrow> u32 \<Rightarrow> u16 \<Rightarrow> u8 list \<Rightarrow> ('t, 'e Error, usize) prog" where
  "write_10 tfb T start_block count buf =
     bindR (upgrading tfb T (run_command T (Write10 start_block count) (CmdOut buf))) (\<lambda>(n, _). returnR n)"

definition write_16 ::
    "try_from_bytes \<Rightarrow> ('t, 'e) ScsiTransport \<Rightarrow> u64 \<Rightarrow> u32 \<Rightarrow> u8 list \<Rightarrow> ('t, 'e Error, usize) prog" where
  "write_16 tfb T start_block count buf =
     bindR (upgrading tfb T (run_command T (Write16 start_block count) (CmdOut buf))) (\<lambda>(n, _). returnR n)"

section \<open>Device operations over a transport\<close>

lemma safeR_budget_bind:
  assumes "safeR P m (\<lambda>t r. P' t \<and> (\<forall>x. r = Ok x \<longrightarrow> Q' x))"
    and "\<And>x. Q' x \<Longrightarrow> safeR P' (f x) (\<lambda>t r. P'' t \<and> (\<forall>x. r = Ok x \<longrightarrow> Q x))"
    and "\<And>t. P' t \<Longrightarrow> P'' t"
  shows "safeR P (bindR m f) (\<lambda>t r. P'' t \<and> (\<forall>x. r = Ok x \<longrightarrow> Q x))"
proof (rule safeR_bind [where R = "\<lambda>x t. P' t \<and> Q' x"])
  show "safeR P m (\<lambda>t r. case r of Inl e \<Rightarrow> P'' t \<and> (\<forall>x. Err e = Ok x \<longrightarrow> Q x) | Inr x \<Rightarrow> P' t \<and> Q' x)"
    using assms(1) by (rule safeR_conseq) (use assms(3) in \<open>auto split: sum.splits\<close>)
  show "safeR (\<lambda>t. P' t \<and> Q' x) (f x) (\<lambda>t r. P'' t \<and> (\<forall>x. r = Ok x \<longrightarrow> Q x))" for x
    using assms(2) [of x] by (cases "Q' x") (auto simp: safeR_def)
qed

context scsi_transport
begin

lemma run_command_safe:
  assumes "length cmd \<le> 16"
  shows "safeR (tinv (Suc k)) (run_command T cmd d) (\<lambda>t r. tinv k t \<and> (\<forall>x. r = Ok x \<longrightarrow>
    length (snd x) = length (data_buffer d) \<and> (\<forall>b. d = CmdIn b \<longrightarrow> fst x \<le> length b)))"
proof (unfold safeR_def, intro allI impI)
  fix t assume "tinv (Suc k) t"
  from command_ok [OF this assms, of d] obtain t' r buf where
    c: "scsi_command T cmd d t = Ret (t', r, buf)" "tinv k t'" "length buf = length (data_buffer d)"
      "\<forall>n b. r = Ok n \<longrightarrow> d = CmdIn b \<longrightarrow> n \<le> length b" by blast
  show "\<exists>t' r. run_command T cmd d t = Ret (t', r) \<and> tinv k t' \<and> (\<forall>x. r = Ok x \<longrightarrow>
      length (snd x) = length (data_buffer d) \<and> (\<forall>b. d = CmdIn b \<longrightarrow> fst x \<le> length b))"
    using c by (cases r) (auto simp: run_command_def)
qed

lemma request_sense_safe: "safeR (tinv (Suc k)) (request_sense tfb T) (\<lambda>t r. tinv k t \<and> (\<forall>x. r = Ok x \<longrightarrow> True))"
  unfolding request_sense_def
proof (rule safeR_budget_bind [OF run_command_safe])
  fix x :: "usize \<times> u8 list"
  assume "length (snd x) = length (data_buffer (CmdIn (replicate 18 0))) \<and>
    (\<forall>b. CmdIn (replicate 18 0) = CmdIn b \<longrightarrow> fst x \<le> length b)"
  then have "slice (snd x) 0 (fst x) = Ret (take (fst x) (snd x))" by simp
  then show "safeR (tinv k) (case x of (sz, buf) \<Rightarrow> bindR (liftO (slice buf 0 sz)) (\<lambda>b.
      if tfb 18 b then returnR (request_sense_reply_of_bytes b) else throwR ProtocolError))
      (\<lambda>t r. tinv k t \<and> (\<forall>x. r = Ok x \<longrightarrow> True))"
    by (cases x) (simp add: safeR_def bindR_def)
qed simp_all

lemma try_upgrade_error_safe:
  assumes "tinv (Suc k) t"
  shows "\<exists>t' e'. try_upgrade_error tfb T e t = Ret (t', e') \<and> tinv k t'"
proof (cases "e = CommandFailed")
  case True
  obtain t' r where r: "request_sense tfb T t = Ret (t', r)" "tinv k t'"
    using request_sense_safe [of k tfb] assms unfolding safeR_def by blast
  show ?thesis
  proof (cases r)
    case (Inl a)
    then show ?thesis using r True by (simp add: try_upgrade_error_def)
  next
    case (Inr b)
    then show ?thesis using r True by (auto simp: try_upgrade_error_def split: option.splits)
  qed
qed (use assms fewer in \<open>simp add: try_upgrade_error_def\<close>)

lemma upgrading_safe:
  assumes "safeR (tinv (Suc (Suc k))) m (\<lambda>t r. tinv (Suc k) t \<and> (\<forall>x. r = Ok x \<longrightarrow> Q x))"
  shows "safeR (tinv (Suc (Suc k))) (upgrading tfb T m) (\<lambda>t r. tinv k t \<and> (\<forall>x. r = Ok x \<longrightarrow> Q x))"
proof (unfold safeR_def, intro allI impI)
  fix t assume "tinv (Suc (Suc k)) t"
  then obtain t' r where m: "m t = Ret (t', r)" "tinv (Suc k) t'" "\<forall>x. r = Ok x \<longrightarrow> Q x"
    using assms unfolding safeR_def by blast
  show "\<exists>t' r. upgrading tfb T m t = Ret (t', r) \<and> tinv k t' \<and> (\<forall>x. r = Ok x \<longrightarrow> Q x)"
  proof (cases r)
    case (Inl e)
    then show ?thesis using m try_upgrade_error_safe [OF m(2), of tfb e] by (auto simp: upgrading_def)
  next
    case (Inr x)
    then show ?thesis using m fewer by (simp add: upgrading_def)
  qed
qed

lemma command_response_safe:
  assumes "length cmd \<le> 16"
  shows "safeR (tinv (Suc (Suc k))) (command_response tfb T cmd n)
    (\<lambda>t r. tinv k t \<and> (\<forall>b. r = Ok b \<longrightarrow> length b = n))"
  unfolding command_response_def
  by (rule safeR_budget_bind [OF upgrading_safe [OF run_command_safe [OF assms]]])
    (auto simp: safeR_def split: prod.splits)

lemma upgrading_run_safe:
  assumes "length cmd \<le> 16"
  shows "safeR (tinv (Suc (Suc k))) (upgrading tfb T (run_command T cmd d)) (\<lambda>t r. tinv k t \<and> (\<forall>x. r = Ok x \<longrightarrow>
    length (snd x) = length (data_buffer d) \<and> (\<forall>b. d = CmdIn b \<longrightarrow> fst x \<le> length b)))"
  by (rule upgrading_safe [OF run_command_safe [OF assms]])

lemma reads_safe:
  "safeR (tinv (Suc (Suc k))) (read_10 tfb T lba c buf)
     (\<lambda>t r. tinv k t \<and> (\<forall>x. r = Ok x \<longrightarrow> length (snd x) = length buf \<and> fst x \<le> length buf))"
  "safeR (tinv (Suc (Suc k))) (read_16 tfb T lba' c' buf)
     (\<lambda>t r. tinv k t \<and> (\<forall>x. r = Ok x \<longrightarrow> length (snd x) = length buf \<and> fst x \<le> length buf))"
  unfolding read_10_def read_16_def
  by (rule safeR_conseq [OF upgrading_run_safe]; simp)+

lemma writes_safe:
  "safeR (tinv (Suc (Suc k))) (write_10 tfb T lba c buf) (\<lambda>t r. tinv k t \<and> (\<forall>x. r = Ok x \<longrightarrow> True))"
  "safeR (tinv (Suc (Suc k))) (write_16 tfb T lba' c' buf) (\<lambda>t r. tinv k t \<and> (\<forall>x. r = Ok x \<longrightarrow> True))"
  unfolding write_10_def write_16_def
  by (rule safeR_budget_bind [OF upgrading_run_safe]; simp add: safeR_def split_beta)+

lemma peripheral_type_total: "\<exists>ty. peripheral_type_of (x AND 0x1F) = Ret ty"
proof -
  have "x AND 0x1F \<le> (0x1F :: u8)" by (rule word_and_le1)
  then have "unat (x AND 0x1F) \<le> unat (0x1F :: u8)" by (simp only: word_le_nat_alt)
  then have "unat (x AND 0x1F) < length peripheral_types" by (simp add: peripheral_types_def)
  then show ?thesis by (simp add: peripheral_type_of_def)
qed

lemma inquiry_safe: "safeR (tinv (Suc (Suc k))) (inquiry tfb T) (\<lambda>t r. tinv k t \<and> (\<forall>x. r = Ok x \<longrightarrow> True))"
  unfolding inquiry_def
proof (rule safeR_budget_bind [OF command_response_safe])
  fix reply :: "u8 list"
  obtain ty where "peripheral_type_of (reply ! 0 AND 0x1F) = Ret ty" using peripheral_type_total by blast
  then show "safeR (tinv k) (bindR (liftO (peripheral_type_of (reply ! 0 AND 0x1F))) (\<lambda>ty.
      returnR \<lparr>peripheral_type = ty, is_removable = (reply ! 1 AND 0x80 \<noteq> 0)\<rparr>))
      (\<lambda>t r. tinv k t \<and> (\<forall>x. r = Ok x \<longrightarrow> True))"
    by (simp add: safeR_def bindR_def)
qed simp_all

lemma test_unit_ready_safe:
  "safeR (tinv (Suc (Suc k))) (test_unit_ready tfb T) (\<lambda>t r. tinv k t \<and> (\<forall>x. r = Ok x \<longrightarrow> True))"
  unfolding test_unit_ready_def by (rule safeR_budget_bind [OF upgrading_run_safe]) (simp_all add: safeR_def TestUnitReady_def)

lemma read_capacity_safe:
  "safeR (tinv (Suc (Suc k))) (read_capacity_10 tfb T) (\<lambda>t r. tinv k t \<and> (\<forall>x. r = Ok x \<longrightarrow> True))"
  "safeR (tinv (Suc (Suc k))) (read_capacity_16 tfb T) (\<lambda>t r. tinv k t \<and> (\<forall>x. r = Ok x \<longrightarrow> True))"
  unfolding read_capacity_10_def read_capacity_16_def
  by (rule safeR_budget_bind [OF command_response_safe]; simp add: safeR_def ReadCapacity10_def ReadCapacity16_def)+

end

section \<open>Properties\<close>

text \<open>The tables of sense codes have no dead entries, and the most specific one wins: a sense key
with code and qualifier that the first table lists is reported as listed there; a key and code that
the second table lists, with any other qualifier, as listed there; and a key that the third table
lists as listed there with every code that neither of the others lists.\<close>

theorem sense_error_tables:
  "(\<forall>(k, a, q, e)\<in>set ERRORS3. sense_error k a q = Some e) \<and>
   (\<forall>(k, a, e)\<in>set ERRORS2. \<forall>q. q \<notin> {q'. \<exists>e'. (k, a, q', e') \<in> set ERRORS3} \<longrightarrow> sense_error k a q = Some e) \<and>
   (\<forall>(k, e)\<in>set ERRORS1. \<forall>a q. a \<notin> {a'. \<exists>e'. (k, a', e') \<in> set ERRORS2} \<and>
      a \<notin> {a'. \<exists>q' e'. (k, a', q', e') \<in> set ERRORS3} \<longrightarrow> sense_error k a q = Some e)"
proof -
  have 3: "\<forall>(k, a, q, e)\<in>set ERRORS3. sense_error k a q = Some e" by code_simp
  have none3: "find (\<lambda>(k', a', q', _). k = k' \<and> a = a' \<and> q = q') ERRORS3 = None"
    if "\<And>e. (k, a, q, e) \<notin> set ERRORS3" for k a q
    using that by (auto simp: find_None_iff)
  have none2: "find (\<lambda>(k', a', _). k = k' \<and> a = a') ERRORS2 = None"
    if "\<And>e. (k, a, e) \<notin> set ERRORS2" for k a
    using that by (auto simp: find_None_iff)
  have find2: "\<forall>(k, a, e)\<in>set ERRORS2. find (\<lambda>(k', a', _). k = k' \<and> a = a') ERRORS2 = Some (k, a, e)"
    by code_simp
  have find1: "\<forall>(k, e)\<in>set ERRORS1. find (\<lambda>(k', _). k = k') ERRORS1 = Some (k, e)" by code_simp
  have "sense_error k a q = Some e"
    if "(k, a, e) \<in> set ERRORS2" "q \<notin> {q'. \<exists>e'. (k, a, q', e') \<in> set ERRORS3}" for k a e q
    using that none3 [of k a q] find2 by (fastforce simp: sense_error_def)
  moreover have "sense_error k a q = Some e"
    if "(k, e) \<in> set ERRORS1" "a \<notin> {a'. \<exists>e'. (k, a', e') \<in> set ERRORS2}"
      "a \<notin> {a'. \<exists>q' e'. (k, a', q', e') \<in> set ERRORS3}" for k a e q
    using that none3 [of k a q] none2 [of k a] find1 by (fastforce simp: sense_error_def)
  ultimately show ?thesis using 3 by blast
qed

theorem sense_error_tables_witness:
  "sense_error 2 4 1 = Some BecomingReady \<and> sense_error 3 0x14 7 = Some PositioningError \<and>
   sense_error 6 0x29 0 = Some UnitAttention"
proof -
  have "(2, 4, 1, BecomingReady) \<in> set ERRORS3" "(3, 0x14, PositioningError) \<in> set ERRORS2"
    "(6, UnitAttention) \<in> set ERRORS1" by (simp_all add: ERRORS3_def ERRORS2_def ERRORS1_def)
  moreover have "7 \<notin> {q'. \<exists>e'. (3, 0x14, q', e') \<in> set ERRORS3}" "0x29 \<notin> {a'. \<exists>e'. (6, a', e') \<in> set ERRORS2}"
    "0x29 \<notin> {a'. \<exists>q' e'. (6, a', q', e') \<in> set ERRORS3}" by (simp_all add: ERRORS3_def ERRORS2_def)
  ultimately show ?thesis using sense_error_tables by fast
qed

end
