(* ===== verification/Scsi_Block.thy ===== *)
theory Scsi_Block
  imports Scsi
begin

text \<open>
  \<open>cotton-scsi/src/async_block_device.rs\<close> and \<open>scsi_block_device.rs\<close>: a block device on top of a SCSI
  device. A read returns the caller's buffer as filled. The proofs show which command block each
  request becomes, and that no block number or count is cut off on the way.
\<close>

record BlockDeviceInfo =
  blocks :: u64
  block_size :: u32

definition query_opcodes :: "u8 list" where
  "query_opcodes = [0x08, 0x28, 0xA8, 0x88, 0x0A, 0x2A, 0xAA, 0x8A, 0x9C, 0x8E]"

fun query_each :: "try_from_bytes \<Rightarrow> ('t, 'e) ScsiTransport \<Rightarrow> u8 list \<Rightarrow> ('t, 'e Error, unit) prog" where
  "query_each tfb T [] = returnR ()"
| "query_each tfb T (c # cs) =
     bindR (report_supported_operation_codes tfb T c None) (\<lambda>_. query_each tfb T cs)"

definition query_commands :: "try_from_bytes \<Rightarrow> ('t, 'e) ScsiTransport \<Rightarrow> ('t, 'e Error, unit) prog" where
  "query_commands tfb T = query_each tfb T query_opcodes"

definition device_info :: "try_from_bytes \<Rightarrow> ('t, 'e) ScsiTransport \<Rightarrow> ('t, 'e Error, BlockDeviceInfo) prog" where
  "device_info tfb T =
     bindR (read_capacity_10 tfb T) (\<lambda>capacity10.
     bindR (if fst capacity10 \<noteq> 0xFFFFFFFF then returnR (ucast (fst capacity10), snd capacity10)
            else read_capacity_16 tfb T) (\<lambda>(n, sz).
     returnR \<lparr>blocks = n, block_size = sz\<rparr>))"

definition u32_MAX :: nat where "u32_MAX = 2 ^ 32 - 1"
definition u16_MAX :: nat where "u16_MAX = 2 ^ 16 - 1"

definition read_blocks ::
    "try_from_bytes \<Rightarrow> ('t, 'e) ScsiTransport \<Rightarrow> u64 \<Rightarrow> u32 \<Rightarrow> u8 list \<Rightarrow> ('t, 'e Error, u8 list) prog" where
  "read_blocks tfb T offset count data =
     (if unat offset + unat count \<ge> 2 ^ 64 then throwR (Scsi LogicalBlockAddressOutOfRange)
      else
        let end_block = offset + ucast count in
        bindR (if unat end_block < u32_MAX \<and> unat count < u16_MAX
               then read_10 tfb T (ucast offset) (ucast count) data
               else read_16 tfb T offset count data) (\<lambda>(sz, buf).
        if sz < length data then throwR ProtocolError else returnR buf))"

definition write_blocks ::
    "try_from_bytes \<Rightarrow> ('t, 'e) ScsiTransport \<Rightarrow> u64 \<Rightarrow> u32 \<Rightarrow> u8 list \<Rightarrow> ('t, 'e Error, unit) prog" where
  "write_blocks tfb T offset count data =
     (if unat offset + unat count \<ge> 2 ^ 64 then throwR (Scsi LogicalBlockAddressOutOfRange)
      else
        let end_block = offset + ucast count in
        bindR (if unat end_block < u32_MAX \<and> unat count < u16_MAX
               then write_10 tfb T (ucast offset) (ucast count) data
               else write_16 tfb T offset count data) (\<lambda>_. returnR ()))"

section \<open>The commands that are sent\<close>

text \<open>What the target of a command block decodes: the first block and the number of blocks.\<close>

definition cdb_target :: "u8 list \<Rightarrow> (nat \<times> nat) option" where
  "cdb_target c =
     (if length c = 10 \<and> c ! 0 \<in> {0x28, 0x2A} then Some (from_be (field_at c 2 4), from_be (field_at c 7 2))
      else if length c = 16 \<and> c ! 0 \<in> {0x88, 0x8A} then Some (from_be (field_at c 2 8), from_be (field_at c 10 4))
      else None)"

lemma from_be_to_be:
  "from_be (u16_to_be_bytes a) = unat a" "from_be (u32_to_be_bytes b) = unat b" "from_be (u64_to_be_bytes c) = unat c"
  using unat_u16_lt [of a] unat_u32_lt [of b] unat_u64_lt [of c]
  by (simp_all add: byte_order_defs from_be_be_bytes)

lemma cdb_targets:
  "cdb_target (Read10 l c) = Some (unat l, unat c)" "cdb_target (Write10 l c) = Some (unat l, unat c)"
  "cdb_target (Read16 l' c') = Some (unat l', unat c')" "cdb_target (Write16 l' c') = Some (unat l', unat c')"
proof -
  have "field_at ([x, y] @ u32_to_be_bytes l @ [0] @ u16_to_be_bytes c @ [0]) 2 4 = u32_to_be_bytes l"
    "field_at ([x, y] @ u32_to_be_bytes l @ [0] @ u16_to_be_bytes c @ [0]) 7 2 = u16_to_be_bytes c"
    "field_at ([x, y] @ u64_to_be_bytes l' @ u32_to_be_bytes c' @ [0, 0]) 2 8 = u64_to_be_bytes l'"
    "field_at ([x, y] @ u64_to_be_bytes l' @ u32_to_be_bytes c' @ [0, 0]) 10 4 = u32_to_be_bytes c'" for x y
    by (simp_all add: field_at_def)
  note fields = this
  show "cdb_target (Read10 l c) = Some (unat l, unat c)" "cdb_target (Write10 l c) = Some (unat l, unat c)"
    "cdb_target (Read16 l' c') = Some (unat l', unat c')" "cdb_target (Write16 l' c') = Some (unat l', unat c')"
    unfolding cdb_target_def Read10_def Write10_def Read16_def Write16_def fields
    by (simp_all add: from_be_to_be)
qed

lemma narrow_u64_u32: "unat (x :: u64) < 2 ^ 32 \<Longrightarrow> unat (ucast x :: u32) = unat x"
  by (simp add: unsigned_ucast_eq take_bit_nat_eq_self_iff)

lemma narrow_u32_u16: "unat (x :: u32) < 2 ^ 16 \<Longrightarrow> unat (ucast x :: u16) = unat x"
  by (simp add: unsigned_ucast_eq take_bit_nat_eq_self_iff)

lemma widen_u32_u64: "unat (ucast (x :: u32) :: u64) = unat x"
  using unat_u32_lt [of x] by (simp add: unsigned_ucast_eq take_bit_nat_eq_self_iff)

lemma end_block_exact:
  assumes "unat (offset :: u64) + unat (count :: u32) < 2 ^ 64"
  shows "unat (offset + ucast count) = unat offset + unat count"
  using assms by (simp add: unat_word_ariths widen_u32_u64)

lemma small_request:
  assumes "unat (offset :: u64) + unat (count :: u32) < 2 ^ 64"
    and "unat (offset + ucast count) < u32_MAX" and "unat count < u16_MAX"
  shows "unat (ucast offset :: u32) = unat offset" and "unat (ucast count :: u16) = unat count"
  using assms end_block_exact [OF assms(1)] narrow_u64_u32 [of offset] narrow_u32_u16 [of count]
  by (simp_all add: u32_MAX_def u16_MAX_def)

text \<open>The commands of a block request whose range fits: both decode to the range.\<close>

lemma block_command:
  assumes "unat offset + unat count < 2 ^ 64"
  shows "\<exists>cr cw. cdb_target cr = Some (unat offset, unat count) \<and> cr ! 0 \<in> {0x28, 0x88} \<and>
        cdb_target cw = Some (unat offset, unat count) \<and> cw ! 0 \<in> {0x2A, 0x8A} \<and>
        read_blocks tfb T offset count data =
          bindR (upgrading tfb T (run_command T cr (CmdIn data)))
            (\<lambda>(sz, buf). if sz < length data then throwR ProtocolError else returnR buf) \<and>
        write_blocks tfb T offset count data =
          bindR (bindR (upgrading tfb T (run_command T cw (CmdOut data))) (\<lambda>(n, _). returnR n)) (\<lambda>_. returnR ())"
proof -
  let ?small = "unat (offset + ucast count) < u32_MAX \<and> unat count < u16_MAX"
  let ?l = "ucast offset :: u32" and ?c = "ucast count :: u16"
  define cr where "cr = (if ?small then Read10 ?l ?c else Read16 offset count)"
  define cw where "cw = (if ?small then Write10 ?l ?c else Write16 offset count)"
  have "cdb_target cr = Some (unat offset, unat count)" "cdb_target cw = Some (unat offset, unat count)"
    using small_request [OF assms] by (auto simp: cr_def cw_def cdb_targets)
  moreover have "cr ! 0 \<in> {0x28, 0x88}" "cw ! 0 \<in> {0x2A, 0x8A}"
    by (simp_all add: cr_def cw_def cdb_defs)
  moreover have "read_blocks tfb T offset count data =
      bindR (upgrading tfb T (run_command T cr (CmdIn data)))
        (\<lambda>(sz, buf). if sz < length data then throwR ProtocolError else returnR buf)"
    "write_blocks tfb T offset count data =
      bindR (bindR (upgrading tfb T (run_command T cw (CmdOut data))) (\<lambda>(n, _). returnR n)) (\<lambda>_. returnR ())"
    using assms
    by (simp_all add: read_blocks_def write_blocks_def read_10_def write_10_def read_16_def write_16_def
        Let_def cr_def cw_def not_le)
  ultimately show ?thesis by blast
qed

context scsi_transport
begin

lemma read_blocks_safe:
  "safeR (tinv (Suc (Suc k))) (read_blocks tfb T offset count data)
     (\<lambda>t r. tinv k t \<and> (\<forall>b. r = Ok b \<longrightarrow> length b = length data))"
proof (cases "unat offset + unat count \<ge> 2 ^ 64")
  case True
  then show ?thesis using fewer by (simp add: read_blocks_def safeR_def)
next
  case False
  have "safeR (tinv (Suc (Suc k))) (if unat (offset + ucast count) < u32_MAX \<and> unat count < u16_MAX
               then read_10 tfb T (ucast offset) (ucast count) data
               else read_16 tfb T offset count data)
     (\<lambda>t r. tinv k t \<and> (\<forall>x. r = Ok x \<longrightarrow> length (snd x) = length data \<and> fst x \<le> length data))"
    by (rule safeR_if; rule reads_safe)
  from safeR_budget_bind [OF this, where P'' = "tinv k" and Q = "\<lambda>b. length b = length data" and
      f = "\<lambda>(sz, buf). if sz < length data then throwR ProtocolError else returnR buf"] False
  show ?thesis by (simp add: read_blocks_def Let_def safeR_def split_beta)
qed

lemma write_blocks_safe:
  "safeR (tinv (Suc (Suc k))) (write_blocks tfb T offset count data) (\<lambda>t r. tinv k t)"
proof (cases "unat offset + unat count \<ge> 2 ^ 64")
  case True
  then show ?thesis using fewer by (simp add: write_blocks_def safeR_def)
next
  case False
  have "safeR (tinv (Suc (Suc k))) (if unat (offset + ucast count) < u32_MAX \<and> unat count < u16_MAX
               then write_10 tfb T (ucast offset) (ucast count) data
               else write_16 tfb T offset count data) (\<lambda>t r. tinv k t \<and> (\<forall>x. r = Ok x \<longrightarrow> True))"
    by (rule safeR_if; rule writes_safe)
  from safeR_budget_bind [OF this, where P'' = "tinv k" and Q = "\<lambda>_. True" and f = "\<lambda>_. returnR ()"] False
  show ?thesis by (simp add: write_blocks_def Let_def safeR_def)
qed

lemma device_info_safe:
  "safeR (tinv (Suc (Suc (Suc (Suc k))))) (device_info tfb T) (\<lambda>t r. tinv k t \<and> (\<forall>x. r = Ok x \<longrightarrow> True))"
  unfolding device_info_def
proof (rule safeR_budget_bind [OF read_capacity_safe(1)])
  fix c :: "u32 \<times> u32"
  have "safeR (tinv (Suc (Suc k))) (if fst c \<noteq> 0xFFFFFFFF then returnR (ucast (fst c), snd c) else read_capacity_16 tfb T)
      (\<lambda>t r. tinv k t \<and> (\<forall>x. r = Ok x \<longrightarrow> True))"
    by (rule safeR_if) (use fewer read_capacity_safe(2) in \<open>auto simp: safeR_def\<close>)
  then show "safeR (tinv (Suc (Suc k))) (bindR (if fst c \<noteq> 0xFFFFFFFF then returnR (ucast (fst c), snd c) else read_capacity_16 tfb T)
      (\<lambda>(n, sz). returnR \<lparr>blocks = n, block_size = sz\<rparr>)) (\<lambda>t r. tinv k t \<and> (\<forall>x. r = Ok x \<longrightarrow> True))"
    by (rule safeR_budget_bind) (auto simp: safeR_def split: prod.splits)
qed (use fewer in simp)

end

section \<open>Properties\<close>

text \<open>A block request is carried out with one command that addresses exactly the requested blocks:
whenever the end of the range fits 64 bits, the command block sent decodes to the offset and the count
asked for, whether the 10-byte or the 16-byte form is chosen; a range whose end does not fit is
refused without sending anything. A read succeeds only if the whole buffer was filled.\<close>

theorem block_requests_exact:
  "(unat offset + unat count < 2 ^ 64 \<longrightarrow>
     (\<exists>cr cw. cdb_target cr = Some (unat offset, unat count) \<and> cr ! 0 \<in> {0x28, 0x88} \<and>
        cdb_target cw = Some (unat offset, unat count) \<and> cw ! 0 \<in> {0x2A, 0x8A} \<and>
        read_blocks tfb T offset count data =
          bindR (upgrading tfb T (run_command T cr (CmdIn data)))
            (\<lambda>(sz, buf). if sz < length data then throwR ProtocolError else returnR buf) \<and>
        write_blocks tfb T offset count data =
          bindR (bindR (upgrading tfb T (run_command T cw (CmdOut data))) (\<lambda>(n, _). returnR n)) (\<lambda>_. returnR ()))) \<and>
   (2 ^ 64 \<le> unat offset + unat count \<longrightarrow>
     read_blocks tfb T offset count data = throwR (Scsi LogicalBlockAddressOutOfRange) \<and>
     write_blocks tfb T offset count data = throwR (Scsi LogicalBlockAddressOutOfRange))"
  using block_command [of offset count tfb T data] by (auto simp: read_blocks_def write_blocks_def not_less)

theorem block_requests_exact_witness:
  "\<exists>cr cw. cdb_target cr = Some (0x100000000, 7) \<and> cr ! 0 \<in> {0x28, 0x88} \<and>
     cdb_target cw = Some (0x100000000, 7) \<and> cw ! 0 \<in> {0x2A, 0x8A}"
  using block_requests_exact [of "0x100000000" 7] by (force simp: unat_numeral)

end
