(* ===== verification/Mass_Storage.thy ===== *)
theory Mass_Storage
  imports Scsi_Block Usb_Bus
begin

text \<open>
  \<open>cotton-usb-host-msc/src/mass_storage.rs\<close>: the bulk-only transport of USB mass storage, which
  carries SCSI commands over two bulk endpoints. Its state has the state of the host controller
  behind the bus as a component. A driver with bulk transfers (\<open>usb_bulk_driver\<close>) gives a SCSI
  transport: the sublocale states it with the number of commands left before the tag overflows.
\<close>

section \<open>The transport\<close>

record 'hc MassStorage =
  ms_hc :: 'hc
  ms_bulk_in :: BulkIn
  ms_bulk_out :: BulkOut
  ms_tag :: u32

definition first_endpoint :: "BitSet \<Rightarrow> u8" where
  "first_endpoint s = (case bitset_iter s of [] \<Rightarrow> 0 | n # _ \<Rightarrow> n)"

definition mass_storage_new :: "UsbDevice \<Rightarrow> ('hc, UsbError, 'hc MassStorage) prog" where
  "mass_storage_new device = (\<lambda>hc.
     case open_in_endpoint device (first_endpoint (in_endpoints device)) of
       (_, Inl e) \<Rightarrow> Ret (hc, Err e)
     | (device', Inr bulk_in) \<Rightarrow>
         (case open_out_endpoint device' (first_endpoint (out_endpoints device')) of
            (_, Inl e) \<Rightarrow> Ret (hc, Err e)
          | (_, Inr bulk_out) \<Rightarrow>
              Ret (hc, Ok \<lparr>ms_hc = hc, ms_bulk_in = bulk_in, ms_bulk_out = bulk_out, ms_tag = 1\<rparr>)))"

record IdentifyMassStorage =
  current_configuration :: "u8 option"
  msc_configuration :: "u8 option"

definition identify_mass_storage_default :: IdentifyMassStorage where
  "identify_mass_storage_default = \<lparr>current_configuration = None, msc_configuration = None\<rparr>"

definition IdentifyMassStorageVisitor :: "IdentifyMassStorage DescriptorVisitor" where
  "IdentifyMassStorageVisitor = default_visitor\<lparr>
     on_configuration := \<lambda>v c. Ret (v\<lparr>current_configuration := Some (bConfigurationValue c)\<rparr>),
     on_interface := \<lambda>v i.
       if bInterfaceClass i = 8 \<and> bInterfaceProtocol i = 0x50
       then Ret (v\<lparr>msc_configuration := current_configuration v\<rparr>) else Ret v\<rparr>"

definition identify :: "IdentifyMassStorage \<Rightarrow> u8 option" where
  "identify v = msc_configuration v"

record CommandBlockWrapper =
  cbw_signature :: u32
  cbw_tag :: u32
  cbw_data_transfer_length :: u32
  cbw_flags :: u8
  cbw_lun :: u8
  cbw_command_length :: u8
  cbw_command :: "u8 list"

text \<open>Copying the command into the array of 17 bytes panics for a longer command.\<close>

definition command_block_wrapper_new :: "u32 \<Rightarrow> u32 \<Rightarrow> u8 \<Rightarrow> u8 list \<Rightarrow> CommandBlockWrapper outcome" where
  "command_block_wrapper_new tag len flags cmd =
     rust_assert (length cmd \<le> 17)
       (Ret \<lparr>cbw_signature = 0x43425355, cbw_tag = tag, cbw_data_transfer_length = len, cbw_flags = flags,
             cbw_lun = 0, cbw_command_length = word_of_nat (length cmd),
             cbw_command = overwrite (replicate 17 0) 0 cmd\<rparr>)"

text \<open>\<open>bytemuck::bytes_of\<close> on a little-endian target: the fields in order, without padding.\<close>

definition cbw_bytes :: "CommandBlockWrapper \<Rightarrow> u8 list" where
  "cbw_bytes c = u32_to_le_bytes (cbw_signature c) @ u32_to_le_bytes (cbw_tag c) @
     u32_to_le_bytes (cbw_data_transfer_length c) @ [cbw_flags c, cbw_lun c, cbw_command_length c] @ cbw_command c"

definition ms_out ::
    "('hc, 'pipe) HostController \<Rightarrow> u8 list \<Rightarrow> 'hc MassStorage \<Rightarrow> ('hc MassStorage \<times> (UsbError, usize) result) outcome" where
  "ms_out H data ms =
     obind (bus_bulk_out_transfer H (ms_bulk_out ms) data FixedSize (ms_hc ms)) (\<lambda>(hc, r, ep).
     Ret (ms\<lparr>ms_hc := hc, ms_bulk_out := ep\<rparr>, r))"

definition ms_in ::
    "('hc, 'pipe) HostController \<Rightarrow> u8 list \<Rightarrow> 'hc MassStorage \<Rightarrow>
       ('hc MassStorage \<times> (UsbError, usize) result \<times> u8 list) outcome" where
  "ms_in H buf ms =
     obind (bus_bulk_in_transfer H (ms_bulk_in ms) buf FixedSize (ms_hc ms)) (\<lambda>(hc, r, buf', ep).
     Ret (ms\<lparr>ms_hc := hc, ms_bulk_in := ep\<rparr>, r, buf'))"

definition ms_clear_halt ::
    "('hc, 'pipe) HostController \<Rightarrow> 'hc MassStorage \<Rightarrow> ('hc MassStorage \<times> (UsbError, unit) result) outcome" where
  "ms_clear_halt H ms =
     obind (clear_halt H (ms_bulk_in ms) (ms_hc ms)) (\<lambda>(hc, r).
     case r of
       Inl e \<Rightarrow> Ret (ms\<lparr>ms_hc := hc\<rparr>, Err e)
     | Inr ep \<Rightarrow> Ret (ms\<lparr>ms_hc := hc, ms_bulk_in := ep\<rparr>, Ok ()))"

text \<open>The data phase, with the buffer as left.\<close>

fun ms_data_phase ::
    "('hc, 'pipe) HostController \<Rightarrow> ScsiDataPhase \<Rightarrow> 'hc MassStorage \<Rightarrow>
       ('hc MassStorage \<times> (UsbError, usize) result \<times> u8 list) outcome" where
  "ms_data_phase H (CmdIn buf) ms = ms_in H buf ms"
| "ms_data_phase H (CmdOut buf) ms = obind (ms_out H buf ms) (\<lambda>(ms', r). Ret (ms', r, []))"
| "ms_data_phase H CmdNone ms = Ret (ms, Ok 0, [])"

text \<open>The command status wrapper, and the result it makes of the length of the data phase.\<close>

definition ms_status ::
    "('hc, 'pipe) HostController \<Rightarrow> usize \<Rightarrow> u8 list \<Rightarrow> 'hc MassStorage \<Rightarrow>
       ('hc MassStorage \<times> (UsbError Error, usize) result \<times> u8 list) outcome" where
  "ms_status H response buf ms =
     obind (ms_in H (replicate 13 0) ms) (\<lambda>(ms', r, csw).
     case r of
       Inl e \<Rightarrow> Ret (ms', Err (Transport e), buf)
     | Inr sz \<Rightarrow>
         if sz < 13 then Ret (ms', Err Error.ProtocolError, buf)
         else obind (index csw 12) (\<lambda>status.
           if status = 0 then Ret (ms', Ok response, buf)
           else if status = 1 then Ret (ms', Err CommandFailed, buf)
           else Ret (ms', Err Error.ProtocolError, buf)))"

fun data_len :: "ScsiDataPhase \<Rightarrow> nat" where
  "data_len (CmdIn b) = length b"
| "data_len (CmdOut b) = length b"
| "data_len CmdNone = 0"

fun data_flags :: "ScsiDataPhase \<Rightarrow> u8" where
  "data_flags (CmdIn b) = 0x80"
| "data_flags (CmdOut b) = 0"
| "data_flags CmdNone = 0"

text \<open>\<open>tag += 2\<close> panics when it overflows.\<close>

definition ms_command ::
    "('hc, 'pipe) HostController \<Rightarrow> u8 list \<Rightarrow> ScsiDataPhase \<Rightarrow> 'hc MassStorage \<Rightarrow>
       ('hc MassStorage \<times> (UsbError Error, usize) result \<times> u8 list) outcome" where
  "ms_command H cmd d ms =
     (if unat (ms_tag ms) + 2 \<ge> 2 ^ 32 then Panic
      else let ms1 = ms\<lparr>ms_tag := ms_tag ms + 2\<rparr> in
      obind (command_block_wrapper_new (ms_tag ms1) (word_of_nat (data_len d)) (data_flags d) cmd) (\<lambda>cbw.
      obind (slice (cbw_bytes cbw) 0 31) (\<lambda>packet.
      obind (ms_out H packet ms1) (\<lambda>(ms2, r). case r of
        Inl e \<Rightarrow> Ret (ms2, Err (Transport e), data_buffer d)
      | Inr n \<Rightarrow>
          if n < 31 then Ret (ms2, Err Error.ProtocolError, data_buffer d)
          else obind (ms_data_phase H d ms2) (\<lambda>(ms3, response, buf).
            case response of
              Inr n \<Rightarrow> ms_status H n buf ms3
            | Inl e \<Rightarrow>
                if e = Stall then
                  obind (ms_clear_halt H ms3) (\<lambda>(ms4, r). case r of
                    Inl e \<Rightarrow> Ret (ms4, Err (Transport e), buf)
                  | Inr _ \<Rightarrow> ms_status H 0 buf ms4)
                else Ret (ms3, Err (Transport e), buf))))))"

definition mass_storage_transport :: "('hc, 'pipe) HostController \<Rightarrow> ('hc MassStorage, UsbError) ScsiTransport" where
  "mass_storage_transport H = \<lparr>scsi_command = ms_command H\<rparr>"

section \<open>A SCSI transport on any driver\<close>

definition ms_inv :: "('hc \<Rightarrow> bool) \<Rightarrow> nat \<Rightarrow> 'hc MassStorage \<Rightarrow> bool" where
  "ms_inv hinv k ms \<longleftrightarrow> hinv (ms_hc ms) \<and> unat (ms_tag ms) + 2 * k < 2 ^ 32"

lemma ms_inv_update [simp]:
  "ms_inv hinv k (ms\<lparr>ms_hc := hc, ms_bulk_out := o'\<rparr>) \<longleftrightarrow> hinv hc \<and> unat (ms_tag ms) + 2 * k < 2 ^ 32"
  "ms_inv hinv k (ms\<lparr>ms_hc := hc, ms_bulk_in := i'\<rparr>) \<longleftrightarrow> hinv hc \<and> unat (ms_tag ms) + 2 * k < 2 ^ 32"
  "ms_inv hinv k (ms\<lparr>ms_hc := hc\<rparr>) \<longleftrightarrow> hinv hc \<and> unat (ms_tag ms) + 2 * k < 2 ^ 32"
  by (simp_all add: ms_inv_def)

lemma cbw_bytes_length: "command_block_wrapper_new t l f cmd = Ret c \<Longrightarrow> length (cbw_bytes c) = 32"
  by (auto simp: command_block_wrapper_new_def rust_assert_def cbw_bytes_def split: if_splits)

context usb_bulk_driver
begin

lemma ms_out_ok:
  assumes "ms_inv hinv k ms"
  shows "\<exists>ms' r. ms_out H data ms = Ret (ms', r) \<and> ms_inv hinv k ms'"
proof -
  obtain hc r tog where "hc_bulk_out_transfer H (bo_usb_address (ms_bulk_out ms)) (bo_endpoint (ms_bulk_out ms)) 64 data
      FixedSize (bo_data_toggle (ms_bulk_out ms)) (ms_hc ms) = Ret (hc, r, tog)" "hinv hc"
    using bulk_out_ok assms unfolding ms_inv_def by blast
  then show ?thesis using assms by (simp add: ms_out_def bus_bulk_out_transfer_def ms_inv_def)
qed

lemma ms_in_ok:
  assumes "ms_inv hinv k ms"
  shows "\<exists>ms' r buf'. ms_in H buf ms = Ret (ms', r, buf') \<and> ms_inv hinv k ms' \<and> length buf' = length buf \<and>
    (\<forall>n. r = Ok n \<longrightarrow> n \<le> length buf)"
proof -
  obtain hc r buf' tog where "hc_bulk_in_transfer H (bi_usb_address (ms_bulk_in ms)) (bi_endpoint (ms_bulk_in ms)) 64 buf
      FixedSize (bi_data_toggle (ms_bulk_in ms)) (ms_hc ms) = Ret (hc, r, buf', tog)" "hinv hc"
      "length buf' = length buf" "\<forall>n. r = Ok n \<longrightarrow> n \<le> length buf"
    using bulk_in_ok [of "ms_hc ms"] assms unfolding ms_inv_def by blast
  then show ?thesis using assms by (simp add: ms_in_def bus_bulk_in_transfer_def ms_inv_def)
qed

lemma ms_clear_halt_ok:
  assumes "ms_inv hinv k ms"
  shows "\<exists>ms' r. ms_clear_halt H ms = Ret (ms', r) \<and> ms_inv hinv k ms'"
proof -
  have "keepsR hinv (clear_halt H (ms_bulk_in ms)) (\<lambda>_. True)"
    unfolding clear_halt_def
    by (rule keepsR_bind [OF control_none_keeps [OF ps_ok_8]]) (rule keepsR_return, simp)
  then obtain hc r where "clear_halt H (ms_bulk_in ms) (ms_hc ms) = Ret (hc, r)" "hinv hc"
    using assms unfolding keepsR_def safeR_def ms_inv_def by blast
  then show ?thesis using assms by (cases r) (simp_all add: ms_clear_halt_def ms_inv_def)
qed

lemma ms_data_phase_ok:
  assumes "ms_inv hinv k ms"
  shows "\<exists>ms' r buf. ms_data_phase H d ms = Ret (ms', r, buf) \<and> ms_inv hinv k ms' \<and>
    length buf = length (data_buffer d) \<and> (\<forall>n b. r = Ok n \<longrightarrow> d = CmdIn b \<longrightarrow> n \<le> length b)"
proof (cases d)
  case (CmdIn b)
  then show ?thesis using ms_in_ok [OF assms, of b] by auto
next
  case (CmdOut b)
  then show ?thesis using ms_out_ok [OF assms, of b] by auto
qed (use assms in simp)

lemma ms_status_ok:
  assumes "ms_inv hinv k ms"
  shows "\<exists>ms' r. ms_status H n buf ms = Ret (ms', r, buf) \<and> ms_inv hinv k ms' \<and> (\<forall>m. r = Ok m \<longrightarrow> m = n)"
proof -
  obtain ms' r csw where "ms_in H (replicate 13 0) ms = Ret (ms', r, csw)" "ms_inv hinv k ms'" "length csw = 13"
    using ms_in_ok [OF assms, of "replicate 13 0"] by auto
  then show ?thesis by (cases r) (simp_all add: ms_status_def)
qed

lemma ms_command_ok:
  assumes "ms_inv hinv (Suc k) ms" and "length cmd \<le> 16"
  shows "\<exists>ms' r buf. ms_command H cmd d ms = Ret (ms', r, buf) \<and> ms_inv hinv k ms' \<and>
    length buf = length (data_buffer d) \<and> (\<forall>n b. r = Ok n \<longrightarrow> d = CmdIn b \<longrightarrow> n \<le> length b)"
proof -
  let ?ms1 = "ms\<lparr>ms_tag := ms_tag ms + 2\<rparr>"
  have tag: "unat (ms_tag ms) + 2 < 2 ^ 32" using assms(1) by (simp add: ms_inv_def)
  then have "unat (ms_tag ms + 2) = unat (ms_tag ms) + 2" by (simp add: unat_word_ariths)
  then have ms1: "ms_inv hinv k ?ms1" using assms(1) by (simp add: ms_inv_def)
  obtain cbw where cbw: "command_block_wrapper_new (ms_tag ?ms1) (word_of_nat (data_len d)) (data_flags d) cmd = Ret cbw"
    using assms(2) by (simp add: command_block_wrapper_new_def)
  have packet: "slice (cbw_bytes cbw) 0 31 = Ret (take 31 (cbw_bytes cbw))"
    using cbw_bytes_length [OF cbw] by simp
  obtain ms2 r2 where 2: "ms_out H (take 31 (cbw_bytes cbw)) ?ms1 = Ret (ms2, r2)" "ms_inv hinv k ms2"
    using ms_out_ok [OF ms1] by blast
  obtain ms3 r3 buf where 3: "ms_data_phase H d ms2 = Ret (ms3, r3, buf)" "ms_inv hinv k ms3"
    "length buf = length (data_buffer d)" "\<forall>n b. r3 = Ok n \<longrightarrow> d = CmdIn b \<longrightarrow> n \<le> length b"
    using ms_data_phase_ok [OF 2(2)] by blast
  obtain ms4 r4 where 4: "ms_clear_halt H ms3 = Ret (ms4, r4)" "ms_inv hinv k ms4"
    using ms_clear_halt_ok [OF 3(2)] by blast
  show ?thesis
  proof (cases r2)
    case (Inl e)
    then show ?thesis using tag cbw packet 2 by (simp add: ms_command_def Let_def)
  next
    case (Inr n2)
    show ?thesis
    proof (cases "n2 < 31")
      case True
      then show ?thesis using tag cbw packet 2 Inr by (simp add: ms_command_def Let_def)
    next
      case False
      show ?thesis
      proof (cases r3)
        case n3: (Inr n3)
        obtain ms5 r5 where "ms_status H n3 buf ms3 = Ret (ms5, r5, buf)" "ms_inv hinv k ms5" "\<forall>m. r5 = Ok m \<longrightarrow> m = n3"
          using ms_status_ok [OF 3(2)] by blast
        then show ?thesis using tag cbw packet 2 3 Inr n3 False by (auto simp: ms_command_def Let_def)
      next
        case e3: (Inl e3)
        obtain ms5 r5 where "ms_status H 0 buf ms4 = Ret (ms5, r5, buf)" "ms_inv hinv k ms5" "\<forall>m. r5 = Ok m \<longrightarrow> m = 0"
          using ms_status_ok [OF 4(2)] by blast
        then show ?thesis
          using tag cbw packet 2 3 4 Inr e3 False by (cases r4) (auto simp: ms_command_def Let_def)
      qed
    qed
  qed
qed

end

sublocale usb_bulk_driver \<subseteq> msc: scsi_transport "mass_storage_transport H" "ms_inv hinv"
proof
  show "\<exists>t' r buf. scsi_command (mass_storage_transport H) cmd d ms = Ret (t', r, buf) \<and> ms_inv hinv k t' \<and>
      length buf = length (data_buffer d) \<and> (\<forall>n b. r = Ok n \<longrightarrow> d = CmdIn b \<longrightarrow> n \<le> length b)"
    if "ms_inv hinv (Suc k) ms" "length cmd \<le> 16" for k ms cmd d
    using ms_command_ok [OF that, of d] by (simp add: mass_storage_transport_def)
qed (simp add: ms_inv_def)

context usb_bulk_driver
begin

lemmas storage_transport = msc.scsi_transport_axioms

end

section \<open>Identification\<close>

text \<open>For each mass-storage interface among descriptors, in order, the configuration it belongs to: the
value of the last configuration descriptor before it.\<close>

fun msc_interfaces :: "try_from_bytes \<Rightarrow> u8 option \<Rightarrow> u8 list list \<Rightarrow> u8 option list" where
  "msc_interfaces tfb c [] = []"
| "msc_interfaces tfb c (d # ds) =
     (if d ! 1 = CONFIGURATION_DESCRIPTOR \<and> tfb 9 d
      then msc_interfaces tfb (Some (bConfigurationValue (configuration_of_bytes d))) ds
      else if d ! 1 = INTERFACE_DESCRIPTOR \<and> tfb 9 d \<and> bInterfaceClass (interface_of_bytes d) = 8 \<and>
        bInterfaceProtocol (interface_of_bytes d) = 0x50
      then c # msc_interfaces tfb c ds
      else msc_interfaces tfb c ds)"

lemma identify_visit_all:
  "\<exists>v'. visit_all (visit_descriptor tfb IdentifyMassStorageVisitor) ds v = Ret v' \<and>
     msc_configuration v' = last (msc_configuration v # msc_interfaces tfb (current_configuration v) ds)"
proof (induction ds arbitrary: v)
  case (Cons d ds)
  note defs = visit_descriptor_def IdentifyMassStorageVisitor_def default_visitor_def Let_def usb_consts
  consider (config) "d ! 1 = CONFIGURATION_DESCRIPTOR" "tfb 9 d"
    | (msc) "d ! 1 = INTERFACE_DESCRIPTOR" "tfb 9 d" "bInterfaceClass (interface_of_bytes d) = 8"
        "bInterfaceProtocol (interface_of_bytes d) = 0x50"
    | (skip) "\<not> (d ! 1 = CONFIGURATION_DESCRIPTOR \<and> tfb 9 d)"
        "\<not> (d ! 1 = INTERFACE_DESCRIPTOR \<and> tfb 9 d \<and> bInterfaceClass (interface_of_bytes d) = 8 \<and>
           bInterfaceProtocol (interface_of_bytes d) = 0x50)"
    by blast
  then show ?case
  proof cases
    case config
    let ?v = "v\<lparr>current_configuration := Some (bConfigurationValue (configuration_of_bytes d))\<rparr>"
    have "visit_descriptor tfb IdentifyMassStorageVisitor d v = Ret ?v" using config by (simp add: defs)
    then show ?thesis using Cons [of ?v] config by auto
  next
    case msc
    let ?v = "v\<lparr>msc_configuration := current_configuration v\<rparr>"
    have "visit_descriptor tfb IdentifyMassStorageVisitor d v = Ret ?v" "d ! 1 \<noteq> CONFIGURATION_DESCRIPTOR"
      using msc by (simp_all add: defs)
    then show ?thesis using Cons [of ?v] msc by auto
  next
    case skip
    then have "visit_descriptor tfb IdentifyMassStorageVisitor d v = Ret v" by (auto simp: defs)
    moreover have "msc_interfaces tfb c (d # ds) = msc_interfaces tfb c ds" for c using skip by auto
    ultimately show ?thesis using Cons [of v] by simp
  qed
qed simp

section \<open>Endpoints\<close>

lemma first_endpoint_Min: "members s \<noteq> {} \<Longrightarrow> unat (first_endpoint s) = Min (members s)"
  "members s = {} \<Longrightarrow> first_endpoint s = 0"
proof -
  assume "members s \<noteq> {}"
  then have "map unat (bitset_iter s) = Min (members s) # sorted_list_of_set (members s - {Min (members s)})"
    by (simp only: unat_bitset_iter) (rule sorted_list_of_set_nonempty, simp_all)
  then show "unat (first_endpoint s) = Min (members s)"
    by (cases "bitset_iter s") (simp_all add: first_endpoint_def)
next
  assume "members s = {}"
  then show "first_endpoint s = 0" using unat_bitset_iter [of s] by (simp add: first_endpoint_def)
qed

definition usable :: "BitSet \<Rightarrow> bool" where
  "usable s \<longleftrightarrow> members s \<noteq> {} \<and> 0 \<notin> members s"

lemma first_endpoint_usable:
  assumes "members s \<subseteq> {0..<16}"
  shows "usable s \<longleftrightarrow> 0 < unat (first_endpoint s) \<and> unat (first_endpoint s) < 16 \<and> unat (first_endpoint s) \<in> members s"
proof (cases "members s = {}")
  case True
  then show ?thesis by (simp add: usable_def first_endpoint_Min)
next
  case False
  have Min: "Min (members s) \<in> members s" by (rule Min_in [OF finite_members False])
  then have "0 < Min (members s) \<longleftrightarrow> 0 \<notin> members s"
    using Min_le [OF finite_members, of 0 s] by (metis gr0I leD)
  moreover have "Min (members s) < 16" using Min assms by auto
  ultimately show ?thesis using False Min by (simp add: usable_def first_endpoint_Min(1) [OF False] del: mem_members)
qed

lemma endpoint_members_bound: "members (in_endpoints d) \<subseteq> {0..<16}" "members (out_endpoints d) \<subseteq> {0..<16}"
  using bit_imp_le_length [of "in_endpoints_bitmap d"] bit_imp_le_length [of "out_endpoints_bitmap d"]
  by (auto simp: in_endpoints_def out_endpoints_def)

lemma open_in_cases:
  "open_in_endpoint d ep =
     (if 0 < unat ep \<and> unat ep < 16 \<and> unat ep \<in> members (in_endpoints d) then
        (d\<lparr>in_endpoints_bitmap := in_endpoints_bitmap d AND NOT (one_shl (unat ep))\<rparr>,
         Ok \<lparr>bi_usb_address = ud_usb_address d, bi_usb_speed = ud_usb_speed d, bi_endpoint = ep,
             bi_data_toggle = False\<rparr>)
      else (d, Err NoSuchEndpoint))"
  by (auto simp: open_in_endpoint_def word_less_nat_alt and_one_shl_nonzero_iff in_endpoints_def)

lemma open_out_cases:
  "open_out_endpoint d ep =
     (if 0 < unat ep \<and> unat ep < 16 \<and> unat ep \<in> members (out_endpoints d) then
        (d\<lparr>out_endpoints_bitmap := out_endpoints_bitmap d AND NOT (one_shl (unat ep))\<rparr>,
         Ok \<lparr>bo_usb_address = ud_usb_address d, bo_usb_speed = ud_usb_speed d, bo_endpoint = ep,
             bo_data_toggle = False\<rparr>)
      else (d, Err NoSuchEndpoint))"
  by (auto simp: open_out_endpoint_def word_less_nat_alt and_one_shl_nonzero_iff out_endpoints_def)

lemma out_endpoints_frame [simp]: "out_endpoints (d\<lparr>in_endpoints_bitmap := b\<rparr>) = out_endpoints d"
  by (simp add: out_endpoints_def)

section \<open>Properties\<close>

text \<open>The first 31 bytes of a command block wrapper are what the bulk-only transport prescribes:
the signature, the tag, the length and the flags of the data phase, unit 0, the length of the command
block, and the command block itself padded with zeros to 16 bytes. Nothing of a command of up to 16
bytes is lost, and all numbers are little-endian.\<close>

theorem cbw_wire_format:
  assumes "command_block_wrapper_new tag len flags cmd = Ret c" and "length cmd \<le> 16"
  shows "take 4 (cbw_bytes c) = [0x55, 0x53, 0x42, 0x43] \<and>
    u32_from_le_bytes (field_at (cbw_bytes c) 4 4) = tag \<and> u32_from_le_bytes (field_at (cbw_bytes c) 8 4) = len \<and>
    cbw_bytes c ! 12 = flags \<and> cbw_bytes c ! 13 = 0 \<and> unat (cbw_bytes c ! 14) = length cmd \<and>
    drop 15 (take 31 (cbw_bytes c)) = cmd @ replicate (16 - length cmd) 0 \<and> length (cbw_bytes c) = 32"
proof -
  have c: "c = \<lparr>cbw_signature = 0x43425355, cbw_tag = tag, cbw_data_transfer_length = len, cbw_flags = flags,
      cbw_lun = 0, cbw_command_length = word_of_nat (length cmd), cbw_command = overwrite (replicate 17 0) 0 cmd\<rparr>"
    using assms by (auto simp: command_block_wrapper_new_def)
  have sig: "u32_to_le_bytes 0x43425355 = [0x55, 0x53, 0x42, 0x43]"
  proof -
    have "(4 :: nat) = Suc (Suc (Suc (Suc 0)))" by simp
    then show ?thesis by (simp only: u32_to_le_bytes_def le_bytes.simps) simp
  qed
  have bytes: "cbw_bytes c = [0x55, 0x53, 0x42, 0x43] @ u32_to_le_bytes tag @ u32_to_le_bytes len @
      [flags, 0, word_of_nat (length cmd)] @ cmd @ replicate (17 - length cmd) 0"
    using assms(2) by (simp add: c cbw_bytes_def sig overwrite_def)
  have "take 16 (cmd @ replicate (17 - length cmd) (0 :: u8)) = cmd @ replicate (16 - length cmd) 0"
    using assms(2) by (simp add: min_def)
  moreover have "unat (word_of_nat (length cmd) :: u8) = length cmd" using assms(2) by simp
  ultimately show ?thesis
    using assms(2) unfolding bytes
    by (simp add: field_at_def nth_append u32_le_roundtrip)
qed

theorem cbw_wire_format_witness:
  "\<exists>c. command_block_wrapper_new 3 512 0x80 (Read10 5 1) = Ret c \<and>
     drop 15 (take 31 (cbw_bytes c)) = Read10 5 1 @ [0, 0, 0, 0, 0, 0]"
proof -
  obtain c where c: "command_block_wrapper_new 3 512 0x80 (Read10 5 1) = Ret c"
    by (simp add: command_block_wrapper_new_def)
  from cbw_wire_format [OF this] show ?thesis using c by (simp add: numeral_eq_Suc)
qed

text \<open>The tag of commands is not allowed to wrap around: the command that would take it beyond 32
bits panics, which is the 2147483648th command of a device.\<close>

theorem tag_overflow_panics:
  "(0xFFFFFFFE \<le> ms_tag ms \<longrightarrow> ms_command H cmd d ms = Panic) \<and>
   (\<forall>hc hc' dev. mass_storage_new dev hc = Ret (hc', Ok ms) \<longrightarrow>
      unat (ms_tag ms) + 2 * (2147483648 - 1) < 2 ^ 32 \<and> 2 ^ 32 \<le> unat (ms_tag ms) + 2 * 2147483648)"
proof -
  have "ms_tag ms = 1" if "mass_storage_new dev hc = Ret (hc', Ok ms)" for hc hc' dev
    using that by (auto simp: mass_storage_new_def split: prod.splits sum.splits)
  then show ?thesis by (auto simp: ms_command_def word_le_nat_alt)
qed

theorem tag_overflow_panics_witness:
  "ms_command scripted_host TestUnitReady CmdNone
     \<lparr>ms_hc = [], ms_bulk_in = \<lparr>bi_usb_address = 1, bi_usb_speed = Full12, bi_endpoint = 1, bi_data_toggle = False\<rparr>,
      ms_bulk_out = \<lparr>bo_usb_address = 1, bo_usb_speed = Full12, bo_endpoint = 2, bo_data_toggle = False\<rparr>,
      ms_tag = 0xFFFFFFFF\<rparr> = Panic"
  using tag_overflow_panics [of "\<lparr>ms_hc = [], ms_bulk_in = \<lparr>bi_usb_address = 1, bi_usb_speed = Full12,
      bi_endpoint = 1, bi_data_toggle = False\<rparr>, ms_bulk_out = \<lparr>bo_usb_address = 1, bo_usb_speed = Full12,
      bo_endpoint = 2, bo_data_toggle = False\<rparr>, ms_tag = 0xFFFFFFFF\<rparr>" scripted_host TestUnitReady CmdNone]
  by simp

text \<open>Whatever bytes a device returns as its descriptors, their examination for mass storage ends
without a panic and names the configuration of the last mass-storage interface among them; a device
without such an interface is not taken for mass storage.\<close>

theorem identify_mass_storage_correct:
  "\<exists>v. parse_descriptors tfb IdentifyMassStorageVisitor bs identify_mass_storage_default = Ret v \<and>
     identify v = last (None # msc_interfaces tfb None (split_descriptors bs))"
  using identify_visit_all [of tfb "split_descriptors bs" identify_mass_storage_default]
  by (auto simp: parse_descriptors_split identify_def identify_mass_storage_default_def)

text \<open>A new mass-storage driver uses the lowest endpoint of the device in each direction, with clear
data toggles; it exists exactly if the device has endpoints in both directions and neither set
contains endpoint 0.\<close>

theorem mass_storage_new_endpoints:
  "\<exists>r. mass_storage_new dev hc = Ret (hc, r) \<and>
     ((\<exists>ms. r = Ok ms) \<longleftrightarrow> usable (in_endpoints dev) \<and> usable (out_endpoints dev)) \<and>
     (\<forall>ms. r = Ok ms \<longrightarrow> unat (bi_endpoint (ms_bulk_in ms)) = Min (members (in_endpoints dev)) \<and>
        unat (bo_endpoint (ms_bulk_out ms)) = Min (members (out_endpoints dev)) \<and>
        \<not> bi_data_toggle (ms_bulk_in ms) \<and> \<not> bo_data_toggle (ms_bulk_out ms))"
  using first_endpoint_usable [OF endpoint_members_bound(1), of dev]
    first_endpoint_usable [OF endpoint_members_bound(2), of dev]
    first_endpoint_Min(1) [of "in_endpoints dev"] first_endpoint_Min(1) [of "out_endpoints dev"]
  by (auto simp: mass_storage_new_def open_in_cases open_out_cases usable_def simp del: mem_members)

theorem mass_storage_new_endpoints_witness:
  "\<exists>r ms. mass_storage_new (create_test_device 6 8) () = Ret ((), r) \<and> r = Ok ms \<and>
     unat (bi_endpoint (ms_bulk_in ms)) = Min (members (in_endpoints (create_test_device 6 8)))"
proof -
  have "bit (6 :: u32) 1" "bit (8 :: u32) 3" "\<not> bit (6 :: u32) 0" "\<not> bit (8 :: u32) 0" by simp_all
  then have "usable (in_endpoints (create_test_device 6 8))" "usable (out_endpoints (create_test_device 6 8))"
    by (auto simp: usable_def in_endpoints_def out_endpoints_def create_test_device_def members_def
        simp del: bit_numeral_word_iff bit_numeral_iff bit_numeral_simps)
  then show ?thesis using mass_storage_new_endpoints [of "create_test_device 6 8" "()"] by metis
qed

end
