(* ===== verification/Scsi_Disk.thy ===== *)
theory Scsi_Disk
  imports Scsi_Block
begin

text \<open>
  What block requests do to a disk. The contents of a disk are a list of bytes, and the reference is an
  array of blocks: reading copies a range out, writing replaces it, and a request that goes beyond the
  end fails and changes nothing. The locale \<open>scsi_disk\<close> states how a transport with a disk behind it
  executes the commands of \<open>cotton-scsi\<close>; the requests of \<open>scsi_block_device.rs\<close> over any such transport
  are shown to be those of the array.
\<close>

section \<open>The array of blocks\<close>

datatype BlockRequest = ReadBlocks u64 u32 "u8 list" | WriteBlocks u64 u32 "u8 list"

fun request_first :: "BlockRequest \<Rightarrow> nat" where
  "request_first (ReadBlocks a n d) = unat a"
| "request_first (WriteBlocks a n d) = unat a"

fun request_count :: "BlockRequest \<Rightarrow> nat" where
  "request_count (ReadBlocks a n d) = unat n"
| "request_count (WriteBlocks a n d) = unat n"

fun request_data :: "BlockRequest \<Rightarrow> u8 list" where
  "request_data (ReadBlocks a n d) = d"
| "request_data (WriteBlocks a n d) = d"

text \<open>A request that asks for something, with a buffer of the size of its blocks.\<close>

definition request_ok :: "nat \<Rightarrow> BlockRequest \<Rightarrow> bool" where
  "request_ok bs q \<longleftrightarrow> 0 < request_count q \<and> length (request_data q) = request_count q * bs \<and>
     request_count q * bs < 2 ^ 32"

definition blocks_at :: "nat \<Rightarrow> nat \<Rightarrow> nat \<Rightarrow> u8 list \<Rightarrow> u8 list" where
  "blocks_at bs a n m = take (n * bs) (drop (a * bs) m)"

text \<open>The address of the last block, which is what a disk reports as its capacity.\<close>

definition last_block :: "nat \<Rightarrow> u8 list \<Rightarrow> nat" where
  "last_block bs m = length m div bs - 1"

definition in_range :: "nat \<Rightarrow> nat \<Rightarrow> nat \<Rightarrow> u8 list \<Rightarrow> bool" where
  "in_range bs a n m \<longleftrightarrow> (a + n) * bs \<le> length m"

text \<open>
  A disk reports blocks beyond its end as an illegal request with the additional code 21h. The tables of
  the code know that additional code only together with another sense key, so this becomes the general
  error; the particular one is used when the range does not fit 64 bits.
\<close>

definition range_error :: "nat \<Rightarrow> nat \<Rightarrow> ScsiError" where
  "range_error a n = (if 2 ^ 64 \<le> a + n then LogicalBlockAddressOutOfRange else IllegalRequest)"

fun disk_request :: "nat \<Rightarrow> BlockRequest \<Rightarrow> u8 list \<Rightarrow> u8 list \<times> (ScsiError, u8 list) result" where
  "disk_request bs (ReadBlocks a n buf) m =
     (if in_range bs (unat a) (unat n) m then (m, Ok (blocks_at bs (unat a) (unat n) m))
      else (m, Err (range_error (unat a) (unat n))))"
| "disk_request bs (WriteBlocks a n data) m =
     (if in_range bs (unat a) (unat n) m then (overwrite m (unat a * bs) data, Ok [])
      else (m, Err (range_error (unat a) (unat n))))"

fun disk_requests :: "nat \<Rightarrow> BlockRequest list \<Rightarrow> u8 list \<Rightarrow> u8 list \<times> (ScsiError, u8 list) result list" where
  "disk_requests bs [] m = (m, [])"
| "disk_requests bs (q # qs) m =
     (case disk_request bs q m of (m', r) \<Rightarrow>
        (case disk_requests bs qs m' of (m'', rs) \<Rightarrow> (m'', r # rs)))"

text \<open>An error of the disk as the requests report it.\<close>

definition reported :: "(ScsiError, u8 list) result \<Rightarrow> ('e Error, u8 list) result" where
  "reported = map_sum Scsi id"

lemma reported_simps [simp]: "reported (Ok b) = Ok b" "reported (Err e) = Err (Scsi e)"
  by (simp_all add: reported_def)

lemma length_blocks_at: "in_range bs a n m \<Longrightarrow> length (blocks_at bs a n m) = n * bs"
  by (simp add: in_range_def blocks_at_def algebra_simps)

lemma blocks_at_written:
  assumes "in_range bs a n m" and "length data = n * bs"
  shows "blocks_at bs a n (overwrite m (a * bs) data) = data"
  using assms take_drop_overwrite [of "a * bs" data m] by (simp add: in_range_def blocks_at_def algebra_simps)

lemma blocks_at_elsewhere:
  assumes "in_range bs a n m" and "length data = n * bs" and "a' + n' \<le> a \<or> a + n \<le> a'"
  shows "blocks_at bs a' n' (overwrite m (a * bs) data) = blocks_at bs a' n' m"
  using assms(3)
proof
  assume "a' + n' \<le> a"
  then have "n' * bs + a' * bs \<le> a * bs" using mult_le_mono1 [of "a' + n'" a bs] by (simp add: algebra_simps)
  moreover have "a * bs \<le> length m" using assms(1) by (simp add: in_range_def algebra_simps)
  ultimately show ?thesis by (simp add: blocks_at_def overwrite_def take_drop min_def add.commute)
next
  assume "a + n \<le> a'"
  then have "a * bs + n * bs \<le> a' * bs" using mult_le_mono1 [of "a + n" a' bs] by (simp add: algebra_simps)
  moreover have "a * bs \<le> length m" using assms(1) by (simp add: in_range_def algebra_simps)
  moreover have "drop y (overwrite m x data) = drop y m" if "x + length data \<le> y" "x \<le> length m" for x y
    using that by (simp add: overwrite_def)
  ultimately have "drop (a' * bs) (overwrite m (a * bs) data) = drop (a' * bs) m" using assms(2) by simp
  then show ?thesis by (simp add: blocks_at_def)
qed

lemma length_written: "in_range bs a n m \<Longrightarrow> length data = n * bs \<Longrightarrow> length (overwrite m (a * bs) data) = length m"
  by (simp add: in_range_def algebra_simps)

section \<open>Requests over a transport\<close>

fun block_request ::
    "try_from_bytes \<Rightarrow> ('t, 'e) ScsiTransport \<Rightarrow> BlockRequest \<Rightarrow> ('t, 'e Error, u8 list) prog" where
  "block_request tfb T (ReadBlocks a n buf) = read_blocks tfb T a n buf"
| "block_request tfb T (WriteBlocks a n data) = bindR (write_blocks tfb T a n data) (\<lambda>_. returnR [])"

fun block_requests ::
    "try_from_bytes \<Rightarrow> ('t, 'e) ScsiTransport \<Rightarrow> BlockRequest list \<Rightarrow> 't \<Rightarrow>
       ('t \<times> ('e Error, u8 list) result list) outcome" where
  "block_requests tfb T [] t = Ret (t, [])"
| "block_requests tfb T (q # qs) t =
     obind (block_request tfb T q t) (\<lambda>(t', r).
     obind (block_requests tfb T qs t') (\<lambda>(t'', rs). Ret (t'', r # rs)))"

text \<open>What a disk says of itself: that it is one, and its capacity.\<close>

definition is_disk_inquiry :: "u8 list \<Rightarrow> bool" where
  "is_disk_inquiry b \<longleftrightarrow> length b = 36 \<and> b ! 0 AND 0x1F = 0"

definition capacity10_bytes :: "nat \<Rightarrow> u8 list \<Rightarrow> u8 list" where
  "capacity10_bytes bs m = u32_to_be_bytes (word_of_nat (min (last_block bs m) 0xFFFFFFFF)) @ u32_to_be_bytes (word_of_nat bs)"

definition capacity16_bytes :: "nat \<Rightarrow> u8 list \<Rightarrow> u8 list" where
  "capacity16_bytes bs m = u64_to_be_bytes (word_of_nat (last_block bs m)) @ u32_to_be_bytes (word_of_nat bs) @ replicate 20 0"

lemma length_capacity_bytes [simp]: "length (capacity10_bytes bs m) = 8" "length (capacity16_bytes bs m) = 32"
  by (simp_all add: capacity10_bytes_def capacity16_bytes_def)

text \<open>
  A transport with a disk of blocks of \<open>bs\<close> bytes. \<open>holds k t m\<close>: in state \<open>t\<close> the disk has the contents
  \<open>m\<close>, and \<open>k\<close> more commands can be issued. \<open>refused k t m\<close>: the same, and the last command was refused
  because its blocks do not exist, which the next REQUEST SENSE reports.
\<close>

locale scsi_disk =
  fixes T :: "('t, 'e) ScsiTransport"
    and bs :: nat
    and holds :: "nat \<Rightarrow> 't \<Rightarrow> u8 list \<Rightarrow> bool"
    and refused :: "nat \<Rightarrow> 't \<Rightarrow> u8 list \<Rightarrow> bool"
  assumes capacity: "holds k t m \<Longrightarrow> length m < 2 ^ 64 * bs"
    and spare: "holds (Suc k) t m \<Longrightarrow> holds k t m"
    and reads: "holds (Suc k) t m \<Longrightarrow> cdb_target c = Some (a, n) \<Longrightarrow> c ! 0 \<in> {0x28, 0x88} \<Longrightarrow> 0 < n \<Longrightarrow>
      n * bs < 2 ^ 32 \<Longrightarrow> length buf = n * bs \<Longrightarrow> in_range bs a n m \<Longrightarrow>
      \<exists>t'. scsi_command T c (CmdIn buf) t = Ret (t', Ok (n * bs), blocks_at bs a n m) \<and> holds k t' m"
    and writes: "holds (Suc k) t m \<Longrightarrow> cdb_target c = Some (a, n) \<Longrightarrow> c ! 0 \<in> {0x2A, 0x8A} \<Longrightarrow> 0 < n \<Longrightarrow>
      n * bs < 2 ^ 32 \<Longrightarrow> length data = n * bs \<Longrightarrow> in_range bs a n m \<Longrightarrow>
      \<exists>t'. scsi_command T c (CmdOut data) t = Ret (t', Ok (n * bs), []) \<and> holds k t' (overwrite m (a * bs) data)"
    and reads_refused: "holds (Suc k) t m \<Longrightarrow> cdb_target c = Some (a, n) \<Longrightarrow> c ! 0 \<in> {0x28, 0x88} \<Longrightarrow> 0 < n \<Longrightarrow>
      n * bs < 2 ^ 32 \<Longrightarrow> length buf = n * bs \<Longrightarrow> \<not> in_range bs a n m \<Longrightarrow>
      \<exists>t' buf'. scsi_command T c (CmdIn buf) t = Ret (t', Err CommandFailed, buf') \<and> refused k t' m"
    and sense: "refused (Suc k) t m \<Longrightarrow>
      \<exists>t' b. scsi_command T RequestSense (CmdIn (replicate 18 0)) t = Ret (t', Ok 18, b) \<and> length b = 18 \<and>
        b ! 2 = 5 \<and> b ! 12 = 0x21 \<and> b ! 13 = 0 \<and> holds k t' m"
    and inquires: "holds (Suc k) t m \<Longrightarrow>
      \<exists>t' b. scsi_command T (Inquiry None 36) (CmdIn (replicate 36 0)) t = Ret (t', Ok 36, b) \<and> is_disk_inquiry b \<and> holds k t' m"
    and ready: "holds (Suc k) t m \<Longrightarrow> \<exists>t'. scsi_command T TestUnitReady CmdNone t = Ret (t', Ok 0, []) \<and> holds k t' m"
    and capacity10: "holds (Suc k) t m \<Longrightarrow>
      \<exists>t'. scsi_command T ReadCapacity10 (CmdIn (replicate 8 0)) t = Ret (t', Ok 8, capacity10_bytes bs m) \<and> holds k t' m"
    and capacity16: "holds (Suc k) t m \<Longrightarrow>
      \<exists>t'. scsi_command T ReadCapacity16 (CmdIn (replicate 32 0)) t = Ret (t', Ok 32, capacity16_bytes bs m) \<and> holds k t' m"

text \<open>A disk that takes the data of a write that it then refuses.\<close>

locale scsi_disk_accepting = scsi_disk T bs holds refused
  for T :: "('t, 'e) ScsiTransport" and bs :: nat
    and holds :: "nat \<Rightarrow> 't \<Rightarrow> u8 list \<Rightarrow> bool" and refused :: "nat \<Rightarrow> 't \<Rightarrow> u8 list \<Rightarrow> bool" +
  assumes writes_refused: "holds (Suc k) t m \<Longrightarrow> cdb_target c = Some (a, n) \<Longrightarrow> c ! 0 \<in> {0x2A, 0x8A} \<Longrightarrow> 0 < n \<Longrightarrow>
      n * bs < 2 ^ 32 \<Longrightarrow> length data = n * bs \<Longrightarrow> \<not> in_range bs a n m \<Longrightarrow>
      \<exists>t' buf'. scsi_command T c (CmdOut data) t = Ret (t', Err CommandFailed, buf') \<and> refused k t' m"

lemma sense_out_of_range: "sense_error 5 0x21 0 = Some IllegalRequest"
  by (simp add: sense_error_def ERRORS3_def ERRORS2_def ERRORS1_def)

context scsi_disk
begin

lemma upgrade_refused:
  assumes "casts_by_size tfb" and "refused (Suc k) t m"
  shows "\<exists>t'. try_upgrade_error tfb T CommandFailed t = Ret (t', Scsi IllegalRequest) \<and> holds k t' m"
proof -
  obtain t' b where b: "scsi_command T RequestSense (CmdIn (replicate 18 0)) t = Ret (t', Ok 18, b)" "length b = 18"
    "b ! 2 = 5" "b ! 12 = 0x21" "b ! 13 = 0" "holds k t' m" using sense [OF assms(2)] by blast
  have "run_command T RequestSense (CmdIn (replicate 18 0)) t = Ret (t', Ok (18, b))"
    unfolding run_command_def b(1) by simp
  then have "request_sense tfb T t = Ret (t', Ok (request_sense_reply_of_bytes b))"
    using b(2) assms(1) by (simp add: request_sense_def bindR_def casts_by_size_def)
  then show ?thesis using b by (simp add: try_upgrade_error_def request_sense_reply_of_bytes_def sense_out_of_range)
qed

text \<open>A command that is refused becomes the error for an illegal request.\<close>

lemma upgrading_refused:
  assumes "casts_by_size tfb" and "scsi_command T c d t = Ret (t1, Err CommandFailed, buf')" and "refused (Suc k) t1 m"
  shows "\<exists>t'. upgrading tfb T (run_command T c d) t = Ret (t', Err (Scsi IllegalRequest)) \<and> holds k t' m"
  using upgrade_refused [OF assms(1,3)] assms(2) by (auto simp: upgrading_def run_command_def)

lemma upgrading_done:
  "scsi_command T c d t = Ret (t1, Ok n, buf') \<Longrightarrow> upgrading tfb T (run_command T c d) t = Ret (t1, Ok (n, buf'))"
  by (simp add: upgrading_def run_command_def)

lemma response_done:
  "scsi_command T c (CmdIn (replicate n 0)) t = Ret (t1, Ok n, b) \<Longrightarrow> command_response tfb T c n t = Ret (t1, Ok b)"
  by (simp add: command_response_def bindR_eqs(1) [OF upgrading_done])

lemma inquiry_disk:
  assumes "holds (Suc k) t m"
  shows "\<exists>t' i. inquiry tfb T t = Ret (t', Ok i) \<and> peripheral_type i = Disk \<and> holds k t' m"
proof -
  obtain t' b where b: "scsi_command T (Inquiry None 36) (CmdIn (replicate 36 0)) t = Ret (t', Ok 36, b)" "is_disk_inquiry b" "holds k t' m"
    using inquires [OF assms] by blast
  have "peripheral_type_of 0 = Ret Disk" by (simp add: peripheral_type_of_def peripheral_types_def)
  then show ?thesis using b response_done [OF b(1), of tfb] by (simp add: inquiry_def bindR_def is_disk_inquiry_def)
qed

lemma test_unit_ready_disk:
  assumes "holds (Suc k) t m"
  shows "\<exists>t'. test_unit_ready tfb T t = Ret (t', Ok ()) \<and> holds k t' m"
  using ready [OF assms] by (auto simp: test_unit_ready_def bindR_eqs(1) [OF upgrading_done])

text \<open>The size that is reported: the address of the last block in place of the number of blocks.\<close>

lemma device_info_disk:
  assumes "holds (Suc (Suc k)) t m" and bs: "bs < 2 ^ 32"
  shows "\<exists>t' i. device_info tfb T t = Ret (t', Ok i) \<and> unat (blocks i) = last_block bs m \<and> unat (block_size i) = bs \<and> holds k t' m"
proof -
  let ?n = "min (last_block bs m) 0xFFFFFFFF"
  have last: "last_block bs m < 2 ^ 64"
    using capacity [OF assms(1)] less_mult_imp_div_less [of "length m" "2 ^ 64" bs] by (simp add: last_block_def)
  obtain t1 where t1: "scsi_command T ReadCapacity10 (CmdIn (replicate 8 0)) t = Ret (t1, Ok 8, capacity10_bytes bs m)" "holds (Suc k) t1 m"
    using capacity10 [OF assms(1)] by blast
  have r10: "read_capacity_10 tfb T t = Ret (t1, Ok (word_of_nat ?n, word_of_nat bs))"
    using response_done [OF t1(1), of tfb]
    by (simp add: read_capacity_10_def bindR_def capacity10_bytes_def field_at_def u32_be_roundtrip)
  have n: "unat (word_of_nat ?n :: u32) = ?n" "unat (word_of_nat bs :: u32) = bs" "unat (word_of_nat (last_block bs m) :: u64) = last_block bs m"
    using bs last by (simp_all add: unat_of_nat take_bit_nat_eq_self)
  show ?thesis
  proof (cases "last_block bs m < 0xFFFFFFFF")
    case True
    then have "(word_of_nat ?n :: u32) \<noteq> 0xFFFFFFFF" "unat (ucast (word_of_nat ?n :: u32) :: u64) = last_block bs m"
      using n(1) by (auto simp: widen_u32_u64 dest: arg_cong [where f = unat])
    then show ?thesis using r10 t1(2) spare n(2) by (auto simp: device_info_def bindR_def)
  next
    case False
    then have "?n = 0xFFFFFFFF" by simp
    moreover obtain t2 where t2: "scsi_command T ReadCapacity16 (CmdIn (replicate 32 0)) t1 = Ret (t2, Ok 32, capacity16_bytes bs m)" "holds k t2 m"
      using capacity16 [OF t1(2)] by blast
    moreover have "read_capacity_16 tfb T t1 = Ret (t2, Ok (word_of_nat (last_block bs m), word_of_nat bs))"
      using response_done [OF t2(1), of tfb]
      by (simp add: read_capacity_16_def bindR_def capacity16_bytes_def field_at_def u32_be_roundtrip u64_be_roundtrip)
    ultimately show ?thesis using r10 n(2,3) by (auto simp: device_info_def bindR_def)
  qed
qed

text \<open>A range that does not fit 64 bits is beyond the end of every disk.\<close>

lemma overflow_out_of_range:
  assumes "holds k t m" and "2 ^ 64 \<le> a + n"
  shows "\<not> in_range bs a n m"
proof -
  have "2 ^ 64 * bs \<le> (a + n) * bs" by (rule mult_le_mono1 [OF assms(2)])
  then show ?thesis using capacity [OF assms(1)] unfolding in_range_def by linarith
qed

lemma read_request:
  assumes tfb: "casts_by_size tfb" and t: "holds (Suc (Suc k)) t m" and ok: "request_ok bs (ReadBlocks a n buf)"
  shows "\<exists>t'. block_request tfb T (ReadBlocks a n buf) t = Ret (t', reported (snd (disk_request bs (ReadBlocks a n buf) m))) \<and>
    holds k t' (fst (disk_request bs (ReadBlocks a n buf) m))"
proof (cases "unat a + unat n < 2 ^ 64")
  case fits: True
  note ok = ok [unfolded request_ok_def, simplified]
  obtain c where c: "cdb_target c = Some (unat a, unat n)" "c ! 0 \<in> {0x28, 0x88}"
    and run: "read_blocks tfb T a n buf = bindR (upgrading tfb T (run_command T c (CmdIn buf)))
      (\<lambda>(sz, buf'). if sz < length buf then throwR ProtocolError else returnR buf')"
    using block_command [OF fits] by blast
  show ?thesis
  proof (cases "in_range bs (unat a) (unat n) m")
    case True
    then obtain t' where "scsi_command T c (CmdIn buf) t = Ret (t', Ok (unat n * bs), blocks_at bs (unat a) (unat n) m)"
      "holds (Suc k) t' m" using reads [OF t c] ok by auto
    then show ?thesis using True ok spare run by (auto simp: bindR_eqs(1) [OF upgrading_done])
  next
    case False
    then obtain t1 buf' where "scsi_command T c (CmdIn buf) t = Ret (t1, Err CommandFailed, buf')" "refused (Suc k) t1 m"
      using reads_refused [OF t c, of buf] ok by auto
    from upgrading_refused [OF tfb this] show ?thesis using False fits run by (auto simp: bindR_eqs(2) range_error_def)
  qed
next
  case False
  then show ?thesis using overflow_out_of_range [OF t, of "unat a" "unat n"] t spare
    by (auto simp: read_blocks_def not_less range_error_def)
qed

lemma write_request_in_range:
  assumes t: "holds (Suc (Suc k)) t m" and ok: "request_ok bs (WriteBlocks a n data)" and "in_range bs (unat a) (unat n) m"
  shows "\<exists>t'. block_request tfb T (WriteBlocks a n data) t = Ret (t', Ok []) \<and> holds k t' (overwrite m (unat a * bs) data)"
proof -
  have fits: "unat a + unat n < 2 ^ 64" using overflow_out_of_range [OF t] assms(3) not_less by blast
  obtain c where c: "cdb_target c = Some (unat a, unat n)" "c ! 0 \<in> {0x2A, 0x8A}"
    and run: "write_blocks tfb T a n data =
      bindR (bindR (upgrading tfb T (run_command T c (CmdOut data))) (\<lambda>(n, _). returnR n)) (\<lambda>_. returnR ())"
    using block_command [OF fits] by blast
  obtain t' where "scsi_command T c (CmdOut data) t = Ret (t', Ok (unat n * bs), [])"
      "holds (Suc k) t' (overwrite m (unat a * bs) data)"
    using writes [OF t c] ok assms(3) by (auto simp: request_ok_def)
  then show ?thesis using spare run by (auto simp: bindR_def upgrading_done)
qed

end

context scsi_disk_accepting
begin

lemma write_request:
  assumes tfb: "casts_by_size tfb" and t: "holds (Suc (Suc k)) t m" and ok: "request_ok bs (WriteBlocks a n data)"
  shows "\<exists>t'. block_request tfb T (WriteBlocks a n data) t = Ret (t', reported (snd (disk_request bs (WriteBlocks a n data) m))) \<and>
    holds k t' (fst (disk_request bs (WriteBlocks a n data) m))"
proof (cases "in_range bs (unat a) (unat n) m")
  case True
  then show ?thesis using write_request_in_range [OF t ok] by auto
next
  case out: False
  show ?thesis
  proof (cases "unat a + unat n < 2 ^ 64")
    case True
    obtain c where c: "cdb_target c = Some (unat a, unat n)" "c ! 0 \<in> {0x2A, 0x8A}"
      and run: "write_blocks tfb T a n data =
        bindR (bindR (upgrading tfb T (run_command T c (CmdOut data))) (\<lambda>(n, _). returnR n)) (\<lambda>_. returnR ())"
      using block_command [OF True] by blast
    obtain t1 buf' where "scsi_command T c (CmdOut data) t = Ret (t1, Err CommandFailed, buf')" "refused (Suc k) t1 m"
      using writes_refused [OF t c, of data] ok out by (auto simp: request_ok_def)
    from upgrading_refused [OF tfb this] show ?thesis using out True run by (auto simp: bindR_def range_error_def)
  next
    case False
    then show ?thesis using out t spare by (auto simp: write_blocks_def not_less bindR_def range_error_def)
  qed
qed

lemma requests_refine:
  assumes "casts_by_size tfb" and "holds (2 * length qs + k) t m" and "\<forall>q \<in> set qs. request_ok bs q"
  shows "\<exists>t'. block_requests tfb T qs t = Ret (t', map reported (snd (disk_requests bs qs m))) \<and>
    holds k t' (fst (disk_requests bs qs m))"
  using assms(2,3)
proof (induction qs arbitrary: t m)
  case (Cons q qs)
  obtain m1 r where q: "disk_request bs q m = (m1, r)" by (cases "disk_request bs q m")
  have "holds (Suc (Suc (2 * length qs + k))) t m" "request_ok bs q" using Cons.prems by simp_all
  then obtain t1 where t1: "block_request tfb T q t = Ret (t1, reported r)" "holds (2 * length qs + k) t1 m1"
    using read_request [OF assms(1)] write_request [OF assms(1)] q by (cases q) (metis fst_conv snd_conv)+
  from Cons.IH [OF t1(2)] Cons.prems obtain t' where "block_requests tfb T qs t1 = Ret (t', map reported (snd (disk_requests bs qs m1)))"
    "holds k t' (fst (disk_requests bs qs m1))" by auto
  then show ?case using t1 q by (simp add: split_beta)
qed simp

end

end
