(* ===== verification/Usb_Disk.thy ===== *)
theory Usb_Disk
  imports Mass_Storage Scsi_Disk
begin

text \<open>
  A USB disk behind the bulk-only transport of \<open>mass_storage.rs\<close>. The device is not code of the
  repository: what it does with the transfers of its two bulk endpoints, as the USB mass-storage
  specification and the SCSI block commands prescribe it, is the partial functions \<open>bot_out\<close> and
  \<open>bot_in\<close>, and the hypothesis \<open>conforming_disk\<close> says that a host controller has such a disk attached.
  On it the transport is a SCSI disk, so block requests over it are those of an array of blocks.
\<close>

section \<open>The disk on the other side of the bus\<close>

datatype BotPhase = AwaitCommand | SendData "u8 list" | TakeData "nat option" nat | SendStatus u8

record BotDisk =
  bd_medium :: "u8 list"
  bd_inquiry :: "u8 list"
  bd_phase :: BotPhase
  bd_tag :: u32
  bd_residue :: u32
  bd_sense :: bool
  bd_in_halted :: bool
  bd_out_halted :: bool

text \<open>The fields of a command block wrapper of 31 bytes: tag, length and flags of the data phase, command block.\<close>

definition cbw_decode :: "u8 list \<Rightarrow> (u32 \<times> u32 \<times> u8 \<times> u8 list) option" where
  "cbw_decode p =
     (if length p = 31 \<and> take 4 p = [0x55, 0x53, 0x42, 0x43] \<and> p ! 13 = 0 \<and> 1 \<le> unat (p ! 14) \<and> unat (p ! 14) \<le> 16
      then Some (u32_from_le_bytes (field_at p 4 4), u32_from_le_bytes (field_at p 8 4), p ! 12,
                 take (unat (p ! 14)) (drop 15 p))
      else None)"

definition csw_bytes :: "u32 \<Rightarrow> u32 \<Rightarrow> u8 \<Rightarrow> u8 list" where
  "csw_bytes tag residue status = [0x55, 0x53, 0x42, 0x53] @ u32_to_le_bytes tag @ u32_to_le_bytes residue @ [status]"

definition sense_bytes :: "bool \<Rightarrow> u8 list" where
  "sense_bytes out_of_range =
     [0x70, 0, if out_of_range then 5 else 0, 0, 0, 0, 0, 10, 0, 0, 0, 0, if out_of_range then 0x21 else 0, 0, 0, 0, 0, 0]"

text \<open>The commands that only return data about the disk.\<close>

definition bot_reply :: "nat \<Rightarrow> u8 list \<Rightarrow> BotDisk \<Rightarrow> u8 list option" where
  "bot_reply bs cmd d =
     (if cmd = RequestSense then Some (sense_bytes (bd_sense d))
      else if cmd = Inquiry None 36 then Some (bd_inquiry d)
      else if cmd = ReadCapacity10 then Some (capacity10_bytes bs (bd_medium d))
      else if cmd = ReadCapacity16 then Some (capacity16_bytes bs (bd_medium d))
      else None)"

text \<open>
  The phase after a command. A read or write of blocks that exist is carried out; of others it is refused,
  a read by halting the endpoint, a write by halting the endpoint or by taking the data and dropping it,
  whichever the device is built for (\<open>stalls\<close>).
\<close>

definition bot_command :: "nat \<Rightarrow> bool \<Rightarrow> u32 \<times> u32 \<times> u8 \<times> u8 list \<Rightarrow> BotDisk \<Rightarrow> BotDisk option" where
  "bot_command bs stalls = (\<lambda>(tag, len, flags, cmd) d.
     case cdb_target cmd of
       Some (a, n) \<Rightarrow>
         if n = 0 \<or> unat len \<noteq> n * bs then None
         else if cmd ! 0 \<in> {0x28, 0x88} \<and> flags = 0x80 then
           Some (if in_range bs a n (bd_medium d)
             then d\<lparr>bd_tag := tag, bd_residue := 0, bd_sense := False, bd_phase := SendData (blocks_at bs a n (bd_medium d))\<rparr>
             else d\<lparr>bd_tag := tag, bd_residue := len, bd_sense := True, bd_in_halted := True, bd_phase := SendStatus 1\<rparr>)
         else if cmd ! 0 \<in> {0x2A, 0x8A} \<and> flags = 0 then
           Some (if in_range bs a n (bd_medium d)
             then d\<lparr>bd_tag := tag, bd_residue := 0, bd_sense := False, bd_phase := TakeData (Some (a * bs)) (n * bs)\<rparr>
             else if stalls
             then d\<lparr>bd_tag := tag, bd_residue := len, bd_sense := True, bd_out_halted := True, bd_phase := SendStatus 1\<rparr>
             else d\<lparr>bd_tag := tag, bd_residue := len, bd_sense := True, bd_phase := TakeData None (n * bs)\<rparr>)
         else None
     | None \<Rightarrow>
         if cmd = TestUnitReady \<and> len = 0
         then Some (d\<lparr>bd_tag := tag, bd_residue := 0, bd_sense := False, bd_phase := SendStatus 0\<rparr>)
         else (case bot_reply bs cmd d of
             None \<Rightarrow> None
           | Some bytes \<Rightarrow>
               if flags = 0x80 \<and> unat len = length bytes
               then Some (d\<lparr>bd_tag := tag, bd_residue := 0, bd_sense := False, bd_phase := SendData bytes\<rparr>)
               else None))"

text \<open>Transfers to and from the disk; no value where the specification leaves the behaviour open.\<close>

definition bot_out :: "nat \<Rightarrow> bool \<Rightarrow> u8 list \<Rightarrow> BotDisk \<Rightarrow> (BotDisk \<times> (UsbError, usize) result) option" where
  "bot_out bs stalls data d =
     (if bd_out_halted d then Some (d, Err Stall)
      else case bd_phase d of
        AwaitCommand \<Rightarrow>
          (case cbw_decode data of
             None \<Rightarrow> None
           | Some c \<Rightarrow> map_option (\<lambda>d'. (d', Ok (length data))) (bot_command bs stalls c d))
      | TakeData target n \<Rightarrow>
          if length data = n then
            Some (case target of
                Some i \<Rightarrow> d\<lparr>bd_medium := overwrite (bd_medium d) i data, bd_phase := SendStatus 0\<rparr>
              | None \<Rightarrow> d\<lparr>bd_phase := SendStatus 1\<rparr>, Ok n)
          else None
      | _ \<Rightarrow> None)"

definition bot_in :: "nat \<Rightarrow> BotDisk \<Rightarrow> (BotDisk \<times> (UsbError, u8 list) result) option" where
  "bot_in n d =
     (if bd_in_halted d then Some (d, Err Stall)
      else case bd_phase d of
        SendData bytes \<Rightarrow> if length bytes = n then Some (d\<lparr>bd_phase := SendStatus 0\<rparr>, Ok bytes) else None
      | SendStatus status \<Rightarrow>
          if n = 13 then Some (d\<lparr>bd_phase := AwaitCommand\<rparr>, Ok (csw_bytes (bd_tag d) (bd_residue d) status)) else None
      | _ \<Rightarrow> None)"

text \<open>
  Where the disk is on the bus, and how its state is seen in the state of a host controller: the disk itself
  and the data toggles that its endpoints expect next.
\<close>

record DiskPort =
  dp_address :: u8
  dp_in :: u8
  dp_out :: u8

record 'hc DiskView =
  dv_disk :: "'hc \<Rightarrow> BotDisk"
  dv_in_toggle :: "'hc \<Rightarrow> bool"
  dv_out_toggle :: "'hc \<Rightarrow> bool"

definition clear_in_halt :: "DiskPort \<Rightarrow> SetupPacket" where
  "clear_in_halt P = \<lparr>bmRequestType = 2, bRequest = CLEAR_FEATURE, wValue = 0, wIndex = ucast (dp_in P OR 0x80), wLength = 0\<rparr>"

definition conforming_disk ::
    "('hc, 'pipe) HostController \<Rightarrow> nat \<Rightarrow> bool \<Rightarrow> DiskPort \<Rightarrow> 'hc DiskView \<Rightarrow> bool" where
  "conforming_disk H bs stalls P V \<longleftrightarrow>
     (\<forall>hc data d r. bot_out bs stalls data (dv_disk V hc) = Some (d, r) \<longrightarrow>
        (\<exists>hc' tog. hc_bulk_out_transfer H (dp_address P) (dp_out P) 64 data FixedSize (dv_out_toggle V hc) hc = Ret (hc', r, tog) \<and>
           dv_disk V hc' = d \<and> dv_out_toggle V hc' = tog \<and> dv_in_toggle V hc' = dv_in_toggle V hc)) \<and>
     (\<forall>hc buf d r. bot_in (length buf) (dv_disk V hc) = Some (d, r) \<longrightarrow>
        (\<exists>hc' buf' tog. hc_bulk_in_transfer H (dp_address P) (dp_in P) 64 buf FixedSize (dv_in_toggle V hc) hc =
             Ret (hc', map_sum id length r, buf', tog) \<and>
           dv_disk V hc' = d \<and> dv_in_toggle V hc' = tog \<and> dv_out_toggle V hc' = dv_out_toggle V hc \<and>
           (\<forall>bytes. r = Ok bytes \<longrightarrow> buf' = bytes))) \<and>
     (\<forall>hc. \<exists>hc' n. hc_control_transfer H (dp_address P) 8 (clear_in_halt P) DataNone hc = Ret (hc', Ok n, DataNone) \<and>
        dv_disk V hc' = (dv_disk V hc)\<lparr>bd_in_halted := False\<rparr> \<and> dv_in_toggle V hc' = False \<and>
        dv_out_toggle V hc' = dv_out_toggle V hc)"

lemmas conforming_out = conforming_disk_def [THEN iffD1, THEN conjunct1, rule_format]
lemmas conforming_in = conforming_disk_def [THEN iffD1, THEN conjunct2, THEN conjunct1, rule_format]
lemmas conforming_clear = conforming_disk_def [THEN iffD1, THEN conjunct2, THEN conjunct2, rule_format]

section \<open>The transport in front of a disk\<close>

definition attached :: "DiskPort \<Rightarrow> 'hc DiskView \<Rightarrow> 'hc MassStorage \<Rightarrow> BotDisk \<Rightarrow> bool" where
  "attached P V ms d \<longleftrightarrow>
     bi_usb_address (ms_bulk_in ms) = dp_address P \<and> bi_endpoint (ms_bulk_in ms) = dp_in P \<and>
     bo_usb_address (ms_bulk_out ms) = dp_address P \<and> bo_endpoint (ms_bulk_out ms) = dp_out P \<and>
     bi_data_toggle (ms_bulk_in ms) = dv_in_toggle V (ms_hc ms) \<and>
     bo_data_toggle (ms_bulk_out ms) = dv_out_toggle V (ms_hc ms) \<and> dv_disk V (ms_hc ms) = d"

lemma attached_tag [simp]: "attached P V (ms\<lparr>ms_tag := t\<rparr>) d \<longleftrightarrow> attached P V ms d"
  by (simp add: attached_def)

lemma ms_out_step:
  assumes "conforming_disk H bs stalls P V" and "attached P V ms d" and "bot_out bs stalls data d = Some (d', r)"
  shows "\<exists>ms'. ms_out H data ms = Ret (ms', r) \<and> attached P V ms' d' \<and> ms_tag ms' = ms_tag ms"
proof -
  have "bot_out bs stalls data (dv_disk V (ms_hc ms)) = Some (d', r)" using assms(2,3) by (simp add: attached_def)
  from conforming_out [OF assms(1) this] obtain hc tog where "hc_bulk_out_transfer H (dp_address P) (dp_out P) 64 data FixedSize (dv_out_toggle V (ms_hc ms)) (ms_hc ms) =
      Ret (hc, r, tog)" "dv_disk V hc = d'" "dv_out_toggle V hc = tog" "dv_in_toggle V hc = dv_in_toggle V (ms_hc ms)"
    by blast
  then show ?thesis using assms(2)
    by (intro exI [of _ "ms\<lparr>ms_hc := hc, ms_bulk_out := (ms_bulk_out ms)\<lparr>bo_data_toggle := tog\<rparr>\<rparr>"])
      (simp add: ms_out_def bus_bulk_out_transfer_def attached_def)
qed

lemma ms_in_step:
  assumes "conforming_disk H bs stalls P V" and "attached P V ms d" and "bot_in (length buf) d = Some (d', r)"
  shows "\<exists>ms' buf'. ms_in H buf ms = Ret (ms', map_sum id length r, buf') \<and> attached P V ms' d' \<and> ms_tag ms' = ms_tag ms \<and>
    (\<forall>bytes. r = Ok bytes \<longrightarrow> buf' = bytes)"
proof -
  have "bot_in (length buf) (dv_disk V (ms_hc ms)) = Some (d', r)" using assms(2,3) by (simp add: attached_def)
  from conforming_in [OF assms(1) this] obtain hc buf' tog where "hc_bulk_in_transfer H (dp_address P) (dp_in P) 64 buf FixedSize (dv_in_toggle V (ms_hc ms)) (ms_hc ms) =
      Ret (hc, map_sum id length r, buf', tog)" "dv_disk V hc = d'" "dv_in_toggle V hc = tog"
      "dv_out_toggle V hc = dv_out_toggle V (ms_hc ms)" "\<forall>bytes. r = Ok bytes \<longrightarrow> buf' = bytes"
    by blast
  then show ?thesis using assms(2)
    by (intro exI [of _ "ms\<lparr>ms_hc := hc, ms_bulk_in := (ms_bulk_in ms)\<lparr>bi_data_toggle := tog\<rparr>\<rparr>"] exI [of _ buf'])
      (simp add: ms_in_def bus_bulk_in_transfer_def attached_def)
qed

lemma ms_clear_halt_step:
  assumes "conforming_disk H bs stalls P V" and "attached P V ms d"
  shows "\<exists>ms'. ms_clear_halt H ms = Ret (ms', Ok ()) \<and> attached P V ms' (d\<lparr>bd_in_halted := False\<rparr>) \<and> ms_tag ms' = ms_tag ms"
proof -
  from conforming_clear [OF assms(1), of "ms_hc ms"] obtain hc n
    where "hc_control_transfer H (dp_address P) 8 (clear_in_halt P) DataNone (ms_hc ms) = Ret (hc, Ok n, DataNone)"
      "dv_disk V hc = (dv_disk V (ms_hc ms))\<lparr>bd_in_halted := False\<rparr>" "dv_in_toggle V hc = False"
      "dv_out_toggle V hc = dv_out_toggle V (ms_hc ms)"
    by blast
  then show ?thesis using assms(2)
    by (intro exI [of _ "ms\<lparr>ms_hc := hc, ms_bulk_in := (ms_bulk_in ms)\<lparr>bi_data_toggle := False\<rparr>\<rparr>"])
      (simp add: ms_clear_halt_def clear_halt_def control_none_def bindR_def attached_def clear_in_halt_def)
qed

lemma length_csw_bytes [simp]: "length (csw_bytes t r s) = 13"
  by (simp add: csw_bytes_def)

lemma ms_status_step:
  assumes "conforming_disk H bs stalls P V" and "attached P V ms d" and "bd_phase d = SendStatus s" and "\<not> bd_in_halted d"
    and "s = 0 \<or> s = 1"
  shows "\<exists>ms'. ms_status H n buf ms = Ret (ms', if s = 0 then Ok n else Err CommandFailed, buf) \<and>
    attached P V ms' (d\<lparr>bd_phase := AwaitCommand\<rparr>) \<and> ms_tag ms' = ms_tag ms"
proof -
  have "bot_in (length (replicate 13 (0 :: u8))) d =
      Some (d\<lparr>bd_phase := AwaitCommand\<rparr>, Ok (csw_bytes (bd_tag d) (bd_residue d) s))"
    using assms(3,4) by (simp add: bot_in_def)
  from ms_in_step [OF assms(1,2) this] obtain ms'
    where "ms_in H (replicate 13 0) ms = Ret (ms', Ok 13, csw_bytes (bd_tag d) (bd_residue d) s)"
      "attached P V ms' (d\<lparr>bd_phase := AwaitCommand\<rparr>)" "ms_tag ms' = ms_tag ms" by auto
  moreover have "csw_bytes t r s ! 12 = s" for t r by (simp add: csw_bytes_def nth_append)
  ultimately show ?thesis using assms(5) by (auto simp: ms_status_def)
qed

text \<open>The wrapper that the transport sends is the one the disk decodes.\<close>

lemma cbw_decoded:
  assumes "command_block_wrapper_new tag len flags cmd = Ret c" and "1 \<le> length cmd" and "length cmd \<le> 16"
  shows "cbw_decode (take 31 (cbw_bytes c)) = Some (tag, len, flags, cmd)"
proof -
  note w = cbw_wire_format [OF assms(1,3)]
  have "drop 15 (take 31 (cbw_bytes c)) = cmd @ replicate (16 - length cmd) 0" using w by blast
  then have "take (length cmd) (drop 15 (take 31 (cbw_bytes c))) = cmd" by simp
  moreover have "take 4 (take 31 (cbw_bytes c)) = take 4 (cbw_bytes c)" "field_at (take 31 (cbw_bytes c)) 4 4 = field_at (cbw_bytes c) 4 4"
    "field_at (take 31 (cbw_bytes c)) 8 4 = field_at (cbw_bytes c) 8 4" by (simp_all add: field_at_def drop_take)
  ultimately show ?thesis using w assms(2,3) by (simp add: cbw_decode_def)
qed

text \<open>What follows the sending of the wrapper.\<close>

definition ms_finish ::
    "('hc, 'pipe) HostController \<Rightarrow> ScsiDataPhase \<Rightarrow> 'hc MassStorage \<Rightarrow>
       ('hc MassStorage \<times> (UsbError Error, usize) result \<times> u8 list) outcome" where
  "ms_finish H d ms =
     obind (ms_data_phase H d ms) (\<lambda>(ms3, response, buf).
       case response of
         Inr n \<Rightarrow> ms_status H n buf ms3
       | Inl e \<Rightarrow>
           if e = Stall then
             obind (ms_clear_halt H ms3) (\<lambda>(ms4, r). case r of
               Inl e \<Rightarrow> Ret (ms4, Err (Transport e), buf)
             | Inr _ \<Rightarrow> ms_status H 0 buf ms4)
           else Ret (ms3, Err (Transport e), buf))"

lemma ms_command_finish:
  assumes C: "conforming_disk H bs stalls P V" and "attached P V ms d" and "unat (ms_tag ms) + 2 < 2 ^ 32"
    and len: "1 \<le> length cmd" "length cmd \<le> 16" and "bd_phase d = AwaitCommand" and "\<not> bd_out_halted d"
    and "bot_command bs stalls (ms_tag ms + 2, word_of_nat (data_len dp), data_flags dp, cmd) d = Some d'"
  shows "\<exists>ms'. ms_command H cmd dp ms = ms_finish H dp ms' \<and> attached P V ms' d' \<and> ms_tag ms' = ms_tag ms + 2"
proof -
  let ?ms1 = "ms\<lparr>ms_tag := ms_tag ms + 2\<rparr>"
  obtain cbw where cbw: "command_block_wrapper_new (ms_tag ms + 2) (word_of_nat (data_len dp)) (data_flags dp) cmd = Ret cbw"
    using len by (simp add: command_block_wrapper_new_def)
  have packet: "slice (cbw_bytes cbw) 0 31 = Ret (take 31 (cbw_bytes cbw))" "length (take 31 (cbw_bytes cbw)) = 31"
    using cbw_bytes_length [OF cbw] by simp_all
  have "bot_out bs stalls (take 31 (cbw_bytes cbw)) d = Some (d', Ok 31)"
    using assms(6-8) cbw_decoded [OF cbw len] packet(2) by (simp add: bot_out_def)
  from ms_out_step [OF C _ this, of ?ms1] assms(2) obtain ms2
    where "ms_out H (take 31 (cbw_bytes cbw)) ?ms1 = Ret (ms2, Ok 31)" "attached P V ms2 d'" "ms_tag ms2 = ms_tag ms + 2"
    by auto
  then show ?thesis using assms(3) cbw packet(1)
    by (intro exI [of _ ms2]) (simp add: ms_command_def ms_finish_def Let_def)
qed

text \<open>The data phases of the four kinds of commands, each with its status.\<close>

lemma finish_in:
  assumes C: "conforming_disk H bs stalls P V" and A: "attached P V ms d" and "bd_phase d = SendData bytes" and "\<not> bd_in_halted d"
    and "length buf = length bytes"
  shows "\<exists>ms'. ms_finish H (CmdIn buf) ms = Ret (ms', Ok (length bytes), bytes) \<and>
    attached P V ms' (d\<lparr>bd_phase := AwaitCommand\<rparr>) \<and> ms_tag ms' = ms_tag ms"
proof -
  let ?d = "d\<lparr>bd_phase := SendStatus 0\<rparr>"
  have "bot_in (length buf) d = Some (?d, Ok bytes)" using assms(3-5) by (simp add: bot_in_def)
  from ms_in_step [OF C A this] obtain ms1 where 1: "ms_in H buf ms = Ret (ms1, Ok (length bytes), bytes)"
    "attached P V ms1 ?d" "ms_tag ms1 = ms_tag ms" by auto
  from ms_status_step [OF C 1(2), where s = 0 and n = "length bytes" and buf = bytes] assms(4) 1 show ?thesis
    by (auto simp: ms_finish_def)
qed

lemma finish_in_refused:
  assumes C: "conforming_disk H bs stalls P V" and A: "attached P V ms d" and "bd_phase d = SendStatus 1" and "bd_in_halted d"
  shows "\<exists>ms' buf'. ms_finish H (CmdIn buf) ms = Ret (ms', Err CommandFailed, buf') \<and>
    attached P V ms' (d\<lparr>bd_in_halted := False, bd_phase := AwaitCommand\<rparr>) \<and> ms_tag ms' = ms_tag ms"
proof -
  have "bot_in (length buf) d = Some (d, Err Stall)" using assms(4) by (simp add: bot_in_def)
  from ms_in_step [OF C A this] obtain ms1 buf' where 1: "ms_in H buf ms = Ret (ms1, Err Stall, buf')"
    "attached P V ms1 d" "ms_tag ms1 = ms_tag ms" by auto
  from ms_clear_halt_step [OF C 1(2)] obtain ms2 where 2: "ms_clear_halt H ms1 = Ret (ms2, Ok ())"
    "attached P V ms2 (d\<lparr>bd_in_halted := False\<rparr>)" "ms_tag ms2 = ms_tag ms1" by blast
  from ms_status_step [OF C 2(2), where s = 1 and n = 0 and buf = buf'] assms(3) obtain ms3
    where 3: "ms_status H 0 buf' ms2 = Ret (ms3, Err CommandFailed, buf')"
      "attached P V ms3 (d\<lparr>bd_in_halted := False, bd_phase := AwaitCommand\<rparr>)" "ms_tag ms3 = ms_tag ms2" by auto
  show ?thesis using 1 2 3 by (intro exI [of _ ms3] exI [of _ buf']) (simp add: ms_finish_def)
qed

lemma finish_out:
  assumes C: "conforming_disk H bs stalls P V" and A: "attached P V ms d" and "bd_phase d = TakeData target (length data)"
    and "\<not> bd_in_halted d" and "\<not> bd_out_halted d"
  shows "\<exists>ms'. ms_finish H (CmdOut data) ms = Ret (ms', if target = None then Err CommandFailed else Ok (length data), []) \<and>
    attached P V ms' (case target of
        Some i \<Rightarrow> d\<lparr>bd_medium := overwrite (bd_medium d) i data, bd_phase := AwaitCommand\<rparr>
      | None \<Rightarrow> d\<lparr>bd_phase := AwaitCommand\<rparr>) \<and> ms_tag ms' = ms_tag ms"
proof -
  let ?d = "case target of Some i \<Rightarrow> d\<lparr>bd_medium := overwrite (bd_medium d) i data, bd_phase := SendStatus 0\<rparr>
      | None \<Rightarrow> d\<lparr>bd_phase := SendStatus 1\<rparr>" and ?s = "if target = None then 1 else 0 :: u8"
  have "bot_out bs stalls data d = Some (?d, Ok (length data))" using assms(3,5) by (simp add: bot_out_def)
  from ms_out_step [OF C A this] obtain ms1 where 1: "ms_out H data ms = Ret (ms1, Ok (length data))"
    "attached P V ms1 ?d" "ms_tag ms1 = ms_tag ms" by blast
  have "bd_phase ?d = SendStatus ?s" "\<not> bd_in_halted ?d" "?s = 0 \<or> ?s = 1" using assms(4) by (simp_all split: option.split)
  from ms_status_step [OF C 1(2) this, of "length data" "[]"] obtain ms2
    where 2: "ms_status H (length data) [] ms1 = Ret (ms2, if ?s = 0 then Ok (length data) else Err CommandFailed, [])"
      "attached P V ms2 (?d\<lparr>bd_phase := AwaitCommand\<rparr>)" "ms_tag ms2 = ms_tag ms1" by blast
  show ?thesis using 1 2 by (intro exI [of _ ms2]) (cases target; simp add: ms_finish_def)
qed

text \<open>The transport answers a halted outgoing endpoint by clearing the halt of the other one.\<close>

lemma finish_out_halted:
  assumes C: "conforming_disk H bs stalls P V" and A: "attached P V ms d" and "bd_phase d = SendStatus 1" and "bd_out_halted d"
  shows "\<exists>ms'. ms_finish H (CmdOut data) ms = Ret (ms', Err CommandFailed, []) \<and>
    attached P V ms' (d\<lparr>bd_in_halted := False, bd_phase := AwaitCommand\<rparr>) \<and> ms_tag ms' = ms_tag ms"
proof -
  have "bot_out bs stalls data d = Some (d, Err Stall)" using assms(4) by (simp add: bot_out_def)
  from ms_out_step [OF C A this] obtain ms1 where 1: "ms_out H data ms = Ret (ms1, Err Stall)"
    "attached P V ms1 d" "ms_tag ms1 = ms_tag ms" by auto
  from ms_clear_halt_step [OF C 1(2)] obtain ms2 where 2: "ms_clear_halt H ms1 = Ret (ms2, Ok ())"
    "attached P V ms2 (d\<lparr>bd_in_halted := False\<rparr>)" "ms_tag ms2 = ms_tag ms1" by blast
  from ms_status_step [OF C 2(2), where s = 1 and n = 0 and buf = "[]"] assms(3) obtain ms3
    where 3: "ms_status H 0 [] ms2 = Ret (ms3, Err CommandFailed, [])"
      "attached P V ms3 (d\<lparr>bd_in_halted := False, bd_phase := AwaitCommand\<rparr>)" "ms_tag ms3 = ms_tag ms2" by auto
  show ?thesis using 1 2 3 by (intro exI [of _ ms3]) (simp add: ms_finish_def)
qed

section \<open>The transport is a SCSI disk\<close>

definition disk_idle :: "BotDisk \<Rightarrow> u8 list \<Rightarrow> bool" where
  "disk_idle d m \<longleftrightarrow> bd_medium d = m \<and> is_disk_inquiry (bd_inquiry d) \<and> bd_phase d = AwaitCommand \<and> \<not> bd_in_halted d \<and> \<not> bd_out_halted d"

definition disk_holds :: "nat \<Rightarrow> DiskPort \<Rightarrow> 'hc DiskView \<Rightarrow> nat \<Rightarrow> 'hc MassStorage \<Rightarrow> u8 list \<Rightarrow> bool" where
  "disk_holds bs P V k ms m \<longleftrightarrow> (\<exists>d. attached P V ms d \<and> disk_idle d m) \<and>
     unat (ms_tag ms) + 2 * k < 2 ^ 32 \<and> length m < 2 ^ 64 * bs"

definition disk_refused :: "nat \<Rightarrow> DiskPort \<Rightarrow> 'hc DiskView \<Rightarrow> nat \<Rightarrow> 'hc MassStorage \<Rightarrow> u8 list \<Rightarrow> bool" where
  "disk_refused bs P V k ms m \<longleftrightarrow> (\<exists>d. attached P V ms d \<and> disk_idle d m \<and> bd_sense d) \<and>
     unat (ms_tag ms) + 2 * k < 2 ^ 32 \<and> length m < 2 ^ 64 * bs"

lemma tag_advance: "unat (ms_tag ms) + 2 * Suc k < 2 ^ 32 \<Longrightarrow> unat (ms_tag ms + 2) + 2 * k < 2 ^ 32"
  by (simp add: unat_word_ariths)

lemma cdb_target_length: "cdb_target c = Some x \<Longrightarrow> 1 \<le> length c \<and> length c \<le> 16"
  by (auto simp: cdb_target_def split: if_splits)

lemma unat_data_len: "length b < 2 ^ 32 \<Longrightarrow> unat (word_of_nat (length b) :: u32) = length b"
  by (simp add: unat_of_nat take_bit_nat_eq_self)

text \<open>One command: the wrapper takes the disk to the state \<open>d'\<close>, from which the transport finishes.\<close>

lemma disk_command:
  assumes "conforming_disk H bs stalls P V" and "attached P V ms d" and "disk_idle d m"
    and "unat (ms_tag ms) + 2 * Suc k < 2 ^ 32" and "1 \<le> length cmd \<and> length cmd \<le> 16"
    and "\<And>tag. bot_command bs stalls (tag, word_of_nat (data_len dp), data_flags dp, cmd) d = Some (d' tag)"
  shows "\<exists>ms' tag. scsi_command (mass_storage_transport H) cmd dp ms = ms_finish H dp ms' \<and> attached P V ms' (d' tag) \<and>
    unat (ms_tag ms') + 2 * k < 2 ^ 32"
  using ms_command_finish [OF assms(1,2), of cmd dp "d' (ms_tag ms + 2)"] assms(3-6) tag_advance [of ms k]
  by (auto simp: disk_idle_def mass_storage_transport_def)

lemma disk_reads:
  assumes C: "conforming_disk H bs stalls P V" and "disk_holds bs P V (Suc k) ms m"
    and c: "cdb_target c = Some (a, n)" "c ! 0 \<in> {0x28, 0x88}" "0 < n" "n * bs < 2 ^ 32" and buf: "length buf = n * bs"
  shows "in_range bs a n m \<Longrightarrow> \<exists>ms'. scsi_command (mass_storage_transport H) c (CmdIn buf) ms = Ret (ms', Ok (n * bs), blocks_at bs a n m) \<and>
      disk_holds bs P V k ms' m"
    and "\<not> in_range bs a n m \<Longrightarrow> \<exists>ms' buf'. scsi_command (mass_storage_transport H) c (CmdIn buf) ms = Ret (ms', Err CommandFailed, buf') \<and>
      disk_refused bs P V k ms' m"
proof -
  obtain d where d: "attached P V ms d" "disk_idle d m" and tag: "unat (ms_tag ms) + 2 * Suc k < 2 ^ 32"
    and m: "length m < 2 ^ 64 * bs" using assms(2) unfolding disk_holds_def by blast
  have "length buf < 2 ^ 32" using buf c(4) by simp
  from unat_data_len [OF this] have len: "unat (word_of_nat (data_len (CmdIn buf)) :: u32) = n * bs"
    by (simp only: data_len.simps buf)
  note command = disk_command [OF C d tag cdb_target_length [OF c(1)], of "CmdIn buf"]
  have idle: "bd_medium d = m" "is_disk_inquiry (bd_inquiry d)" "\<not> bd_in_halted d" "\<not> bd_out_halted d" using d(2) by (simp_all add: disk_idle_def)
  show "\<exists>ms'. scsi_command (mass_storage_transport H) c (CmdIn buf) ms = Ret (ms', Ok (n * bs), blocks_at bs a n m) \<and>
      disk_holds bs P V k ms' m" if range: "in_range bs a n m"
  proof -
    let ?d = "\<lambda>tag. d\<lparr>bd_tag := tag, bd_residue := 0, bd_sense := False, bd_phase := SendData (blocks_at bs a n m)\<rparr>"
    have "bot_command bs stalls (tag, word_of_nat (data_len (CmdIn buf)), data_flags (CmdIn buf), c) d = Some (?d tag)" for tag
      unfolding bot_command_def using c len range idle by simp
    from command [OF this] obtain ms1 tag
      where 1: "scsi_command (mass_storage_transport H) c (CmdIn buf) ms = ms_finish H (CmdIn buf) ms1"
        "attached P V ms1 (?d tag)" "unat (ms_tag ms1) + 2 * k < 2 ^ 32" by blast
    from finish_in [OF C 1(2), of "blocks_at bs a n m" buf] idle buf length_blocks_at [OF range] 1 m show ?thesis
      by (fastforce simp: disk_holds_def disk_idle_def)
  qed
  show "\<exists>ms' buf'. scsi_command (mass_storage_transport H) c (CmdIn buf) ms = Ret (ms', Err CommandFailed, buf') \<and>
      disk_refused bs P V k ms' m" if range: "\<not> in_range bs a n m"
  proof -
    let ?d = "\<lambda>tag. d\<lparr>bd_tag := tag, bd_residue := word_of_nat (length buf), bd_sense := True, bd_in_halted := True, bd_phase := SendStatus 1\<rparr>"
    have "bot_command bs stalls (tag, word_of_nat (data_len (CmdIn buf)), data_flags (CmdIn buf), c) d = Some (?d tag)" for tag
      unfolding bot_command_def using c len range idle by simp
    from command [OF this] obtain ms1 tag
      where 1: "scsi_command (mass_storage_transport H) c (CmdIn buf) ms = ms_finish H (CmdIn buf) ms1"
        "attached P V ms1 (?d tag)" "unat (ms_tag ms1) + 2 * k < 2 ^ 32" by blast
    from finish_in_refused [OF C 1(2), of buf] idle 1 m show ?thesis
      by (fastforce simp: disk_refused_def disk_idle_def)
  qed
qed

lemma disk_writes:
  assumes C: "conforming_disk H bs stalls P V" and "disk_holds bs P V (Suc k) ms m"
    and c: "cdb_target c = Some (a, n)" "c ! 0 \<in> {0x2A, 0x8A}" "0 < n" "n * bs < 2 ^ 32" and data: "length data = n * bs"
  shows "in_range bs a n m \<Longrightarrow> \<exists>ms'. scsi_command (mass_storage_transport H) c (CmdOut data) ms = Ret (ms', Ok (n * bs), []) \<and>
      disk_holds bs P V k ms' (overwrite m (a * bs) data)"
    and "\<not> in_range bs a n m \<Longrightarrow> \<not> stalls \<Longrightarrow>
      \<exists>ms' buf'. scsi_command (mass_storage_transport H) c (CmdOut data) ms = Ret (ms', Err CommandFailed, buf') \<and>
      disk_refused bs P V k ms' m"
    and "\<not> in_range bs a n m \<Longrightarrow> stalls \<Longrightarrow>
      \<exists>ms' d'. scsi_command (mass_storage_transport H) c (CmdOut data) ms = Ret (ms', Err CommandFailed, []) \<and>
      attached P V ms' d' \<and> bd_out_halted d' \<and> bd_medium d' = m \<and> unat (ms_tag ms') + 2 * k < 2 ^ 32"
proof -
  obtain d where d: "attached P V ms d" "disk_idle d m" and tag: "unat (ms_tag ms) + 2 * Suc k < 2 ^ 32"
    and m: "length m < 2 ^ 64 * bs" using assms(2) unfolding disk_holds_def by blast
  have "length data < 2 ^ 32" using data c(4) by simp
  from unat_data_len [OF this] have len: "unat (word_of_nat (data_len (CmdOut data)) :: u32) = n * bs"
    by (simp only: data_len.simps data)
  note command = disk_command [OF C d tag cdb_target_length [OF c(1)], of "CmdOut data"]
  have idle: "bd_medium d = m" "is_disk_inquiry (bd_inquiry d)" "\<not> bd_in_halted d" "\<not> bd_out_halted d" using d(2) by (simp_all add: disk_idle_def)
  have op: "c ! 0 \<noteq> 0x28" "c ! 0 \<noteq> 0x88" using c(2) by auto
  show "\<exists>ms'. scsi_command (mass_storage_transport H) c (CmdOut data) ms = Ret (ms', Ok (n * bs), []) \<and>
      disk_holds bs P V k ms' (overwrite m (a * bs) data)" if range: "in_range bs a n m"
  proof -
    let ?d = "\<lambda>tag. d\<lparr>bd_tag := tag, bd_residue := 0, bd_sense := False, bd_phase := TakeData (Some (a * bs)) (n * bs)\<rparr>"
    have "bot_command bs stalls (tag, word_of_nat (data_len (CmdOut data)), data_flags (CmdOut data), c) d = Some (?d tag)" for tag
      unfolding bot_command_def using c op len range idle by simp
    from command [OF this] obtain ms1 tag
      where 1: "scsi_command (mass_storage_transport H) c (CmdOut data) ms = ms_finish H (CmdOut data) ms1"
        "attached P V ms1 (?d tag)" "unat (ms_tag ms1) + 2 * k < 2 ^ 32" by blast
    from finish_out [OF C 1(2), of "Some (a * bs)" data] idle data length_written [OF range data] 1 m show ?thesis
      by (fastforce simp: disk_holds_def disk_idle_def)
  qed
  assume range: "\<not> in_range bs a n m"
  show "\<exists>ms' buf'. scsi_command (mass_storage_transport H) c (CmdOut data) ms = Ret (ms', Err CommandFailed, buf') \<and>
      disk_refused bs P V k ms' m" if "\<not> stalls"
  proof -
    let ?d = "\<lambda>tag. d\<lparr>bd_tag := tag, bd_residue := word_of_nat (length data), bd_sense := True, bd_phase := TakeData None (n * bs)\<rparr>"
    have "bot_command bs stalls (tag, word_of_nat (data_len (CmdOut data)), data_flags (CmdOut data), c) d = Some (?d tag)" for tag
      unfolding bot_command_def using c op len range idle that by simp
    from command [OF this] obtain ms1 tag
      where 1: "scsi_command (mass_storage_transport H) c (CmdOut data) ms = ms_finish H (CmdOut data) ms1"
        "attached P V ms1 (?d tag)" "unat (ms_tag ms1) + 2 * k < 2 ^ 32" by blast
    from finish_out [OF C 1(2), of None data] idle data 1 m show ?thesis
      by (fastforce simp: disk_refused_def disk_idle_def)
  qed
  show "\<exists>ms' d'. scsi_command (mass_storage_transport H) c (CmdOut data) ms = Ret (ms', Err CommandFailed, []) \<and>
      attached P V ms' d' \<and> bd_out_halted d' \<and> bd_medium d' = m \<and> unat (ms_tag ms') + 2 * k < 2 ^ 32" if stalls
  proof -
    let ?d = "\<lambda>tag. d\<lparr>bd_tag := tag, bd_residue := word_of_nat (length data), bd_sense := True, bd_out_halted := True, bd_phase := SendStatus 1\<rparr>"
    have "bot_command bs stalls (tag, word_of_nat (data_len (CmdOut data)), data_flags (CmdOut data), c) d = Some (?d tag)" for tag
      unfolding bot_command_def using c op len range idle that by simp
    from command [OF this] obtain ms1 tag
      where 1: "scsi_command (mass_storage_transport H) c (CmdOut data) ms = ms_finish H (CmdOut data) ms1"
        "attached P V ms1 (?d tag)" "unat (ms_tag ms1) + 2 * k < 2 ^ 32" by blast
    from finish_out_halted [OF C 1(2), of data] idle 1 show ?thesis by fastforce
  qed
qed

lemma disk_reply:
  assumes C: "conforming_disk H bs stalls P V" and "attached P V ms d" and "disk_idle d m"
    and tag: "unat (ms_tag ms) + 2 * Suc k < 2 ^ 32" and m: "length m < 2 ^ 64 * bs"
    and cmd: "bot_reply bs cmd d = Some bytes" "cdb_target cmd = None" "cmd \<noteq> TestUnitReady" "1 \<le> length cmd \<and> length cmd \<le> 16"
    and buf: "length buf = length bytes" "length bytes < 2 ^ 32"
  shows "\<exists>ms'. scsi_command (mass_storage_transport H) cmd (CmdIn buf) ms = Ret (ms', Ok (length bytes), bytes) \<and> disk_holds bs P V k ms' m"
proof -
  let ?d = "\<lambda>tag. d\<lparr>bd_tag := tag, bd_residue := 0, bd_sense := False, bd_phase := SendData bytes\<rparr>"
  have "unat (word_of_nat (data_len (CmdIn buf)) :: u32) = length bytes" using unat_data_len [of buf] buf by simp
  then have "bot_command bs stalls (tag, word_of_nat (data_len (CmdIn buf)), data_flags (CmdIn buf), cmd) d = Some (?d tag)" for tag
    unfolding bot_command_def using cmd by simp
  from disk_command [OF C assms(2,3) tag cmd(4) this] obtain ms1 tag
    where 1: "scsi_command (mass_storage_transport H) cmd (CmdIn buf) ms = ms_finish H (CmdIn buf) ms1"
      "attached P V ms1 (?d tag)" "unat (ms_tag ms1) + 2 * k < 2 ^ 32" by blast
  with finish_in [OF C 1(2), of bytes buf] assms(3) buf m show ?thesis
    by (fastforce simp: disk_holds_def disk_idle_def)
qed

lemma length_sense_bytes [simp]: "length (sense_bytes b) = 18"
  by (simp add: sense_bytes_def)

lemma reply_commands [simp]:
  "cdb_target RequestSense = None" "cdb_target (Inquiry None 36) = None" "cdb_target ReadCapacity10 = None"
  "cdb_target ReadCapacity16 = None" "cdb_target TestUnitReady = None"
  "RequestSense \<noteq> TestUnitReady" "Inquiry None 36 \<noteq> TestUnitReady" "ReadCapacity10 \<noteq> TestUnitReady" "ReadCapacity16 \<noteq> TestUnitReady"
  "ReadCapacity10 \<noteq> RequestSense" "ReadCapacity16 \<noteq> RequestSense" "Inquiry None 36 \<noteq> RequestSense"
  "ReadCapacity10 \<noteq> Inquiry None 36" "ReadCapacity16 \<noteq> Inquiry None 36" "ReadCapacity16 \<noteq> ReadCapacity10"
  by (simp_all add: cdb_target_def cdb_defs)

lemma disk_sense:
  assumes C: "conforming_disk H bs stalls P V" and "disk_refused bs P V (Suc k) ms m"
  shows "\<exists>ms' b. scsi_command (mass_storage_transport H) RequestSense (CmdIn (replicate 18 0)) ms = Ret (ms', Ok 18, b) \<and>
    length b = 18 \<and> b ! 2 = 5 \<and> b ! 12 = 0x21 \<and> b ! 13 = 0 \<and> disk_holds bs P V k ms' m"
proof -
  obtain d where d: "attached P V ms d" "disk_idle d m" "bd_sense d" and tag: "unat (ms_tag ms) + 2 * Suc k < 2 ^ 32"
    and m: "length m < 2 ^ 64 * bs" using assms(2) unfolding disk_refused_def by blast
  have "bot_reply bs RequestSense d = Some (sense_bytes True)" using d(3) by (simp add: bot_reply_def)
  moreover have "sense_bytes True ! 2 = 5" "sense_bytes True ! 12 = 0x21" "sense_bytes True ! 13 = 0" by (simp_all add: sense_bytes_def)
  ultimately show ?thesis using disk_reply [OF C d(1,2) tag m, of RequestSense "sense_bytes True" "replicate 18 0"] by auto
qed

lemma disk_replies:
  assumes C: "conforming_disk H bs stalls P V" and "disk_holds bs P V (Suc k) ms m"
  shows "\<exists>ms'. scsi_command (mass_storage_transport H) ReadCapacity10 (CmdIn (replicate 8 0)) ms =
      Ret (ms', Ok 8, capacity10_bytes bs m) \<and> disk_holds bs P V k ms' m"
    and "\<exists>ms'. scsi_command (mass_storage_transport H) ReadCapacity16 (CmdIn (replicate 32 0)) ms =
      Ret (ms', Ok 32, capacity16_bytes bs m) \<and> disk_holds bs P V k ms' m"
    and "\<exists>ms' b. scsi_command (mass_storage_transport H) (Inquiry None 36) (CmdIn (replicate 36 0)) ms =
      Ret (ms', Ok 36, b) \<and> is_disk_inquiry b \<and> disk_holds bs P V k ms' m"
proof -
  obtain d where d: "attached P V ms d" "disk_idle d m" and tag: "unat (ms_tag ms) + 2 * Suc k < 2 ^ 32"
    and m: "length m < 2 ^ 64 * bs" using assms(2) unfolding disk_holds_def by blast
  have idle: "bd_medium d = m" "is_disk_inquiry (bd_inquiry d)" "length (bd_inquiry d) = 36"
    using d(2) by (simp_all add: disk_idle_def is_disk_inquiry_def)
  note reply = disk_reply [OF C d tag m]
  show "\<exists>ms'. scsi_command (mass_storage_transport H) ReadCapacity10 (CmdIn (replicate 8 0)) ms =
      Ret (ms', Ok 8, capacity10_bytes bs m) \<and> disk_holds bs P V k ms' m"
    using reply [of ReadCapacity10 "capacity10_bytes bs m" "replicate 8 0"] idle by (simp add: bot_reply_def)
  show "\<exists>ms'. scsi_command (mass_storage_transport H) ReadCapacity16 (CmdIn (replicate 32 0)) ms =
      Ret (ms', Ok 32, capacity16_bytes bs m) \<and> disk_holds bs P V k ms' m"
    using reply [of ReadCapacity16 "capacity16_bytes bs m" "replicate 32 0"] idle by (simp add: bot_reply_def)
  show "\<exists>ms' b. scsi_command (mass_storage_transport H) (Inquiry None 36) (CmdIn (replicate 36 0)) ms =
      Ret (ms', Ok 36, b) \<and> is_disk_inquiry b \<and> disk_holds bs P V k ms' m"
    using reply [of "Inquiry None 36" "bd_inquiry d" "replicate 36 0"] idle by (auto simp: bot_reply_def)
qed

lemma disk_test_unit_ready:
  assumes C: "conforming_disk H bs stalls P V" and "disk_holds bs P V (Suc k) ms m"
  shows "\<exists>ms'. scsi_command (mass_storage_transport H) TestUnitReady CmdNone ms = Ret (ms', Ok 0, []) \<and> disk_holds bs P V k ms' m"
proof -
  obtain d where d: "attached P V ms d" "disk_idle d m" and tag: "unat (ms_tag ms) + 2 * Suc k < 2 ^ 32"
    and m: "length m < 2 ^ 64 * bs" using assms(2) unfolding disk_holds_def by blast
  let ?d = "\<lambda>tag. d\<lparr>bd_tag := tag, bd_residue := 0, bd_sense := False, bd_phase := SendStatus 0\<rparr>"
  have "bot_command bs stalls (tag, word_of_nat (data_len CmdNone), data_flags CmdNone, TestUnitReady) d = Some (?d tag)" for tag
    unfolding bot_command_def by simp
  moreover have "1 \<le> length TestUnitReady \<and> length TestUnitReady \<le> 16" by simp
  ultimately obtain ms1 tag where 1: "scsi_command (mass_storage_transport H) TestUnitReady CmdNone ms = ms_finish H CmdNone ms1"
      "attached P V ms1 (?d tag)" "unat (ms_tag ms1) + 2 * k < 2 ^ 32"
    using disk_command [OF C d tag, of TestUnitReady CmdNone ?d] by blast
  from ms_status_step [OF C 1(2), of 0 0 "[]"] d(2) 1 m show ?thesis
    by (fastforce simp: ms_finish_def disk_holds_def disk_idle_def)
qed

lemma mass_storage_disk:
  assumes "conforming_disk H bs stalls P V"
  shows "scsi_disk (mass_storage_transport H) bs (disk_holds bs P V) (disk_refused bs P V)"
proof (unfold_locales, goal_cases)
  case (3 k t m c a n buf)
  then show ?case using disk_reads(1) [OF assms] by blast
next
  case (4 k t m c a n data)
  then show ?case using disk_writes(1) [OF assms] by blast
next
  case (5 k t m c a n buf)
  then show ?case using disk_reads(2) [OF assms] by blast
next
  case (6 k t m)
  then show ?case using disk_sense [OF assms] by blast
next
  case (7 k t m)
  then show ?case using disk_replies(3) [OF assms] by blast
next
  case (8 k t m)
  then show ?case using disk_test_unit_ready [OF assms] by blast
next
  case (9 k t m)
  then show ?case using disk_replies(1) [OF assms] by blast
next
  case (10 k t m)
  then show ?case using disk_replies(2) [OF assms] by blast
qed (auto simp: disk_holds_def)

lemma mass_storage_disk_accepting:
  assumes "conforming_disk H bs False P V"
  shows "scsi_disk_accepting (mass_storage_transport H) bs (disk_holds bs P V) (disk_refused bs P V)"
  using mass_storage_disk [OF assms] disk_writes(2) [OF assms]
  unfolding scsi_disk_accepting_def scsi_disk_accepting_axioms_def by blast

section \<open>A halted outgoing endpoint\<close>

text \<open>While the outgoing endpoint is halted, no command reaches the disk.\<close>

definition disk_wedged :: "DiskPort \<Rightarrow> 'hc DiskView \<Rightarrow> nat \<Rightarrow> 'hc MassStorage \<Rightarrow> u8 list \<Rightarrow> bool" where
  "disk_wedged P V k ms m \<longleftrightarrow> (\<exists>d. attached P V ms d \<and> bd_out_halted d \<and> bd_medium d = m) \<and> unat (ms_tag ms) + 2 * k < 2 ^ 32"

lemma wedged_command:
  assumes C: "conforming_disk H bs stalls P V" and "disk_wedged P V (Suc k) ms m" and "length cmd \<le> 16"
  shows "\<exists>ms'. scsi_command (mass_storage_transport H) cmd dp ms = Ret (ms', Err (Transport Stall), data_buffer dp) \<and>
    disk_wedged P V k ms' m"
proof -
  obtain d where d: "attached P V ms d" "bd_out_halted d" "bd_medium d = m" and tag: "unat (ms_tag ms) + 2 * Suc k < 2 ^ 32"
    using assms(2) unfolding disk_wedged_def by blast
  obtain cbw where cbw: "command_block_wrapper_new (ms_tag ms + 2) (word_of_nat (data_len dp)) (data_flags dp) cmd = Ret cbw"
    using assms(3) by (simp add: command_block_wrapper_new_def)
  have packet: "slice (cbw_bytes cbw) 0 31 = Ret (take 31 (cbw_bytes cbw))" using cbw_bytes_length [OF cbw] by simp
  have "bot_out bs stalls (take 31 (cbw_bytes cbw)) d = Some (d, Err Stall)" using d(2) by (simp add: bot_out_def)
  from ms_out_step [OF C _ this, of "ms\<lparr>ms_tag := ms_tag ms + 2\<rparr>"] d(1) obtain ms2
    where ms2: "ms_out H (take 31 (cbw_bytes cbw)) (ms\<lparr>ms_tag := ms_tag ms + 2\<rparr>) = Ret (ms2, Err Stall)" "attached P V ms2 d"
      "ms_tag ms2 = ms_tag ms + 2" by auto
  have "scsi_command (mass_storage_transport H) cmd dp ms = Ret (ms2, Err (Transport Stall), data_buffer dp)"
    using ms2(1) tag cbw packet by (simp add: mass_storage_transport_def ms_command_def Let_def)
  moreover have "disk_wedged P V k ms2 m" using ms2 d tag_advance [OF tag] by (auto simp: disk_wedged_def)
  ultimately show ?thesis by blast
qed

lemma wedged_upgrading:
  assumes "conforming_disk H bs stalls P V" and "disk_wedged P V (Suc k) ms m" and "length cmd \<le> 16"
  shows "\<exists>ms'. upgrading tfb (mass_storage_transport H) (run_command (mass_storage_transport H) cmd dp) ms =
    Ret (ms', Err (Transport Stall)) \<and> disk_wedged P V k ms' m"
  using wedged_command [OF assms, of dp] by (auto simp: upgrading_def run_command_def try_upgrade_error_def)

lemma wedged_request:
  assumes C: "conforming_disk H bs stalls P V" and w: "disk_wedged P V (Suc k) ms m" and "request_first q + request_count q < 2 ^ 64"
  shows "\<exists>ms'. block_request tfb (mass_storage_transport H) q ms = Ret (ms', Err (Transport Stall)) \<and> disk_wedged P V k ms' m"
proof (cases q)
  case (ReadBlocks a n buf)
  with assms(3) obtain c where c: "cdb_target c = Some (unat a, unat n)" and run: "read_blocks tfb (mass_storage_transport H) a n buf =
      bindR (upgrading tfb (mass_storage_transport H) (run_command (mass_storage_transport H) c (CmdIn buf)))
        (\<lambda>(sz, buf'). if sz < length buf then throwR Error.ProtocolError else returnR buf')"
    using block_command [of a n tfb "mass_storage_transport H" buf] by auto
  then show ?thesis using ReadBlocks wedged_upgrading [OF C w, of c tfb "CmdIn buf"] cdb_target_length [OF c] by (auto simp: bindR_eqs(2))
next
  case (WriteBlocks a n data)
  with assms(3) obtain c where c: "cdb_target c = Some (unat a, unat n)" and run: "write_blocks tfb (mass_storage_transport H) a n data =
      bindR (bindR (upgrading tfb (mass_storage_transport H) (run_command (mass_storage_transport H) c (CmdOut data)))
        (\<lambda>(n, _). returnR n)) (\<lambda>_. returnR ())"
    using block_command [of a n tfb "mass_storage_transport H" data] by auto
  then show ?thesis using WriteBlocks wedged_upgrading [OF C w, of c tfb "CmdOut data"] cdb_target_length [OF c]
    by (auto simp: bindR_def)
qed

lemma wedged_requests:
  assumes C: "conforming_disk H bs stalls P V" and "disk_wedged P V (length qs) ms m"
    and "\<forall>q \<in> set qs. request_first q + request_count q < 2 ^ 64"
  shows "\<exists>ms'. block_requests tfb (mass_storage_transport H) qs ms = Ret (ms', replicate (length qs) (Err (Transport Stall))) \<and>
    disk_wedged P V 0 ms' m"
  using assms(2,3)
proof (induction qs arbitrary: ms)
  case (Cons q qs)
  then obtain ms1 where ms1: "block_request tfb (mass_storage_transport H) q ms = Ret (ms1, Err (Transport Stall))"
    "disk_wedged P V (length qs) ms1 m" using wedged_request [OF C, of "length qs" ms m q tfb] by auto
  then show ?case using Cons by fastforce
qed simp

lemma wedging_write:
  assumes C: "conforming_disk H bs True P V" and "disk_holds bs P V (Suc (Suc k)) ms m" and ok: "request_ok bs (WriteBlocks a n data)"
    and fits: "unat a + unat n < 2 ^ 64" and "\<not> in_range bs (unat a) (unat n) m"
  shows "\<exists>ms'. write_blocks tfb (mass_storage_transport H) a n data ms = Ret (ms', Err CommandFailed) \<and> disk_wedged P V k ms' m"
proof -
  let ?T = "mass_storage_transport H"
  obtain c where c: "cdb_target c = Some (unat a, unat n)" "c ! 0 \<in> {0x2A, 0x8A}" and run: "write_blocks tfb ?T a n data =
      bindR (bindR (upgrading tfb ?T (run_command ?T c (CmdOut data))) (\<lambda>(n, _). returnR n)) (\<lambda>_. returnR ())"
    using block_command [OF fits, of tfb ?T data] by blast
  obtain ms1 where 1: "scsi_command ?T c (CmdOut data) ms = Ret (ms1, Err CommandFailed, [])" "disk_wedged P V (Suc k) ms1 m"
    using disk_writes(3) [OF C assms(2) c, of data] ok assms(5) unfolding request_ok_def disk_wedged_def by auto
  obtain ms2 where 2: "scsi_command ?T RequestSense (CmdIn (replicate 18 0)) ms1 = Ret (ms2, Err (Transport Stall), replicate 18 0)"
    "disk_wedged P V k ms2 m" using wedged_command [OF C 1(2), of RequestSense "CmdIn (replicate 18 0)"] by auto
  then have "request_sense tfb ?T ms1 = Ret (ms2, Err (Transport Stall))"
    by (simp add: request_sense_def run_command_def bindR_def)
  then have "upgrading tfb ?T (run_command ?T c (CmdOut data)) ms = Ret (ms2, Err CommandFailed)"
    using 1(1) by (simp add: upgrading_def run_command_def try_upgrade_error_def)
  then show ?thesis using 2(2) unfolding run by (simp add: bindR_def)
qed

section \<open>A host controller with a disk\<close>

text \<open>A host controller with nothing but such a disk: its state is the disk with the toggles of the endpoints.\<close>

definition packets_odd :: "nat \<Rightarrow> bool" where
  "packets_odd n = odd ((n + 63) div 64)"

definition disk_host :: "nat \<Rightarrow> bool \<Rightarrow> DiskPort \<Rightarrow> (BotDisk \<times> bool \<times> bool, unit) HostController" where
  "disk_host bs stalls P = \<lparr>
     hc_reset_root_port = (\<lambda>_ s. s),
     hc_control_transfer = (\<lambda>_ _ pkt dp (d, i, j).
       if pkt = clear_in_halt P then Ret ((d\<lparr>bd_in_halted := False\<rparr>, False, j), Ok 0, dp) else Ret ((d, i, j), Err Stall, dp)),
     hc_bulk_in_transfer = (\<lambda>_ _ _ buf _ tog (d, i, j).
       case bot_in (length buf) d of
         None \<Rightarrow> Ret ((d, i, j), Err Timeout, buf, i)
       | Some (d', Inl e) \<Rightarrow> Ret ((d', i, j), Err e, buf, i)
       | Some (d', Inr bytes) \<Rightarrow>
           Ret ((d', i \<noteq> packets_odd (length bytes), j), Ok (length bytes), bytes, i \<noteq> packets_odd (length bytes))),
     hc_bulk_out_transfer = (\<lambda>_ _ _ data _ tog (d, i, j).
       case bot_out bs stalls data d of
         None \<Rightarrow> Ret ((d, i, j), Err Timeout, j)
       | Some (d', Inl e) \<Rightarrow> Ret ((d', i, j), Err e, j)
       | Some (d', Inr n) \<Rightarrow> Ret ((d', i, j \<noteq> packets_odd n), Ok n, j \<noteq> packets_odd n)),
     hc_alloc_interrupt_pipe = (\<lambda>_ _ _ _ s. Ret (s, None)),
     hc_try_alloc_interrupt_pipe = (\<lambda>_ _ _ _ s. Ret (s, Err AllPipesInUse)),
     hc_poll_pipe = (\<lambda>p s. Ret (s, p, None))\<rparr>"

definition disk_view :: "(BotDisk \<times> bool \<times> bool) DiskView" where
  "disk_view = \<lparr>dv_disk = fst, dv_in_toggle = (\<lambda>s. fst (snd s)), dv_out_toggle = (\<lambda>s. snd (snd s))\<rparr>"

lemma disk_host_conforming: "conforming_disk (disk_host bs stalls P) bs stalls P disk_view"
  unfolding conforming_disk_def
proof (intro conjI allI impI, goal_cases)
  case (1 hc data d r)
  then show ?case by (cases r) (auto simp: disk_host_def disk_view_def split: prod.splits)
next
  case (2 hc buf d r)
  then show ?case by (cases r) (auto simp: disk_host_def disk_view_def split: prod.splits)
next
  case (3 hc)
  then show ?case by (auto simp: disk_host_def disk_view_def split: prod.splits)
qed

definition disk_port :: DiskPort where
  "disk_port = \<lparr>dp_address = 1, dp_in = 1, dp_out = 2\<rparr>"

definition new_disk :: "u8 list \<Rightarrow> BotDisk" where
  "new_disk m = \<lparr>bd_medium = m, bd_inquiry = replicate 36 0, bd_phase = AwaitCommand, bd_tag = 0, bd_residue = 0, bd_sense = False,
     bd_in_halted = False, bd_out_halted = False\<rparr>"

definition new_disk_storage :: "u8 list \<Rightarrow> (BotDisk \<times> bool \<times> bool) MassStorage" where
  "new_disk_storage m =
     \<lparr>ms_hc = (new_disk m, False, False),
      ms_bulk_in = \<lparr>bi_usb_address = 1, bi_usb_speed = Full12, bi_endpoint = 1, bi_data_toggle = False\<rparr>,
      ms_bulk_out = \<lparr>bo_usb_address = 1, bo_usb_speed = Full12, bo_endpoint = 2, bo_data_toggle = False\<rparr>, ms_tag = 1\<rparr>"

lemma new_disk_holds:
  "length m < 2 ^ 64 * bs \<Longrightarrow> k < 2147483647 \<Longrightarrow> disk_holds bs disk_port disk_view k (new_disk_storage m) m"
  by (simp add: disk_holds_def attached_def disk_idle_def is_disk_inquiry_def new_disk_storage_def new_disk_def disk_port_def disk_view_def)

interpretation usb_disk: scsi_disk_accepting "mass_storage_transport (disk_host 512 False disk_port)" 512
    "disk_holds 512 disk_port disk_view" "disk_refused 512 disk_port disk_view"
  by (rule mass_storage_disk_accepting [OF disk_host_conforming])

section \<open>Properties\<close>



text \<open>C6: what is written to a USB disk is read back: a write of blocks that exist succeeds, and a later
read of the same blocks returns the data written, while every other range reads as before.\<close>

theorem written_blocks_read_back:
  assumes "conforming_disk H bs stalls P V" and "casts_by_size tfb" and "disk_holds bs P V 4 ms m"
    and "request_ok bs (WriteBlocks a n data)" and "in_range bs (unat a) (unat n) m"
  shows "\<exists>ms1. write_blocks tfb (mass_storage_transport H) a n data ms = Ret (ms1, Ok ()) \<and>
    (\<forall>buf. length buf = length data \<longrightarrow> (\<exists>ms2. read_blocks tfb (mass_storage_transport H) a n buf ms1 = Ret (ms2, Ok data))) \<and>
    (\<forall>a' n' buf. request_ok bs (ReadBlocks a' n' buf) \<longrightarrow> in_range bs (unat a') (unat n') m \<longrightarrow>
       unat a' + unat n' \<le> unat a \<or> unat a + unat n \<le> unat a' \<longrightarrow>
       (\<exists>ms2. read_blocks tfb (mass_storage_transport H) a' n' buf ms1 = Ret (ms2, Ok (blocks_at bs (unat a') (unat n') m))))"
proof -
  let ?T = "mass_storage_transport H" and ?m = "overwrite m (unat a * bs) data"
  note disk = mass_storage_disk [OF assms(1)]
  have "disk_holds bs P V (Suc (Suc 2)) ms m" using assms(3) by (simp add: numeral_eq_Suc)
  from scsi_disk.write_request_in_range [OF disk this assms(4,5), of tfb] obtain ms1
    where "block_request tfb ?T (WriteBlocks a n data) ms = Ret (ms1, Ok [])" and h: "disk_holds bs P V 2 ms1 ?m" by blast
  then have w: "write_blocks tfb ?T a n data ms = Ret (ms1, Ok ())" by (simp add: bindR_cases(3))
  have len: "length data = unat n * bs" using assms(4) by (simp add: request_ok_def)
  have h: "disk_holds bs P V (Suc (Suc 0)) ms1 ?m" using h by (simp add: numeral_eq_Suc)
  have range: "in_range bs a' n' ?m = in_range bs a' n' m" for a' n'
    using length_written [OF assms(5) len] by (simp add: in_range_def)
  have read: "\<exists>ms2. read_blocks tfb ?T a' n' buf ms1 = Ret (ms2, Ok (blocks_at bs (unat a') (unat n') ?m))"
    if "request_ok bs (ReadBlocks a' n' buf)" "in_range bs (unat a') (unat n') m" for a' n' buf
    using scsi_disk.read_request [OF disk assms(2) h that(1)] that(2) range by auto
  show ?thesis
  proof (rule exI [of _ ms1], intro conjI allI impI w)
    fix buf :: "u8 list" assume "length buf = length data"
    then show "\<exists>ms2. read_blocks tfb ?T a n buf ms1 = Ret (ms2, Ok data)"
      using read [of a n buf] assms(4,5) blocks_at_written [OF assms(5) len] by (simp add: request_ok_def)
  next
    fix a' n' buf assume "request_ok bs (ReadBlocks a' n' buf)" "in_range bs (unat a') (unat n') m"
      "unat a' + unat n' \<le> unat a \<or> unat a + unat n \<le> unat a'"
    then show "\<exists>ms2. read_blocks tfb ?T a' n' buf ms1 = Ret (ms2, Ok (blocks_at bs (unat a') (unat n') m))"
      using read [of a' n' buf] blocks_at_elsewhere [OF assms(5) len] by simp
  qed
qed

theorem written_blocks_read_back_witness:
  "\<exists>ms1. write_blocks (\<lambda>n b. length b = n) (mass_storage_transport (disk_host 2 True disk_port)) 1 1 [7, 8]
      (new_disk_storage [1, 2, 3, 4, 5, 6]) = Ret (ms1, Ok ()) \<and>
     (\<exists>ms2. read_blocks (\<lambda>n b. length b = n) (mass_storage_transport (disk_host 2 True disk_port)) 1 1 [0, 0] ms1 = Ret (ms2, Ok [7, 8]))"
proof -
  have "disk_holds 2 disk_port disk_view 4 (new_disk_storage [1, 2, 3, 4, 5, 6]) [1, 2, 3, 4, 5, 6]"
    by (rule new_disk_holds) simp_all
  moreover have "casts_by_size (\<lambda>n b. length b = n)" by (simp add: casts_by_size_def)
  moreover have "request_ok 2 (WriteBlocks 1 1 [7, 8])" "in_range 2 (unat (1 :: u64)) (unat (1 :: u32)) [1, 2, 3, 4, 5, 6]"
    by (simp_all add: request_ok_def in_range_def)
  ultimately show ?thesis
    using written_blocks_read_back [OF disk_host_conforming, of "\<lambda>n b. length b = n" 2 disk_port _ _ 1 1 "[7, 8]" True]
    by (metis length_Cons)
qed

text \<open>C22: a disk that refuses the data of a write by halting its outgoing endpoint is lost. The transport clears
the halt of the incoming endpoint instead, so the write fails without its cause, and from then on
every request fails with a stall, whatever it asks for.\<close>

theorem stalled_write_wedges:
  assumes "conforming_disk H bs True P V" and "disk_holds bs P V (2 + length qs) ms m"
    and "request_ok bs (WriteBlocks a n data)" and "unat a + unat n < 2 ^ 64" and "\<not> in_range bs (unat a) (unat n) m"
    and "\<forall>q \<in> set qs. request_first q + request_count q < 2 ^ 64"
  shows "\<exists>ms1 ms2. write_blocks tfb (mass_storage_transport H) a n data ms = Ret (ms1, Err CommandFailed) \<and>
    block_requests tfb (mass_storage_transport H) qs ms1 = Ret (ms2, replicate (length qs) (Err (Transport Stall))) \<and>
    bd_medium (dv_disk V (ms_hc ms2)) = m"
proof -
  obtain ms1 where 1: "write_blocks tfb (mass_storage_transport H) a n data ms = Ret (ms1, Err CommandFailed)"
    "disk_wedged P V (length qs) ms1 m" using wedging_write [OF assms(1) _ assms(3-5), of "length qs"] assms(2) by auto
  from wedged_requests [OF assms(1) 1(2) assms(6), of tfb] obtain ms2
    where "block_requests tfb (mass_storage_transport H) qs ms1 = Ret (ms2, replicate (length qs) (Err (Transport Stall)))"
      "disk_wedged P V 0 ms2 m" by blast
  with 1(1) show ?thesis by (auto simp: disk_wedged_def attached_def)
qed

theorem stalled_write_wedges_witness:
  "\<exists>ms1 ms2. write_blocks (\<lambda>n b. length b = n) (mass_storage_transport (disk_host 2 True disk_port)) 3 1 [7, 8]
      (new_disk_storage [1, 2, 3, 4, 5, 6]) = Ret (ms1, Err CommandFailed) \<and>
     block_requests (\<lambda>n b. length b = n) (mass_storage_transport (disk_host 2 True disk_port)) [ReadBlocks 0 1 [0, 0]] ms1 =
       Ret (ms2, [Err (Transport Stall)])"
proof -
  have "disk_holds 2 disk_port disk_view (2 + length [ReadBlocks 0 1 [0, 0]]) (new_disk_storage [1, 2, 3, 4, 5, 6]) [1, 2, 3, 4, 5, 6]"
    by (rule new_disk_holds) simp_all
  from stalled_write_wedges [OF disk_host_conforming this, of 3 1 "[7, 8]" "\<lambda>n b. length b = n"] show ?thesis
    by (auto simp: request_ok_def in_range_def)
qed

end
