(* ===== verification/Usb_Programs.thy ===== *)
theory Usb_Programs
  imports Usb_Disk
begin

text \<open>
  The USB programs for devices under \<open>cross/rp2040-w5500-rtic2/src/bin\<close>: \<open>rp2040-usb-otge100.rs\<close>, which
  brings up a USB Ethernet adapter, and \<open>rp2040-usb-msc.rs\<close>, which writes and reads back a block of a USB
  disk. Each has a function for what it does with a device that is connected, and \<open>usb_task_event\<close> is
  the round of the loop around it. Output and delays are left out.
\<close>

section \<open>The loop\<close>

text \<open>What a program does with one event of the bus; only a connected device concerns it.\<close>

definition usb_task_event ::
    "(UnconfiguredDevice \<Rightarrow> DeviceInfo \<Rightarrow> 'hc \<Rightarrow> 'hc outcome) \<Rightarrow> DeviceEvent \<Rightarrow> ('hc, 'pipe) BusState \<Rightarrow>
       ('hc, 'pipe) BusState outcome" where
  "usb_task_event connected ev s =
     (case ev of
        Connect device info \<Rightarrow> obind (connected device info (driver s)) (\<lambda>hc. Ret (s\<lparr>driver := hc\<rparr>))
      | _ \<Rightarrow> Ret s)"

section \<open>The Ethernet adapter\<close>

definition MII_ADVERTISE :: u8 where "MII_ADVERTISE = 4"
definition MII_BMCR :: u8 where "MII_BMCR = 0"
definition ADVERTISE_ALL :: u16 where "ADVERTISE_ALL = 0x1E1"
definition BMCR_ANENABLE :: u16 where "BMCR_ANENABLE = 0x1000"
definition BMCR_ANRESTART :: u16 where "BMCR_ANRESTART = 0x200"

text \<open>The data phase that comes back is the one passed, with the buffer as left.\<close>

definition vendor_command ::
    "('hc, 'pipe) HostController \<Rightarrow> UsbDevice \<Rightarrow> u8 \<Rightarrow> u16 \<Rightarrow> u16 \<Rightarrow> DataPhase \<Rightarrow> ('hc, UsbError, DataPhase) prog" where
  "vendor_command H device request val idx data_phase = (\<lambda>hc.
     let (request_type, len) =
       (case data_phase of
          DataOut bytes \<Rightarrow> (HOST_TO_DEVICE OR VENDOR_REQUEST, word_of_nat (length bytes))
        | DataIn bytes \<Rightarrow> (DEVICE_TO_HOST OR VENDOR_REQUEST, word_of_nat (length bytes))
        | DataNone \<Rightarrow> (HOST_TO_DEVICE OR VENDOR_REQUEST, 0))
     in obind (bus_control_transfer H device
          \<lparr>bmRequestType = request_type, bRequest = request, wValue = val, wIndex = idx, wLength = len\<rparr>
          data_phase hc) (\<lambda>(hc', r, d).
        case r of Inl e \<Rightarrow> Ret (hc', Err e) | Inr _ \<Rightarrow> Ret (hc', Ok d)))"

definition write_phy ::
    "('hc, 'pipe) HostController \<Rightarrow> UsbDevice \<Rightarrow> u8 \<Rightarrow> u8 \<Rightarrow> u16 \<Rightarrow> ('hc, UsbError, unit) prog" where
  "write_phy H device phy_id reg val =
     bindR (vendor_command H device 0x8 (ucast phy_id) (ucast reg) (DataOut (u16_to_le_bytes val))) (\<lambda>_. returnR ())"

text \<open>\<open>AX88772::init\<close>; it returns the buffer whose contents it shows.\<close>

definition ax88772_init :: "('hc, 'pipe) HostController \<Rightarrow> UsbDevice \<Rightarrow> ('hc, UsbError, u8 list) prog" where
  "ax88772_init H device =
     bindR (vendor_command H device 0x13 0 0 (DataIn (replicate 6 0))) (\<lambda>d1.
     let data1 = in_buffer d1 in
     bindR (vendor_command H device 0x19 0 0 (DataIn (take 2 data1))) (\<lambda>d2.
     let data2 = overwrite data1 0 (in_buffer d2) in
     bindR (vendor_command H device 0x22 1 0 DataNone) (\<lambda>_.
     bindR (vendor_command H device 0x20 0x28 0 DataNone) (\<lambda>_.
     bindR (vendor_command H device 0x6 0 0 DataNone) (\<lambda>_.
     bindR (write_phy H device 0x10 MII_ADVERTISE ADVERTISE_ALL) (\<lambda>_.
     bindR (write_phy H device 0x10 MII_BMCR (BMCR_ANENABLE OR BMCR_ANRESTART)) (\<lambda>_.
     bindR (vendor_command H device 0xA 0 0 DataNone) (\<lambda>_.
     returnR data2))))))))"

definition identify_ax88772 :: "DeviceInfo \<Rightarrow> u8 option" where
  "identify_ax88772 info = (if vid info = 0x0B95 \<and> pid info = 0x7720 then Some 1 else None)"

definition otge_connected ::
    "try_from_bytes \<Rightarrow> ('hc, 'pipe) HostController \<Rightarrow> UnconfiguredDevice \<Rightarrow> DeviceInfo \<Rightarrow> 'hc \<Rightarrow> 'hc outcome" where
  "otge_connected tfb H device info hc =
     (case identify_ax88772 info of
        None \<Rightarrow> Ret hc
      | Some cfg \<Rightarrow>
          obind (configure tfb H device cfg hc) (\<lambda>(hc1, r).
          case r of
            Inl _ \<Rightarrow> Ret hc1
          | Inr dev \<Rightarrow> obind (ax88772_init H dev hc1) (\<lambda>(hc2, _). Ret hc2)))"

section \<open>The disk\<close>

text \<open>From the connected device to its transport; \<open>None\<close> where the program goes on to the next event.\<close>

definition msc_attach ::
    "try_from_bytes \<Rightarrow> ('hc, 'pipe) HostController \<Rightarrow> UnconfiguredDevice \<Rightarrow> 'hc \<Rightarrow> ('hc \<times> 'hc MassStorage option) outcome" where
  "msc_attach tfb H device hc =
     obind (get_configuration tfb H device IdentifyMassStorageVisitor identify_mass_storage_default hc) (\<lambda>(hc1, r).
     case r of
       Inl _ \<Rightarrow> Ret (hc1, None)
     | Inr ims \<Rightarrow>
         (case identify ims of
            None \<Rightarrow> obind (get_configuration tfb H device ShowDescriptors [] hc1) (\<lambda>(hc2, _). Ret (hc2, None))
          | Some cfg \<Rightarrow>
              obind (configure tfb H device cfg hc1) (\<lambda>(hc2, r).
              case r of
                Inl _ \<Rightarrow> Ret (hc2, None)
              | Inr dev \<Rightarrow>
                  obind (mass_storage_new dev hc2) (\<lambda>(hc3, r).
                  case r of Inl _ \<Rightarrow> Ret (hc3, None) | Inr ms \<Rightarrow> Ret (hc3, Some ms)))))"

text \<open>The questions to the disk, up to its size; \<open>None\<close> if it is no disk.\<close>

definition msc_ready :: "try_from_bytes \<Rightarrow> ('t, 'e) ScsiTransport \<Rightarrow> ('t, 'e Error, BlockDeviceInfo option) prog" where
  "msc_ready tfb T =
     bindR (inquiry tfb T) (\<lambda>info.
     if peripheral_type info \<noteq> Disk then returnR None
     else bindR (test_unit_ready tfb T) (\<lambda>_.
       bindR (device_info tfb T) (\<lambda>i. returnR (Some i))))"

text \<open>The capacity and its rounding to gibibytes, which panic when they overflow.\<close>

definition msc_capacity :: "BlockDeviceInfo \<Rightarrow> u64 outcome" where
  "msc_capacity info =
     (if unat (blocks info) * unat (block_size info) \<ge> 2 ^ 64 then Panic
      else let capacity = blocks info * ucast (block_size info) in
        if unat capacity + 2 ^ 29 \<ge> 2 ^ 64 then Panic else Ret capacity)"

text \<open>
  Block 2 is written and read back; the results of both are shown and otherwise ignored. \<open>left\<close> is what
  a read that fails leaves in the buffer.
\<close>

definition msc_selftest :: "try_from_bytes \<Rightarrow> ('t, 'e) ScsiTransport \<Rightarrow> u8 list \<Rightarrow> 't \<Rightarrow> 't outcome" where
  "msc_selftest tfb T left t =
     (let buf = (replicate 512 0)[42 := 43] in
      obind (write_blocks tfb T 2 1 buf t) (\<lambda>(t1, _).
      obind (read_blocks tfb T 2 1 (buf[42 := 0]) t1) (\<lambda>(t2, r).
      rust_assert ((case r of Inl _ \<Rightarrow> left | Inr b \<Rightarrow> b) ! 42 = 43) (Ret t2))))"

definition msc_connected ::
    "try_from_bytes \<Rightarrow> ('hc, 'pipe) HostController \<Rightarrow> u8 list \<Rightarrow> UnconfiguredDevice \<Rightarrow> DeviceInfo \<Rightarrow> 'hc \<Rightarrow> 'hc outcome" where
  "msc_connected tfb H left device info hc =
     obind (msc_attach tfb H device hc) (\<lambda>(hc1, m).
     case m of
       None \<Rightarrow> Ret hc1
     | Some ms \<Rightarrow>
         obind (msc_ready tfb (mass_storage_transport H) ms) (\<lambda>(ms1, r).
         case r of
           Inl _ \<Rightarrow> Ret (ms_hc ms1)
         | Inr None \<Rightarrow> Ret (ms_hc ms1)
         | Inr (Some i) \<Rightarrow>
             obind (msc_capacity i) (\<lambda>_.
             obind (msc_selftest tfb (mass_storage_transport H) left ms1) (\<lambda>ms2.
             Ret (ms_hc ms2)))))"

section \<open>The requests to the adapter\<close>

text \<open>A list of control requests, run in order until one fails; reads go into the front of a buffer.\<close>

datatype Phase = ReadBytes nat | WriteBytes "u8 list" | NoData

fun run_requests ::
    "('hc, 'pipe) HostController \<Rightarrow> UsbDevice \<Rightarrow> (u8 \<times> u8 \<times> u16 \<times> u16 \<times> Phase) list \<Rightarrow> u8 list \<Rightarrow>
       ('hc, UsbError, u8 list) prog" where
  "run_requests H device [] buf = returnR buf"
| "run_requests H device ((ty, req, val, idx, ph) # reqs) buf = (\<lambda>hc.
     obind (hc_control_transfer H (ud_usb_address device) (ud_packet_size_ep0 device)
         \<lparr>bmRequestType = ty, bRequest = req, wValue = val, wIndex = idx,
          wLength = (case ph of ReadBytes n \<Rightarrow> word_of_nat n | WriteBytes bs \<Rightarrow> word_of_nat (length bs) | NoData \<Rightarrow> 0)\<rparr>
         (case ph of ReadBytes n \<Rightarrow> DataIn (take n buf) | WriteBytes bs \<Rightarrow> DataOut bs | NoData \<Rightarrow> DataNone) hc) (\<lambda>(hc', r, d).
     case r of
       Inl e \<Rightarrow> Ret (hc', Err e)
     | Inr _ \<Rightarrow> run_requests H device reqs (case ph of ReadBytes n \<Rightarrow> overwrite buf 0 (in_buffer d) | _ \<Rightarrow> buf) hc'))"

text \<open>
  The adapter's own protocol: read its address and the number of its PHY, select and enable the PHY, take
  control of it, have it advertise all modes, restart the negotiation, and hand control back.
\<close>

definition ax88772_requests :: "(u8 \<times> u8 \<times> u16 \<times> u16 \<times> Phase) list" where
  "ax88772_requests =
     [(0xC0, 0x13, 0, 0, ReadBytes 6), (0xC0, 0x19, 0, 0, ReadBytes 2), (0x40, 0x22, 1, 0, NoData),
      (0x40, 0x20, 0x28, 0, NoData), (0x40, 0x06, 0, 0, NoData), (0x40, 0x08, 0x10, 4, WriteBytes [0xE1, 0x01]),
      (0x40, 0x08, 0x10, 0, WriteBytes [0x00, 0x12]), (0x40, 0x0A, 0, 0, NoData)]"

lemma vendor_types: "HOST_TO_DEVICE OR VENDOR_REQUEST = 0x40" "DEVICE_TO_HOST OR VENDOR_REQUEST = 0xC0"
  by (simp_all add: usb_consts)

lemma phy_bytes: "u16_to_le_bytes ADVERTISE_ALL = [0xE1, 0x01]" "u16_to_le_bytes (BMCR_ANENABLE OR BMCR_ANRESTART) = [0x00, 0x12]"
proof -
  have "(2 :: nat) = Suc (Suc 0)" by simp
  then have le: "u16_to_le_bytes x = le_bytes (Suc (Suc 0)) (unat x)" for x by (simp only: u16_to_le_bytes_def)
  show "u16_to_le_bytes ADVERTISE_ALL = [0xE1, 0x01]" "u16_to_le_bytes (BMCR_ANENABLE OR BMCR_ANRESTART) = [0x00, 0x12]"
    by (simp_all add: le ADVERTISE_ALL_def BMCR_ANENABLE_def BMCR_ANRESTART_def)
qed

lemma bindR_transfer:
  "bindR (\<lambda>hc. obind (m hc) (\<lambda>(hc', r, d). case r of Inl e \<Rightarrow> Ret (hc', Err e) | Inr _ \<Rightarrow> Ret (hc', Ok d))) f =
     (\<lambda>hc. obind (m hc) (\<lambda>(hc', r, d). case r of Inl e \<Rightarrow> Ret (hc', Err e) | Inr _ \<Rightarrow> f d hc'))"
proof
  show "bindR (\<lambda>hc. obind (m hc) (\<lambda>(hc', r, d). case r of Inl e \<Rightarrow> Ret (hc', Err e) | Inr _ \<Rightarrow> Ret (hc', Ok d))) f hc =
      obind (m hc) (\<lambda>(hc', r, d). case r of Inl e \<Rightarrow> Ret (hc', Err e) | Inr _ \<Rightarrow> f d hc')" for hc
    by (cases "m hc") (auto simp: bindR_def split: sum.splits)
qed

text \<open>A vendor command is a list of one request.\<close>

lemma vendor_command_requests:
  "bindR (vendor_command H device req val idx (DataIn (take n buf))) f =
     (\<lambda>hc. obind (hc_control_transfer H (ud_usb_address device) (ud_packet_size_ep0 device)
         \<lparr>bmRequestType = 0xC0, bRequest = req, wValue = val, wIndex = idx, wLength = word_of_nat (length (take n buf))\<rparr>
         (DataIn (take n buf)) hc) (\<lambda>(hc', r, d). case r of Inl e \<Rightarrow> Ret (hc', Err e) | Inr _ \<Rightarrow> f d hc'))"
  "bindR (vendor_command H device req val idx (DataOut bs)) f =
     (\<lambda>hc. obind (hc_control_transfer H (ud_usb_address device) (ud_packet_size_ep0 device)
         \<lparr>bmRequestType = 0x40, bRequest = req, wValue = val, wIndex = idx, wLength = word_of_nat (length bs)\<rparr>
         (DataOut bs) hc) (\<lambda>(hc', r, d). case r of Inl e \<Rightarrow> Ret (hc', Err e) | Inr _ \<Rightarrow> f d hc'))"
  "bindR (vendor_command H device req val idx DataNone) f =
     (\<lambda>hc. obind (hc_control_transfer H (ud_usb_address device) (ud_packet_size_ep0 device)
         \<lparr>bmRequestType = 0x40, bRequest = req, wValue = val, wIndex = idx, wLength = 0\<rparr>
         DataNone hc) (\<lambda>(hc', r, d). case r of Inl e \<Rightarrow> Ret (hc', Err e) | Inr _ \<Rightarrow> f d hc'))"
  by (simp_all add: vendor_command_def bus_control_transfer_def vendor_types bindR_transfer)

lemma write_phy_requests:
  "bindR (write_phy H device phy reg val) f =
     bindR (vendor_command H device 0x8 (ucast phy) (ucast reg) (DataOut (u16_to_le_bytes val))) (\<lambda>_. f ())"
  by (auto simp: fun_eq_iff write_phy_def bindR_def split: outcome.splits sum.splits)

lemma overwrite_all: "length ys = length xs \<Longrightarrow> overwrite xs 0 ys = ys"
  by (simp add: overwrite_def)

lemma run_requests_vendor:
  "run_requests H device ((0x40, req, val, idx, NoData) # reqs) buf =
     bindR (vendor_command H device req val idx DataNone) (\<lambda>_. run_requests H device reqs buf)"
  "run_requests H device ((0x40, req, val, idx, WriteBytes bs) # reqs) buf =
     bindR (vendor_command H device req val idx (DataOut bs)) (\<lambda>_. run_requests H device reqs buf)"
  "n \<le> length buf \<Longrightarrow> run_requests H device ((0xC0, req, val, idx, ReadBytes n) # reqs) buf =
     bindR (vendor_command H device req val idx (DataIn (take n buf))) (\<lambda>d. run_requests H device reqs (overwrite buf 0 (in_buffer d)))"
  by (simp_all add: vendor_command_requests min_absorb2 cong: sum.case_cong)

text \<open>After the first request nothing depends on the driver any more.\<close>

lemma ax88772_rest:
  assumes "length data1 = 6"
  shows "bindR (vendor_command H device 0x19 0 0 (DataIn (take 2 data1))) (\<lambda>d2.
     let data2 = overwrite data1 0 (in_buffer d2) in
     bindR (vendor_command H device 0x22 1 0 DataNone) (\<lambda>_.
     bindR (vendor_command H device 0x20 0x28 0 DataNone) (\<lambda>_.
     bindR (vendor_command H device 0x6 0 0 DataNone) (\<lambda>_.
     bindR (write_phy H device 0x10 MII_ADVERTISE ADVERTISE_ALL) (\<lambda>_.
     bindR (write_phy H device 0x10 MII_BMCR (BMCR_ANENABLE OR BMCR_ANRESTART)) (\<lambda>_.
     bindR (vendor_command H device 0xA 0 0 DataNone) (\<lambda>_.
     returnR data2))))))) = run_requests H device (tl ax88772_requests) data1"
  using assms
  by (simp add: Let_def ax88772_requests_def run_requests_vendor write_phy_requests phy_bytes MII_ADVERTISE_def MII_BMCR_def
      del: run_requests.simps(2))

context usb_driver
begin

lemma ax88772_init_run:
  assumes "hinv hc" and "ps_ok (ud_packet_size_ep0 device)"
  shows "ax88772_init H device hc = run_requests H device ax88772_requests (replicate 6 0) hc"
proof -
  let ?pkt = "\<lparr>bmRequestType = 0xC0, bRequest = 0x13, wValue = 0, wIndex = 0, wLength = 6\<rparr>"
  obtain hc' r d where t: "hc_control_transfer H (ud_usb_address device) (ud_packet_size_ep0 device) ?pkt (DataIn (replicate 6 0)) hc =
      Ret (hc', r, d)" "dataphase_fits (DataIn (replicate 6 0)) r d"
    using control_ok [OF assms] by blast
  then obtain data1 where d: "d = DataIn data1" "length data1 = 6" by (auto simp: dataphase_fits_In)
  have 6: "(DataIn (replicate 6 0)) = DataIn (take 6 (replicate 6 0))" by simp
  have requests: "ax88772_requests = (0xC0, 0x13, 0, 0, ReadBytes 6) # tl ax88772_requests" by (simp add: ax88772_requests_def)
  show ?thesis
    unfolding ax88772_init_def by (subst requests, subst 6, subst vendor_command_requests)
      (use t(1) d in \<open>simp add: Let_def overwrite_all ax88772_rest [unfolded Let_def] split: sum.splits\<close>)
qed

lemma run_requests_keeps:
  assumes "ps_ok (ud_packet_size_ep0 device)"
  shows "keepsR hinv (run_requests H device reqs buf) (\<lambda>_. True)"
proof (induction reqs arbitrary: buf)
  case (Cons q reqs)
  obtain ty req val idx ph where q: "q = (ty, req, val, idx, ph)" by (metis prod_cases5)
  show ?case unfolding keepsR_def safeR_def
  proof (intro allI impI)
    fix hc assume "hinv hc"
    let ?d = "case ph of ReadBytes n \<Rightarrow> DataIn (take n buf) | WriteBytes bs \<Rightarrow> DataOut bs | NoData \<Rightarrow> DataNone"
    obtain hc' r d where t: "hc_control_transfer H (ud_usb_address device) (ud_packet_size_ep0 device)
         \<lparr>bmRequestType = ty, bRequest = req, wValue = val, wIndex = idx,
          wLength = (case ph of ReadBytes n \<Rightarrow> word_of_nat n | WriteBytes bs \<Rightarrow> word_of_nat (length bs) | NoData \<Rightarrow> 0)\<rparr> ?d hc =
         Ret (hc', r, d)" "hinv hc'" using control_ok [OF \<open>hinv hc\<close> assms] by blast
    show "\<exists>t r. run_requests H device (q # reqs) buf hc = Ret (t, r) \<and> hinv t \<and> (\<forall>x. r = Ok x \<longrightarrow> True)"
      using t q Cons [of "case ph of ReadBytes n \<Rightarrow> overwrite buf 0 (in_buffer d) | _ \<Rightarrow> buf"]
      by (cases r) (auto simp: keepsR_def safeR_def)
  qed
qed (simp add: keepsR_return)

text \<open>Whatever the devices answer, the program for the adapter comes back to its loop.\<close>

lemma otge_connected_ok:
  assumes "hinv hc" and "ps_ok (unc_packet_size_ep0 device)"
  shows "\<exists>hc'. otge_connected tfb H device info hc = Ret hc' \<and> hinv hc'"
proof (cases "identify_ax88772 info")
  case (Some cfg)
  obtain hc1 r where c: "configure tfb H device cfg hc = Ret (hc1, r)" "hinv hc1" "\<forall>d. r = Ok d \<longrightarrow> ps_ok (ud_packet_size_ep0 d)"
    using configure_keeps [OF assms(2)] assms(1) unfolding keepsR_def safeR_def by blast
  show ?thesis
  proof (cases r)
    case (Inr dev)
    then have dev: "ps_ok (ud_packet_size_ep0 dev)" using c by simp
    then obtain hc2 q where "ax88772_init H dev hc1 = Ret (hc2, q)" "hinv hc2"
      using ax88772_init_run [OF c(2) dev] run_requests_keeps [OF dev] c(2) unfolding keepsR_def safeR_def by metis
    then show ?thesis using Some c Inr by (simp add: otge_connected_def)
  qed (use Some c in \<open>simp add: otge_connected_def\<close>)
qed (use assms in \<open>simp add: otge_connected_def\<close>)

end

section \<open>The disk program\<close>

context scsi_transport
begin

lemma msc_ready_safe:
  "safeR (tinv (Suc (Suc (Suc (Suc (Suc (Suc (Suc (Suc k))))))))) (msc_ready tfb T) (\<lambda>t r. tinv k t \<and> (\<forall>x. r = Ok x \<longrightarrow> True))"
  unfolding msc_ready_def
proof (rule safeR_budget_bind [OF inquiry_safe], rule safeR_if)
  show "safeR (tinv (Suc (Suc (Suc (Suc (Suc (Suc k))))))) (bindR (test_unit_ready tfb T) (\<lambda>_. bindR (device_info tfb T) (\<lambda>i. returnR (Some i))))
      (\<lambda>t r. tinv k t \<and> (\<forall>x. r = Ok x \<longrightarrow> True))"
    by (rule safeR_budget_bind [OF test_unit_ready_safe], rule safeR_budget_bind [OF device_info_safe])
      (use fewer in \<open>auto simp: safeR_def\<close>)
qed (use fewer in \<open>auto simp: safeR_def\<close>)

text \<open>The self-test panics if and only if byte 42 of what is read back is not 43.\<close>

lemma msc_selftest_cases:
  assumes "tinv (Suc (Suc (Suc (Suc k)))) t"
  shows "\<exists>t1 q t2 r. write_blocks tfb T 2 1 ((replicate 512 0)[42 := 43]) t = Ret (t1, q) \<and>
    read_blocks tfb T 2 1 (replicate 512 0) t1 = Ret (t2, r) \<and> tinv k t2 \<and>
    msc_selftest tfb T left t = (if (case r of Inl _ \<Rightarrow> left | Inr b \<Rightarrow> b) ! 42 = 43 then Ret t2 else Panic)"
proof -
  obtain t1 q where w: "write_blocks tfb T 2 1 ((replicate 512 0)[42 := 43]) t = Ret (t1, q)" "tinv (Suc (Suc k)) t1"
    using write_blocks_safe assms unfolding safeR_def by blast
  obtain t2 r where r: "read_blocks tfb T 2 1 (replicate 512 0) t1 = Ret (t2, r)" "tinv k t2"
    using read_blocks_safe w(2) unfolding safeR_def by blast
  have "((replicate 512 0)[42 := 43])[42 := 0] = (replicate 512 (0 :: u8))" by (simp add: list_update_same_conv)
  then show ?thesis using w r by (simp add: msc_selftest_def Let_def rust_assert_def)
qed

end

lemma msc_capacity_Panic:
  assumes "msc_capacity i = Panic"
  shows "2 ^ 64 \<le> unat (blocks i) * unat (block_size i) + 2 ^ 29"
proof (cases "2 ^ 64 \<le> unat (blocks i) * unat (block_size i)")
  case False
  have sz: "unat (ucast (block_size i) :: u64) = unat (block_size i)"
    using unat_u32_lt [of "block_size i"] by (simp add: unsigned_ucast_eq take_bit_nat_eq_self_iff)
  then have "unat (blocks i * ucast (block_size i)) = unat (blocks i) * unat (block_size i)"
    using False by (simp add: unat_word_ariths)
  then show ?thesis using assms False by (simp add: msc_capacity_def Let_def split: if_splits)
qed simp

context usb_bulk_driver
begin

lemma msc_attach_ok:
  assumes "hinv hc" and "ps_ok (unc_packet_size_ep0 device)"
  shows "\<exists>hc' m. msc_attach tfb H device hc = Ret (hc', m) \<and> hinv hc' \<and> (\<forall>ms. m = Some ms \<longrightarrow> ms_inv hinv 12 ms)"
proof -
  have idn: "keepsR hinv (get_configuration tfb H device IdentifyMassStorageVisitor identify_mass_storage_default) (\<lambda>_. True)"
    by (rule get_configuration_keeps [OF assms(2)])
      (use identify_visit_all [of tfb] in \<open>unfold parse_descriptors_split, blast\<close>)
  have shw: "keepsR hinv (get_configuration tfb H device ShowDescriptors []) (\<lambda>_. True)"
    by (rule get_configuration_keeps [OF assms(2)])
      (use visit_all_invariant [of "\<lambda>_. True"] ShowDescriptors_visit split_descriptors_ok in \<open>metis parse_descriptors_split\<close>)
  obtain hc1 r1 where 1: "get_configuration tfb H device IdentifyMassStorageVisitor identify_mass_storage_default hc = Ret (hc1, r1)" "hinv hc1"
    using idn assms(1) unfolding keepsR_def safeR_def by blast
  obtain hc2 r2 where 2: "get_configuration tfb H device ShowDescriptors [] hc1 = Ret (hc2, r2)" "hinv hc2"
    using shw 1(2) unfolding keepsR_def safeR_def by blast
  show ?thesis
  proof (cases r1)
    case (Inr ims)
    show ?thesis
    proof (cases "identify ims")
      case (Some cfg)
      obtain hc3 r3 where 3: "configure tfb H device cfg hc1 = Ret (hc3, r3)" "hinv hc3"
        using configure_keeps [OF assms(2)] 1(2) unfolding keepsR_def safeR_def by blast
      show ?thesis
      proof (cases r3)
        case dev: (Inr dev)
        have "\<exists>r. mass_storage_new dev hc3 = Ret (hc3, r) \<and> (\<forall>ms. r = Ok ms \<longrightarrow> ms_hc ms = hc3 \<and> ms_tag ms = 1)"
          by (auto simp: mass_storage_new_def split: prod.splits sum.splits)
        then show ?thesis using 1 3 Inr Some dev by (auto simp: msc_attach_def ms_inv_def split: sum.splits)
      qed (use 1 3 Inr Some in \<open>simp add: msc_attach_def\<close>)
    qed (use 1 2 Inr in \<open>simp add: msc_attach_def\<close>)
  qed (use 1 in \<open>simp add: msc_attach_def\<close>)
qed

text \<open>
  The program comes back to its loop, or it has found a disk and panics: on a size that overflows, or
  because the byte it reads back is not the one it wrote.
\<close>

lemma msc_connected_cases:
  assumes "hinv hc" and "ps_ok (unc_packet_size_ep0 device)"
  shows "(\<exists>hc'. msc_connected tfb H left device info hc = Ret hc' \<and> hinv hc') \<or>
    msc_connected tfb H left device info hc = Panic \<and>
    (\<exists>hc1 ms ms1 i. msc_attach tfb H device hc = Ret (hc1, Some ms) \<and>
      msc_ready tfb (mass_storage_transport H) ms = Ret (ms1, Ok (Some i)) \<and>
      (2 ^ 64 \<le> unat (blocks i) * unat (block_size i) + 2 ^ 29 \<or>
       (\<exists>ms2 q ms3 r. write_blocks tfb (mass_storage_transport H) 2 1 ((replicate 512 0)[42 := 43]) ms1 = Ret (ms2, q) \<and>
          read_blocks tfb (mass_storage_transport H) 2 1 (replicate 512 0) ms2 = Ret (ms3, r) \<and>
          (case r of Inl _ \<Rightarrow> left | Inr b \<Rightarrow> b) ! 42 \<noteq> 43)))"
proof -
  let ?T = "mass_storage_transport H"
  obtain hc1 m where a: "msc_attach tfb H device hc = Ret (hc1, m)" "hinv hc1" "\<forall>ms. m = Some ms \<longrightarrow> ms_inv hinv 12 ms"
    using msc_attach_ok [OF assms] by blast
  show ?thesis
  proof (cases m)
    case (Some ms)
    have "ms_inv hinv (Suc (Suc (Suc (Suc (Suc (Suc (Suc (Suc (Suc (Suc (Suc (Suc 0)))))))))))) ms"
      using a(3) Some by (simp add: numeral_eq_Suc)
    then obtain ms1 r where r: "msc_ready tfb ?T ms = Ret (ms1, r)" "ms_inv hinv (Suc (Suc (Suc (Suc 0)))) ms1"
      using msc.msc_ready_safe unfolding safeR_def by blast
    then have hc: "hinv (ms_hc ms1)" by (simp add: ms_inv_def)
    show ?thesis
    proof (cases "\<exists>i. r = Ok (Some i)")
      case True
      then obtain i where i: "r = Ok (Some i)" by blast
      obtain ms2 q ms3 b where t: "write_blocks tfb ?T 2 1 ((replicate 512 0)[42 := 43]) ms1 = Ret (ms2, q)"
        "read_blocks tfb ?T 2 1 (replicate 512 0) ms2 = Ret (ms3, b)" "ms_inv hinv 0 ms3"
        "msc_selftest tfb ?T left ms1 = (if (case b of Inl _ \<Rightarrow> left | Inr b \<Rightarrow> b) ! 42 = 43 then Ret ms3 else Panic)"
        using msc.msc_selftest_cases [OF r(2), of tfb left] by blast
      show ?thesis
      proof (cases "msc_capacity i")
        case Panic
        then have "2 ^ 64 \<le> unat (blocks i) * unat (block_size i) + 2 ^ 29"
          by (rule msc_capacity_Panic)
        then show ?thesis using a(1) Some r(1) i Panic by (simp add: msc_connected_def)
      next
        case (Ret c)
        then have run: "msc_connected tfb H left device info hc = obind (msc_selftest tfb ?T left ms1) (\<lambda>ms2. Ret (ms_hc ms2))"
          using a(1) Some r(1) i by (simp add: msc_connected_def)
        have "hinv (ms_hc ms3)" using t(3) by (simp add: ms_inv_def)
        then show ?thesis using a(1) Some r(1) i t unfolding run by auto
      qed
    next
      case False
      then have "msc_connected tfb H left device info hc = Ret (ms_hc ms1)"
        using a(1) Some r(1) by (auto simp: msc_connected_def split: sum.splits option.splits)
      then show ?thesis using hc by blast
    qed
  qed (use a in \<open>simp add: msc_connected_def\<close>)
qed

end

section \<open>The test on a disk that works\<close>

context scsi_disk
begin

lemma msc_ready_disk:
  assumes "holds (Suc (Suc (Suc (Suc k)))) t m" and "bs < 2 ^ 32"
  shows "\<exists>t' i. msc_ready tfb T t = Ret (t', Ok (Some i)) \<and> unat (blocks i) = last_block bs m \<and> unat (block_size i) = bs \<and> holds k t' m"
proof -
  obtain t1 i where 1: "inquiry tfb T t = Ret (t1, Ok i)" "peripheral_type i = Disk" "holds (Suc (Suc (Suc k))) t1 m"
    using inquiry_disk [OF assms(1)] by blast
  obtain t2 where 2: "test_unit_ready tfb T t1 = Ret (t2, Ok ())" "holds (Suc (Suc k)) t2 m"
    using test_unit_ready_disk [OF 1(3)] by blast
  obtain t3 j where 3: "device_info tfb T t2 = Ret (t3, Ok j)" "unat (blocks j) = last_block bs m" "unat (block_size j) = bs" "holds k t3 m"
    using device_info_disk [OF 2(2) assms(2)] by blast
  have "msc_ready tfb T t = Ret (t3, Ok (Some j))" using 1 2 3 by (simp add: msc_ready_def bindR_def)
  then show ?thesis using 3 by blast
qed

lemma msc_selftest_disk:
  assumes tfb: "casts_by_size tfb" and t: "holds (Suc (Suc (Suc (Suc k)))) t m" and bs: "bs = 512" and m: "3 * 512 \<le> length m"
  shows "\<exists>t'. msc_selftest tfb T left t = Ret t' \<and> holds k t' (overwrite m 1024 ((replicate 512 0)[42 := 43]))"
proof -
  let ?buf = "(replicate 512 0)[42 := 43 :: u8]" and ?m = "overwrite m 1024 ((replicate 512 0)[42 := 43])"
  have range: "in_range bs (unat (2 :: u64)) (unat (1 :: u32)) m" using bs m by (simp add: in_range_def)
  have ok: "request_ok bs (WriteBlocks 2 1 ?buf)" "request_ok bs (ReadBlocks 2 1 (?buf[42 := 0]))" using bs by (simp_all add: request_ok_def)
  from write_request_in_range [OF t ok(1) range, of tfb] obtain t1
    where 1: "write_blocks tfb T 2 1 ?buf t = Ret (t1, Ok ())" "holds (Suc (Suc k)) t1 ?m" using bs by (auto simp: bindR_cases(3))
  have "length ?buf = unat (1 :: u32) * bs" using bs by simp
  note blocks = blocks_at_written [OF range this] length_written [OF range this]
  have "in_range bs (unat (2 :: u64)) (unat (1 :: u32)) ?m" "blocks_at bs (unat (2 :: u64)) (unat (1 :: u32)) ?m = ?buf"
    using blocks bs range by (simp_all add: in_range_def)
  with read_request [OF tfb 1(2) ok(2)] obtain t2 where 2: "read_blocks tfb T 2 1 (?buf[42 := 0]) t1 = Ret (t2, Ok ?buf)" "holds k t2 ?m"
    by auto
  have "?buf ! 42 = 43" by simp
  then have "msc_selftest tfb T left t = Ret t2" using 1(1) 2(1) by (simp only: msc_selftest_def Let_def obind.simps prod.case sum.case rust_assert_True simp_thms)
  then show ?thesis using 2(2) by blast
qed

end

section \<open>Properties\<close>



end
