(* ===== verification/Rust_Str.thy ===== *)
theory Rust_Str
  imports Prelude "HOL-Library.List_Lexorder"
begin

text \<open>
  Rust's strings as the network code uses them. A \<open>str\<close> is the list of its Unicode scalar values; the
  bytes of it are its UTF-8 encoding. Positions in a string are counted in characters: the source
  only searches for ASCII patterns and cuts where it found them, so that counting bytes gives the
  same pieces.
\<close>

type_synonym str = "nat list"

definition lit :: "string \<Rightarrow> str" where
  "lit s = map of_char s"

section \<open>UTF-8\<close>

definition scalar :: "nat \<Rightarrow> bool" where
  "scalar c \<longleftrightarrow> c < 0xD800 \<or> 0xE000 \<le> c \<and> c < 0x110000"

definition utf8_char :: "nat \<Rightarrow> nat list" where
  "utf8_char c =
     (if c < 0x80 then [c]
      else if c < 0x800 then [0xC0 + c div 0x40, 0x80 + c mod 0x40]
      else if c < 0x10000 then [0xE0 + c div 0x1000, 0x80 + c div 0x40 mod 0x40, 0x80 + c mod 0x40]
      else [0xF0 + c div 0x40000, 0x80 + c div 0x1000 mod 0x40, 0x80 + c div 0x40 mod 0x40, 0x80 + c mod 0x40])"

text \<open>Decoding of the first character: the bytes must be the shortest encoding of a scalar value.\<close>

definition utf8_len :: "nat \<Rightarrow> nat" where
  "utf8_len a = (if a < 0x80 then 1 else if a < 0xE0 then 2 else if a < 0xF0 then 3 else 4)"

definition utf8_lead :: "nat \<Rightarrow> nat" where
  "utf8_lead a = (if a < 0x80 then a else if a < 0xE0 then a - 0xC0 else if a < 0xF0 then a - 0xE0 else a - 0xF0)"

definition utf8_first :: "nat list \<Rightarrow> (nat \<times> nat list) option" where
  "utf8_first bs =
     (case bs of
        [] \<Rightarrow> None
      | a # as \<Rightarrow>
          let n = utf8_len a; c = foldl (\<lambda>x b. x * 0x40 + (b - 0x80)) (utf8_lead a) (take (n - 1) as)
          in if scalar c \<and> take n bs = utf8_char c then Some (c, drop n bs) else None)"

function utf8_decode :: "nat list \<Rightarrow> str option" where
  "utf8_decode bs =
     (if bs = [] then Some []
      else case utf8_first bs of None \<Rightarrow> None | Some (c, rest) \<Rightarrow> map_option ((#) c) (utf8_decode rest))"
  by pat_completeness auto
termination
  by (relation "measure length")
    (auto simp: utf8_first_def utf8_len_def Let_def split: list.splits if_splits)

declare utf8_decode.simps [simp del]

definition from_utf8 :: "u8 list \<Rightarrow> str option" where
  "from_utf8 bs = utf8_decode (map unat bs)"

definition as_bytes :: "str \<Rightarrow> u8 list" where
  "as_bytes s = map word_of_nat (concat (map utf8_char s))"

lemma utf8_char_nonempty [simp]: "utf8_char c \<noteq> []"
  by (simp add: utf8_char_def)

lemma utf8_char_bytes: "c < 0x110000 \<Longrightarrow> b \<in> set (utf8_char c) \<Longrightarrow> b < 256"
proof -
  have m: "n mod 64 < 64" for n :: nat by simp
  show "c < 0x110000 \<Longrightarrow> b \<in> set (utf8_char c) \<Longrightarrow> b < 256"
    using m [of c] m [of "c div 64"] m [of "c div 4096"]
    by (auto simp: utf8_char_def less_mult_imp_div_less split: if_splits)
qed

lemma scalar_bound: "scalar c \<Longrightarrow> c < 0x110000"
  by (auto simp: scalar_def)

lemma div_steps: "(c :: nat) div 64 div 64 = c div 4096" "c div 4096 div 64 = c div 262144"
  by (simp_all add: div_mult2_eq [symmetric])

lemma utf8_firstI:
  assumes "scalar c" and "utf8_char c = a # as" and "utf8_len a = Suc (length as)"
    and "foldl (\<lambda>x b. x * 0x40 + (b - 0x80)) (utf8_lead a) as = c"
  shows "utf8_first (utf8_char c @ rest) = Some (c, rest)"
  using assms by (simp add: utf8_first_def Let_def)

lemma utf8_first_char:
  assumes "scalar c"
  shows "utf8_first (utf8_char c @ rest) = Some (c, rest)"
proof -
  define d e f where "d = c div 64" and "e = c div 4096" and "f = c div 262144"
  have c: "c < 0x110000" using assms by (rule scalar_bound)
  have 1: "d * 64 + c mod 64 = c" unfolding d_def by simp
  have 2: "e * 64 + d mod 64 = d" using div_mult_mod_eq [of d 64] by (simp add: d_def e_def div_steps)
  have 3: "f * 64 + e mod 64 = e" using div_mult_mod_eq [of e 64] by (simp add: e_def f_def div_steps)
  note parts = d_def [symmetric] e_def [symmetric] f_def [symmetric]
  consider "c < 0x80" | "0x80 \<le> c" "c < 0x800" | "0x800 \<le> c" "c < 0x10000" | "0x10000 \<le> c" by linarith
  then show ?thesis
  proof cases
    case 1
    then show ?thesis
      by (intro utf8_firstI [OF assms, of c "[]"]) (simp_all add: utf8_char_def utf8_len_def utf8_lead_def)
  next
    case small: 2
    have "d < 32" unfolding d_def using small by (simp add: less_mult_imp_div_less)
    then show ?thesis
      by (intro utf8_firstI [OF assms, of "0xC0 + d" "[0x80 + c mod 0x40]"])
        (use small 1 in \<open>simp_all add: utf8_char_def utf8_len_def utf8_lead_def parts\<close>)
  next
    case mid: 3
    have "e < 16" unfolding e_def using mid by (simp add: less_mult_imp_div_less)
    then show ?thesis
      by (intro utf8_firstI [OF assms, of "0xE0 + e" "[0x80 + d mod 0x40, 0x80 + c mod 0x40]"])
        (use mid 1 2 in \<open>simp_all add: utf8_char_def utf8_len_def utf8_lead_def parts\<close>)
  next
    case large: 4
    show ?thesis
      by (intro utf8_firstI [OF assms, of "0xF0 + f" "[0x80 + e mod 0x40, 0x80 + d mod 0x40, 0x80 + c mod 0x40]"])
        (use large 1 2 3 in \<open>simp_all add: utf8_char_def utf8_len_def utf8_lead_def parts\<close>)
  qed
qed

lemma utf8_decode_encode: "\<forall>c\<in>set s. scalar c \<Longrightarrow> utf8_decode (concat (map utf8_char s)) = Some s"
proof (induction s)
  case Nil
  then show ?case by (simp add: utf8_decode.simps)
next
  case (Cons c s)
  then have "utf8_first (utf8_char c @ concat (map utf8_char s)) = Some (c, concat (map utf8_char s))"
    using utf8_first_char by simp
  then show ?case using Cons by (simp add: utf8_decode.simps [of "utf8_char c @ concat (map utf8_char s)"])
qed

lemma utf8_encode_decode:
  "utf8_decode bs = Some s \<Longrightarrow> concat (map utf8_char s) = bs \<and> (\<forall>c\<in>set s. scalar c)"
proof (induction bs arbitrary: s rule: utf8_decode.induct)
  case (1 bs)
  show ?case
  proof (cases "bs = []")
    case True
    then show ?thesis using "1.prems" by (simp add: utf8_decode.simps)
  next
    case False
    then obtain c rest s' where f: "utf8_first bs = Some (c, rest)" "utf8_decode rest = Some s'" "s = c # s'"
      using "1.prems" by (auto simp: utf8_decode.simps [of bs] split: option.splits prod.splits)
    from f(1) have "scalar c" "utf8_char c @ rest = bs"
      by (auto simp: utf8_first_def Let_def split: list.splits if_splits) (metis append_take_drop_id)
    then show ?thesis using "1.IH" [OF False f(1) refl f(2)] f(3) by simp
  qed
qed

lemma from_utf8_as_bytes: "\<forall>c\<in>set s. scalar c \<Longrightarrow> from_utf8 (as_bytes s) = Some s"
proof -
  assume s: "\<forall>c\<in>set s. scalar c"
  then have "\<forall>b\<in>set (concat (map utf8_char s)). b < 256" using scalar_bound utf8_char_bytes by auto
  then have "map (\<lambda>b. unat (word_of_nat b :: u8)) (concat (map utf8_char s)) = concat (map utf8_char s)"
    by (intro map_idI) (simp add: unat_of_nat take_bit_eq_mod del: set_concat)
  then show ?thesis using utf8_decode_encode [OF s] by (simp add: from_utf8_def as_bytes_def comp_def map_concat)
qed

lemma as_bytes_from_utf8: "from_utf8 bs = Some s \<Longrightarrow> as_bytes s = bs \<and> (\<forall>c\<in>set s. scalar c)"
  using utf8_encode_decode [of "map unat bs" s] by (simp add: from_utf8_def as_bytes_def comp_def)

lemma as_bytes_append [simp]: "as_bytes (s @ t) = as_bytes s @ as_bytes t"
  by (simp add: as_bytes_def)

lemma as_bytes_Nil [simp]: "as_bytes [] = []"
  by (simp add: as_bytes_def)

section \<open>Operations\<close>

definition is_whitespace :: "nat \<Rightarrow> bool" where
  "is_whitespace c \<longleftrightarrow> 9 \<le> c \<and> c \<le> 13 \<or> c = 32 \<or> c = 0x85 \<or> c = 0xA0 \<or> c = 0x1680 \<or>
     0x2000 \<le> c \<and> c \<le> 0x200A \<or> c = 0x2028 \<or> c = 0x2029 \<or> c = 0x202F \<or> c = 0x205F \<or> c = 0x3000"

definition trim :: "str \<Rightarrow> str" where
  "trim s = rev (dropWhile is_whitespace (rev (dropWhile is_whitespace s)))"

definition split_once :: "nat \<Rightarrow> str \<Rightarrow> (str \<times> str) option" where
  "split_once c s =
     (case dropWhile (\<lambda>x. x \<noteq> c) s of [] \<Rightarrow> None | _ # rest \<Rightarrow> Some (takeWhile (\<lambda>x. x \<noteq> c) s, rest))"

definition rsplit_once :: "nat \<Rightarrow> str \<Rightarrow> (str \<times> str) option" where
  "rsplit_once c s =
     (case split_once c (rev s) of None \<Rightarrow> None | Some (b, a) \<Rightarrow> Some (rev a, rev b))"

definition to_ascii_uppercase :: "str \<Rightarrow> str" where
  "to_ascii_uppercase s = map (\<lambda>c. if 97 \<le> c \<and> c \<le> 122 then c - 32 else c) s"

definition strip_cr :: "str \<Rightarrow> str" where
  "strip_cr l = (if l \<noteq> [] \<and> last l = 13 then butlast l else l)"

text \<open>\<open>lines\<close>: a line ends in a line feed, with a carriage return before it or not; the last line need not.\<close>

function lines :: "str \<Rightarrow> str list" where
  "lines s =
     (if s = [] then []
      else case dropWhile (\<lambda>x. x \<noteq> 10) s of
        [] \<Rightarrow> [s]
      | _ # rest \<Rightarrow> strip_cr (takeWhile (\<lambda>x. x \<noteq> 10) s) # lines rest)"
  by pat_completeness auto
termination
proof (relation "measure length", simp)
  fix s :: str and x rest
  assume "dropWhile (\<lambda>x. x \<noteq> 10) s = x # rest"
  then have "length (x # rest) \<le> length s" by (metis length_dropWhile_le)
  then show "(rest, s) \<in> measure length" by simp
qed

declare lines.simps [simp del]

text \<open>\<open>find\<close> of a pattern.\<close>

fun find_str :: "str \<Rightarrow> str \<Rightarrow> nat option" where
  "find_str pat [] = (if pat = [] then Some 0 else None)"
| "find_str pat (c # s) =
     (if take (length pat) (c # s) = pat then Some 0 else map_option Suc (find_str pat s))"

text \<open>\<open>parse\<close> to an unsigned integer of at most \<open>m\<close>: an optional plus sign and at least one digit.\<close>

definition is_digit :: "nat \<Rightarrow> bool" where
  "is_digit c \<longleftrightarrow> 48 \<le> c \<and> c \<le> 57"

definition digits_value :: "str \<Rightarrow> nat" where
  "digits_value s = foldl (\<lambda>a c. 10 * a + (c - 48)) 0 s"

definition parse_uint :: "nat \<Rightarrow> str \<Rightarrow> nat option" where
  "parse_uint m s =
     (let ds = (case s of c # r \<Rightarrow> if c = 43 then r else s | [] \<Rightarrow> []) in
      if ds \<noteq> [] \<and> (\<forall>c\<in>set ds. is_digit c) \<and> digits_value ds \<le> m then Some (digits_value ds) else None)"

section \<open>Facts about them\<close>

lemma takeWhile_neq: "c \<notin> set a \<Longrightarrow> takeWhile (\<lambda>x. x \<noteq> c) (a @ c # b) = a"
  by (subst takeWhile_append2) auto

lemma dropWhile_neq: "c \<notin> set a \<Longrightarrow> dropWhile (\<lambda>x. x \<noteq> c) (a @ c # b) = c # b"
  by (subst dropWhile_append2) auto

lemma split_once_append: "c \<notin> set a \<Longrightarrow> split_once c (a @ c # b) = Some (a, b)"
  by (simp add: split_once_def takeWhile_neq dropWhile_neq)

lemma split_once_Some_iff: "split_once c s = Some (a, b) \<longleftrightarrow> s = a @ c # b \<and> c \<notin> set a"
proof
  assume "split_once c s = Some (a, b)"
  then obtain x where x: "dropWhile (\<lambda>x. x \<noteq> c) s = x # b" "a = takeWhile (\<lambda>x. x \<noteq> c) s"
    by (auto simp: split_once_def split: list.splits)
  then have "x = c" using hd_dropWhile [of "\<lambda>x. x \<noteq> c" s] by auto
  then show "s = a @ c # b \<and> c \<notin> set a"
    using x takeWhile_dropWhile_id [of "\<lambda>x. x \<noteq> c" s] by (auto dest: set_takeWhileD)
qed (auto simp: split_once_append)

lemma split_once_None_iff: "split_once c s = None \<longleftrightarrow> c \<notin> set s"
  by (metis option.exhaust split_list_first split_once_Some_iff in_set_conv_decomp surj_pair option.distinct(1))

lemma rsplit_once_Some_iff: "rsplit_once c s = Some (a, b) \<longleftrightarrow> s = a @ c # b \<and> c \<notin> set b"
proof -
  have "rsplit_once c s = Some (a, b) \<longleftrightarrow> split_once c (rev s) = Some (rev b, rev a)"
    by (auto simp: rsplit_once_def split: option.splits)
  also have "\<dots> \<longleftrightarrow> s = a @ c # b \<and> c \<notin> set b"
    by (auto simp: split_once_Some_iff rev_swap)
  finally show ?thesis .
qed

lemma strip_cr_snoc [simp]: "strip_cr (l @ [13]) = l"
  by (simp add: strip_cr_def)

lemma lines_Nil [simp]: "lines [] = []"
  by (simp add: lines.simps)

lemma lines_crlf:
  assumes "10 \<notin> set l"
  shows "lines (l @ 13 # 10 # s) = l # lines s"
proof -
  have "10 \<notin> set (l @ [13])" using assms by simp
  from takeWhile_neq [OF this, of s] dropWhile_neq [OF this, of s]
  show ?thesis by (subst lines.simps) simp
qed

lemma trim_space: "trim s = s \<Longrightarrow> trim (32 # s) = s"
  by (simp add: trim_def is_whitespace_def)

end
