(* ===== verification/Ssdp_Message.thy ===== *)
theory Ssdp_Message
  imports Rust_Str
begin

text \<open>
  \<open>cotton-ssdp/src/message.rs\<close>: parsing of SSDP packets, and the building of outgoing ones into a
  buffer of fixed size. The proofs show that what is built is parsed back to the fields it was built
  from, and what happens when a packet does not fit its buffer.
\<close>

section \<open>Parsing\<close>

datatype Message =
    NotifyAlive (notification_type: str) (unique_service_name: str) (location: str)
  | NotifyByeBye (notification_type: str) (unique_service_name: str)
  | Search (search_target: str) (maximum_wait_sec: u8)
  | Response (search_target: str) (unique_service_name: str) (location: str)

datatype MessageError = InvalidData | UnexpectedEof

definition header_step :: "(str \<rightharpoonup> str) \<Rightarrow> str \<Rightarrow> (str \<rightharpoonup> str)" where
  "header_step m line =
     (case split_once 58 line of
        None \<Rightarrow> m
      | Some (key, val) \<Rightarrow> m(to_ascii_uppercase key \<mapsto> trim val))"

definition parse :: "u8 list \<Rightarrow> (MessageError, Message) result" where
  "parse buf =
     (case from_utf8 buf of
        None \<Rightarrow> Err InvalidData
      | Some packet \<Rightarrow>
          (case lines packet of
             [] \<Rightarrow> Err UnexpectedEof
           | prefix # rest \<Rightarrow>
               let m = foldl header_step Map.empty rest in
               if prefix = lit ''NOTIFY * HTTP/1.1'' then
                 (case m (lit ''NTS'') of
                    None \<Rightarrow> Err InvalidData
                  | Some nts \<Rightarrow>
                      if nts = lit ''ssdp:alive'' then
                        (case (m (lit ''NT''), m (lit ''USN''), m (lit ''LOCATION'')) of
                           (Some nt, Some usn, Some loc) \<Rightarrow> Ok (NotifyAlive nt usn loc)
                         | _ \<Rightarrow> Err InvalidData)
                      else if nts = lit ''ssdp:byebye'' then
                        (case (m (lit ''NT''), m (lit ''USN'')) of
                           (Some nt, Some usn) \<Rightarrow> Ok (NotifyByeBye nt usn)
                         | _ \<Rightarrow> Err InvalidData)
                      else Err InvalidData)
               else if prefix = lit ''HTTP/1.1 200 OK'' then
                 (case (m (lit ''ST''), m (lit ''USN''), m (lit ''LOCATION'')) of
                    (Some st, Some usn, Some loc) \<Rightarrow> Ok (Response st usn loc)
                  | _ \<Rightarrow> Err InvalidData)
               else if prefix = lit ''M-SEARCH * HTTP/1.1'' then
                 (case (m (lit ''ST''), m (lit ''MX'')) of
                    (Some st, Some mx) \<Rightarrow>
                      (case parse_uint 255 mx of
                         Some mxn \<Rightarrow> Ok (Search st (word_of_nat mxn))
                       | None \<Rightarrow> Err InvalidData)
                  | _ \<Rightarrow> Err InvalidData)
               else Err InvalidData))"

section \<open>Building\<close>

record MessageCursor =
  mc_buf :: "u8 list"
  mc_offset :: nat

definition cursor_new :: "u8 list \<Rightarrow> MessageCursor" where
  "cursor_new buf = \<lparr>mc_buf = buf, mc_offset = 0\<rparr>"

text \<open>\<open>write_str\<close> writes all of a piece or fails; \<open>write!\<close> writes piece after piece and ends at a failure.\<close>

definition write_str :: "MessageCursor \<Rightarrow> str \<Rightarrow> MessageCursor option" where
  "write_str c s =
     (let b = as_bytes s; n = length b in
      if n + mc_offset c > length (mc_buf c) then None
      else Some (c\<lparr>mc_buf := overwrite (mc_buf c) (mc_offset c) b, mc_offset := mc_offset c + n\<rparr>))"

fun write_pieces :: "MessageCursor \<Rightarrow> str list \<Rightarrow> MessageCursor" where
  "write_pieces c [] = c"
| "write_pieces c (p # ps) = (case write_str c p of None \<Rightarrow> c | Some c' \<Rightarrow> write_pieces c' ps)"

definition build :: "u8 list \<Rightarrow> str list \<Rightarrow> u8 list \<times> nat" where
  "build buf pieces = (let c = write_pieces (cursor_new buf) pieces in (mc_buf c, mc_offset c))"

definition crlf :: str where "crlf = [13, 10]"

definition CARGO_PKG_NAME :: str where "CARGO_PKG_NAME = lit ''cotton-ssdp''"
definition CARGO_PKG_VERSION :: str where "CARGO_PKG_VERSION = lit ''0.0.5''"

definition search_pieces :: "str \<Rightarrow> str list" where
  "search_pieces search_type =
     [lit ''M-SEARCH * HTTP/1.1'' @ crlf @ lit ''HOST: 239.255.255.250:1900'' @ crlf @
      lit ''MAN: \"ssdp:discover\"'' @ crlf @ lit ''MX: 5'' @ crlf @ lit ''ST: '', search_type, crlf @ crlf]"

definition response_pieces :: "str \<Rightarrow> str \<Rightarrow> str \<Rightarrow> str list" where
  "response_pieces st usn loc =
     [lit ''HTTP/1.1 200 OK'' @ crlf @ lit ''CACHE-CONTROL: max-age=1800'' @ crlf @ lit ''ST: '', st,
      crlf @ lit ''USN: '', usn, crlf @ lit ''LOCATION: '', loc,
      crlf @ lit ''SERVER: none/0 UPnP/1.0 '', CARGO_PKG_NAME, lit ''/'', CARGO_PKG_VERSION, crlf @ crlf]"

definition notify_pieces :: "str \<Rightarrow> str \<Rightarrow> str \<Rightarrow> str list" where
  "notify_pieces nt usn loc =
     [lit ''NOTIFY * HTTP/1.1'' @ crlf @ lit ''HOST: 239.255.255.250:1900'' @ crlf @
      lit ''CACHE-CONTROL: max-age=1800'' @ crlf @ lit ''LOCATION: '', loc, crlf @ lit ''NT: '', nt,
      crlf @ lit ''NTS: ssdp:alive'' @ crlf @ lit ''USN: '', usn,
      crlf @ lit ''SERVER: none/0 UPnP/1.0 '', CARGO_PKG_NAME, lit ''/'', CARGO_PKG_VERSION, crlf @ crlf]"

definition byebye_pieces :: "str \<Rightarrow> str \<Rightarrow> str list" where
  "byebye_pieces nt usn =
     [lit ''NOTIFY * HTTP/1.1'' @ crlf @ lit ''HOST: 239.255.255.250:1900'' @ crlf @
      lit ''CACHE-CONTROL: max-age=1800'' @ crlf @ lit ''NT: '', nt,
      crlf @ lit ''NTS: ssdp:byebye'' @ crlf @ lit ''USN: '', usn,
      crlf @ lit ''SERVER: none/0 UPnP/1.0 '', CARGO_PKG_NAME, lit ''/'', CARGO_PKG_VERSION, crlf @ crlf]"

definition build_search :: "u8 list \<Rightarrow> str \<Rightarrow> u8 list \<times> nat" where
  "build_search buf search_type = build buf (search_pieces search_type)"

definition build_response :: "u8 list \<Rightarrow> str \<Rightarrow> str \<Rightarrow> str \<Rightarrow> u8 list \<times> nat" where
  "build_response buf st usn loc = build buf (response_pieces st usn loc)"

definition build_notify :: "u8 list \<Rightarrow> str \<Rightarrow> str \<Rightarrow> str \<Rightarrow> u8 list \<times> nat" where
  "build_notify buf nt usn loc = build buf (notify_pieces nt usn loc)"

definition build_byebye :: "u8 list \<Rightarrow> str \<Rightarrow> str \<Rightarrow> u8 list \<times> nat" where
  "build_byebye buf nt usn = build buf (byebye_pieces nt usn)"

section \<open>What is built\<close>

text \<open>The written prefix consists of whole pieces, and of all of them if they fit.\<close>

lemma write_pieces_prefix:
  assumes "mc_offset c \<le> length (mc_buf c)"
  shows "\<exists>k \<le> length ps. mc_offset (write_pieces c ps) = mc_offset c + length (as_bytes (concat (take k ps))) \<and>
    take (mc_offset (write_pieces c ps)) (mc_buf (write_pieces c ps)) =
      take (mc_offset c) (mc_buf c) @ as_bytes (concat (take k ps)) \<and>
    length (mc_buf (write_pieces c ps)) = length (mc_buf c) \<and>
    mc_offset (write_pieces c ps) \<le> length (mc_buf c) \<and>
    (mc_offset c + length (as_bytes (concat ps)) \<le> length (mc_buf c) \<longrightarrow> k = length ps)"
  using assms
proof (induction c ps rule: write_pieces.induct)
  case (1 c)
  then show ?case by simp
next
  case (2 c p ps)
  show ?case
  proof (cases "length (as_bytes p) + mc_offset c > length (mc_buf c)")
    case True
    then show ?thesis using "2.prems" by (intro exI [of _ 0]) (simp add: write_str_def Let_def)
  next
    case False
    let ?c = "c\<lparr>mc_buf := overwrite (mc_buf c) (mc_offset c) (as_bytes p), mc_offset := mc_offset c + length (as_bytes p)\<rparr>"
    have w: "write_str c p = Some ?c" using False by (simp add: write_str_def Let_def)
    have "mc_offset ?c \<le> length (mc_buf ?c)" using False by simp
    from "2.IH" [OF w this] obtain k where k: "k \<le> length ps"
      "mc_offset (write_pieces ?c ps) = mc_offset ?c + length (as_bytes (concat (take k ps)))"
      "take (mc_offset (write_pieces ?c ps)) (mc_buf (write_pieces ?c ps)) =
         take (mc_offset ?c) (mc_buf ?c) @ as_bytes (concat (take k ps))"
      "length (mc_buf (write_pieces ?c ps)) = length (mc_buf ?c)"
      "mc_offset (write_pieces ?c ps) \<le> length (mc_buf ?c)"
      "mc_offset ?c + length (as_bytes (concat ps)) \<le> length (mc_buf ?c) \<longrightarrow> k = length ps" by blast
    have "take (mc_offset ?c) (mc_buf ?c) = take (mc_offset c) (mc_buf c) @ as_bytes p"
      using False take_overwrite [of "mc_offset c" "as_bytes p" "mc_buf c"] by simp
    then show ?thesis using k w False by (intro exI [of _ "Suc k"]) simp
  qed
qed

lemma build_prefix:
  "\<exists>k \<le> length ps. snd (build buf ps) = length (as_bytes (concat (take k ps))) \<and>
     take (snd (build buf ps)) (fst (build buf ps)) = as_bytes (concat (take k ps)) \<and>
     length (fst (build buf ps)) = length buf \<and> snd (build buf ps) \<le> length buf \<and>
     (length (as_bytes (concat ps)) \<le> length buf \<longrightarrow> k = length ps)"
  using write_pieces_prefix [of "cursor_new buf" ps] by (simp add: build_def cursor_new_def Let_def)

lemma build_fits:
  assumes "length (as_bytes (concat ps)) \<le> length buf"
  shows "take (snd (build buf ps)) (fst (build buf ps)) = as_bytes (concat ps)"
  using build_prefix [of ps buf] assms by auto

section \<open>Packets as lines\<close>

lemma lit_eq_iff [simp]: "lit s = lit t \<longleftrightarrow> s = t"
  using map_injective [of "of_char :: char \<Rightarrow> nat" s t] by (auto simp: lit_def inj_def)

lemma scalar_lit: "c \<in> set (lit s) \<Longrightarrow> scalar c"
proof -
  assume "c \<in> set (lit s)"
  then obtain x where "c = of_char x" by (auto simp: lit_def)
  then have "c < 256" using nat_of_char_less_256 [of x] by simp
  then show "scalar c" by (simp add: scalar_def)
qed

text \<open>A packet: a start line, header lines, and an empty line.\<close>

definition header :: "string \<times> str \<Rightarrow> str" where
  "header kv = lit (fst kv) @ 58 # 32 # snd kv"

definition packet :: "string \<Rightarrow> (string \<times> str) list \<Rightarrow> str" where
  "packet start kvs = lit start @ crlf @ concat (map (\<lambda>kv. header kv @ crlf) kvs) @ crlf"

definition server :: str where
  "server = lit ''none/0 UPnP/1.0 '' @ CARGO_PKG_NAME @ lit ''/'' @ CARGO_PKG_VERSION"

lemma packets:
  "concat (search_pieces st) = packet ''M-SEARCH * HTTP/1.1''
     [(''HOST'', lit ''239.255.255.250:1900''), (''MAN'', lit ''\"ssdp:discover\"''), (''MX'', lit ''5''), (''ST'', st)]"
  "concat (response_pieces st usn loc) = packet ''HTTP/1.1 200 OK''
     [(''CACHE-CONTROL'', lit ''max-age=1800''), (''ST'', st), (''USN'', usn), (''LOCATION'', loc), (''SERVER'', server)]"
  "concat (notify_pieces nt usn loc) = packet ''NOTIFY * HTTP/1.1''
     [(''HOST'', lit ''239.255.255.250:1900''), (''CACHE-CONTROL'', lit ''max-age=1800''), (''LOCATION'', loc),
      (''NT'', nt), (''NTS'', lit ''ssdp:alive''), (''USN'', usn), (''SERVER'', server)]"
  "concat (byebye_pieces nt usn) = packet ''NOTIFY * HTTP/1.1''
     [(''HOST'', lit ''239.255.255.250:1900''), (''CACHE-CONTROL'', lit ''max-age=1800''),
      (''NT'', nt), (''NTS'', lit ''ssdp:byebye''), (''USN'', usn), (''SERVER'', server)]"
  by (simp_all add: search_pieces_def response_pieces_def notify_pieces_def byebye_pieces_def packet_def
      header_def server_def crlf_def lit_def)

text \<open>Values that survive: no line feed, and no white space at the ends.\<close>

definition clean :: "str \<Rightarrow> bool" where
  "clean v \<longleftrightarrow> (\<forall>c\<in>set v. scalar c) \<and> 10 \<notin> set v \<and> trim v = v"

definition plain_key :: "string \<Rightarrow> bool" where
  "plain_key k \<longleftrightarrow> 58 \<notin> set (lit k) \<and> 10 \<notin> set (lit k) \<and> to_ascii_uppercase (lit k) = lit k"

lemma header_step_header:
  assumes "plain_key (fst kv)" and "clean (snd kv)"
  shows "header_step m (header kv) = m(lit (fst kv) \<mapsto> snd kv)"
  using assms split_once_append [of 58 "lit (fst kv)" "32 # snd kv"] trim_space
  by (simp add: header_step_def header_def plain_key_def clean_def)

definition header_map :: "(string \<times> str) list \<Rightarrow> (str \<rightharpoonup> str)" where
  "header_map kvs = foldl (\<lambda>m kv. m(lit (fst kv) \<mapsto> snd kv)) Map.empty kvs"

lemma header_steps:
  "\<forall>kv\<in>set kvs. plain_key (fst kv) \<and> clean (snd kv) \<Longrightarrow>
     foldl header_step m (map header kvs) = foldl (\<lambda>m kv. m(lit (fst kv) \<mapsto> snd kv)) m kvs"
  by (induction kvs arbitrary: m) (simp_all add: header_step_header)

lemma lines_headers:
  "\<forall>kv\<in>set kvs. plain_key (fst kv) \<and> clean (snd kv) \<Longrightarrow>
     lines (concat (map (\<lambda>kv. header kv @ crlf) kvs) @ crlf) = map header kvs @ [[]]"
proof (induction kvs)
  case Nil
  show ?case using lines_crlf [of "[]" "[]"] by (simp add: crlf_def)
next
  case (Cons kv kvs)
  then have "10 \<notin> set (header kv)" by (auto simp: header_def plain_key_def clean_def)
  from lines_crlf [OF this] Cons show ?case by (simp add: crlf_def)
qed

lemma packet_parses:
  assumes "10 \<notin> set (lit start)" and "\<forall>kv\<in>set kvs. plain_key (fst kv) \<and> clean (snd kv)"
  shows "from_utf8 (as_bytes (packet start kvs)) = Some (packet start kvs) \<and>
    (\<exists>rest. lines (packet start kvs) = lit start # rest \<and> foldl header_step Map.empty rest = header_map kvs)"
proof
  have "\<forall>c\<in>set (header kv). scalar c" if "kv \<in> set kvs" for kv
    using assms(2) that scalar_lit by (auto simp: header_def clean_def scalar_def)
  moreover have "\<forall>c\<in>set crlf. scalar c" by (simp add: crlf_def scalar_def)
  ultimately have "\<forall>c\<in>set (packet start kvs). scalar c"
    using scalar_lit by (auto simp: packet_def)
  then show "from_utf8 (as_bytes (packet start kvs)) = Some (packet start kvs)" by (rule from_utf8_as_bytes)
  have "lines (packet start kvs) = lit start # map header kvs @ [[]]"
    using lines_crlf [OF assms(1)] lines_headers [OF assms(2)] by (simp add: packet_def crlf_def)
  moreover have "header_step m [] = m" for m by (simp add: header_step_def split_once_def)
  ultimately show "\<exists>rest. lines (packet start kvs) = lit start # rest \<and> foldl header_step Map.empty rest = header_map kvs"
    using header_steps [OF assms(2)] by (simp add: header_map_def)
qed

lemma plain_keys [simp]:
  "plain_key ''HOST''" "plain_key ''CACHE-CONTROL''" "plain_key ''LOCATION''" "plain_key ''NT''" "plain_key ''NTS''"
  "plain_key ''USN''" "plain_key ''SERVER''" "plain_key ''ST''" "plain_key ''MX''" "plain_key ''MAN''"
  by code_simp+

lemma clean_lit: "clean (lit s) \<longleftrightarrow> 10 \<notin> set (lit s) \<and> trim (lit s) = lit s"
  using scalar_lit by (auto simp: clean_def)

lemma server_lit: "server = lit ''none/0 UPnP/1.0 cotton-ssdp/0.0.5''"
  by (simp add: server_def CARGO_PKG_NAME_def CARGO_PKG_VERSION_def lit_def)

lemma clean_constants [simp]:
  "clean (lit ''239.255.255.250:1900'')" "clean (lit ''max-age=1800'')" "clean (lit ''ssdp:alive'')"
  "clean (lit ''ssdp:byebye'')" "clean (lit ''5'')" "clean (lit ''\"ssdp:discover\"'')" "clean server"
  by (simp_all add: clean_lit server_lit) (simp_all add: lit_def trim_def is_whitespace_def)

lemma length_as_bytes_ascii: "\<forall>c\<in>set s. c < 128 \<Longrightarrow> length (as_bytes s) = length s"
  by (induction s) (simp_all add: as_bytes_def utf8_char_def)

lemma start_lines [simp]:
  "10 \<notin> set (lit ''NOTIFY * HTTP/1.1'')" "10 \<notin> set (lit ''HTTP/1.1 200 OK'')" "10 \<notin> set (lit ''M-SEARCH * HTTP/1.1'')"
  by code_simp+

lemma parse_packets:
  assumes "clean nt" and "clean usn" and "clean loc"
  shows "parse (as_bytes (concat (notify_pieces nt usn loc))) = Ok (NotifyAlive nt usn loc)"
    "parse (as_bytes (concat (byebye_pieces nt usn))) = Ok (NotifyByeBye nt usn)"
    "parse (as_bytes (concat (response_pieces nt usn loc))) = Ok (Response nt usn loc)"
    "parse (as_bytes (concat (search_pieces nt))) = Ok (Search nt 5)"
proof -
  show "parse (as_bytes (concat (notify_pieces nt usn loc))) = Ok (NotifyAlive nt usn loc)"
    unfolding packets using packet_parses [of "''NOTIFY * HTTP/1.1''"
      "[(''HOST'', lit ''239.255.255.250:1900''), (''CACHE-CONTROL'', lit ''max-age=1800''), (''LOCATION'', loc),
      (''NT'', nt), (''NTS'', lit ''ssdp:alive''), (''USN'', usn), (''SERVER'', server)]"] assms
    by (auto simp: parse_def header_map_def Let_def)
  show "parse (as_bytes (concat (byebye_pieces nt usn))) = Ok (NotifyByeBye nt usn)"
    unfolding packets using packet_parses [of "''NOTIFY * HTTP/1.1''"
      "[(''HOST'', lit ''239.255.255.250:1900''), (''CACHE-CONTROL'', lit ''max-age=1800''),
      (''NT'', nt), (''NTS'', lit ''ssdp:byebye''), (''USN'', usn), (''SERVER'', server)]"] assms
    by (auto simp: parse_def header_map_def Let_def)
  show "parse (as_bytes (concat (response_pieces nt usn loc))) = Ok (Response nt usn loc)"
    unfolding packets using packet_parses [of "''HTTP/1.1 200 OK''"
      "[(''CACHE-CONTROL'', lit ''max-age=1800''), (''ST'', nt), (''USN'', usn), (''LOCATION'', loc), (''SERVER'', server)]"] assms
    by (auto simp: parse_def header_map_def Let_def)
  have "parse_uint 255 (lit ''5'') = Some 5" by code_simp
  then show "parse (as_bytes (concat (search_pieces nt))) = Ok (Search nt 5)"
    unfolding packets using packet_parses [of "''M-SEARCH * HTTP/1.1''"
      "[(''HOST'', lit ''239.255.255.250:1900''), (''MAN'', lit ''\"ssdp:discover\"''), (''MX'', lit ''5''), (''ST'', nt)]"] assms
    by (auto simp: parse_def header_map_def Let_def)
qed

section \<open>Properties\<close>

text \<open>C12: SSDP packets survive the network: a packet that fits the buffer it is built in is parsed back
to exactly the fields it was built from, for all four kinds of packet and all field values without
line feeds and surrounding white space; a search is built with a maximum wait of 5 seconds.\<close>

theorem ssdp_packets_roundtrip:
  assumes "clean nt" and "clean usn" and "clean loc"
    and "length (as_bytes (concat (notify_pieces nt usn loc))) \<le> length buf"
    and "length (as_bytes (concat (response_pieces nt usn loc))) \<le> length buf"
    and "length (as_bytes (concat (byebye_pieces nt usn))) \<le> length buf"
    and "length (as_bytes (concat (search_pieces nt))) \<le> length buf"
  shows "(case build_notify buf nt usn loc of (b, n) \<Rightarrow> parse (take n b) = Ok (NotifyAlive nt usn loc)) \<and>
    (case build_response buf nt usn loc of (b, n) \<Rightarrow> parse (take n b) = Ok (Response nt usn loc)) \<and>
    (case build_byebye buf nt usn of (b, n) \<Rightarrow> parse (take n b) = Ok (NotifyByeBye nt usn)) \<and>
    (case build_search buf nt of (b, n) \<Rightarrow> parse (take n b) = Ok (Search nt 5))"
  using build_fits [OF assms(4)] build_fits [OF assms(5)] build_fits [OF assms(6)] build_fits [OF assms(7)]
    parse_packets [OF assms(1-3)]
  by (simp add: build_notify_def build_response_def build_byebye_def build_search_def split_beta)

theorem ssdp_packets_roundtrip_witness:
  "case build_notify (replicate 512 0) (lit ''fnord'') (lit ''uuid:37'') (lit ''http://127.0.0.1/'') of
     (b, n) \<Rightarrow> parse (take n b) = Ok (NotifyAlive (lit ''fnord'') (lit ''uuid:37'') (lit ''http://127.0.0.1/''))"
proof -
  have "clean (lit ''fnord'')" "clean (lit ''uuid:37'')" "clean (lit ''http://127.0.0.1/'')"
    by (simp_all only: clean_lit) (simp_all add: lit_def trim_def is_whitespace_def)
  moreover have "length (as_bytes (concat (notify_pieces (lit ''fnord'') (lit ''uuid:37'') (lit ''http://127.0.0.1/'')))) \<le> 512"
    "length (as_bytes (concat (response_pieces (lit ''fnord'') (lit ''uuid:37'') (lit ''http://127.0.0.1/'')))) \<le> 512"
    "length (as_bytes (concat (byebye_pieces (lit ''fnord'') (lit ''uuid:37'')))) \<le> 512"
    "length (as_bytes (concat (search_pieces (lit ''fnord'')))) \<le> 512"
    by (subst length_as_bytes_ascii; simp add: notify_pieces_def response_pieces_def byebye_pieces_def search_pieces_def
        crlf_def CARGO_PKG_NAME_def CARGO_PKG_VERSION_def lit_def)+
  ultimately show ?thesis
    using ssdp_packets_roundtrip [of "lit ''fnord''" "lit ''uuid:37''" "lit ''http://127.0.0.1/''" "replicate 512 0"] by simp
qed

text \<open>C31: building a packet never leaves its buffer: whatever the strings and the size of the buffer, the
reported length is at most the buffer's, the buffer keeps its length, and the bytes reported are the
beginning of the full packet, cut between two of its pieces when it does not fit. A packet that is
too long is therefore sent incomplete.\<close>

theorem build_within_buffer:
  "\<forall>(b, n, ps)\<in>{(fst (build_notify buf nt usn loc), snd (build_notify buf nt usn loc), notify_pieces nt usn loc),
       (fst (build_response buf nt usn loc), snd (build_response buf nt usn loc), response_pieces nt usn loc),
       (fst (build_byebye buf nt usn), snd (build_byebye buf nt usn), byebye_pieces nt usn),
       (fst (build_search buf nt), snd (build_search buf nt), search_pieces nt)}.
     length b = length buf \<and> n \<le> length buf \<and> (\<exists>k \<le> length ps. take n b = as_bytes (concat (take k ps)) \<and>
       (length (as_bytes (concat ps)) \<le> length buf \<longrightarrow> k = length ps))"
proof -
  have "length (fst (build buf ps)) = length buf \<and> snd (build buf ps) \<le> length buf \<and>
      (\<exists>k \<le> length ps. take (snd (build buf ps)) (fst (build buf ps)) = as_bytes (concat (take k ps)) \<and>
       (length (as_bytes (concat ps)) \<le> length buf \<longrightarrow> k = length ps))" for ps
    using build_prefix [of ps buf] by blast
  then show ?thesis by (simp add: build_notify_def build_response_def build_byebye_def build_search_def)
qed

theorem build_within_buffer_witness:
  "\<exists>k \<le> length (search_pieces (lit ''x'')). take (snd (build_search (replicate 100 0) (lit ''x'')))
     (fst (build_search (replicate 100 0) (lit ''x''))) = as_bytes (concat (take k (search_pieces (lit ''x''))))"
  using build_within_buffer [of "replicate 100 0" "lit ''x''" "[]" "[]"] by auto

end
