(* ===== verification/Refresh_Timer.thy ===== *)
theory Refresh_Timer
  imports Prelude
begin

text \<open>
  \<open>cotton-ssdp/src/refresh_timer.rs\<close>: the schedule of retransmissions. Moments in time are a type with
  a linear order, and \<open>add\<close>, a parameter, is the addition of a number of milliseconds to a moment
  that the trait \<open>Timebase\<close> asks for.
\<close>

record 'i RefreshTimer =
  rt_random_seed :: u32
  next_salvo :: 'i
  phase :: u8

definition refresh_timer_new :: "u32 \<Rightarrow> 'i \<Rightarrow> 'i RefreshTimer" where
  "refresh_timer_new random_seed now = \<lparr>rt_random_seed = random_seed, next_salvo = now, phase = 0\<rparr>"

definition refresh_timer_reset :: "'i RefreshTimer \<Rightarrow> 'i \<Rightarrow> 'i RefreshTimer" where
  "refresh_timer_reset t now = t\<lparr>next_salvo := now, phase := 0\<rparr>"

definition next_refresh :: "'i RefreshTimer \<Rightarrow> 'i" where
  "next_refresh t = next_salvo t"

definition random_offset :: "'i RefreshTimer \<Rightarrow> u32" where
  "random_offset t = (drop_bit (unat (phase t * 8)) (rt_random_seed t) AND 255) * 10"

definition update_refresh :: "('i \<Rightarrow> nat \<Rightarrow> 'i) \<Rightarrow> 'i RefreshTimer \<Rightarrow> 'i::linorder \<Rightarrow> 'i RefreshTimer" where
  "update_refresh add t now =
     (if now < next_salvo t then t
      else let period_msec = (if phase t = 3 then 800000 else 6000) + unat (random_offset t)
           in t\<lparr>next_salvo := add (next_salvo t) period_msec, phase := (phase t + 1) mod 4\<rparr>)"

definition timer_ok :: "'i RefreshTimer \<Rightarrow> bool" where
  "timer_ok t \<longleftrightarrow> phase t < 4"

lemma random_offset_bound: "unat (random_offset t) \<le> 2550"
proof -
  let ?r = "drop_bit (unat (phase t * 8)) (rt_random_seed t) AND 255 :: u32"
  have "?r \<le> 255" by (rule word_and_le1)
  then have "unat ?r \<le> 255" by (simp add: word_le_nat_alt)
  then show ?thesis by (simp add: random_offset_def unat_word_ariths)
qed

lemma timer_ok_update: "timer_ok t \<Longrightarrow> timer_ok (update_refresh add t now)"
  by (simp add: timer_ok_def update_refresh_def Let_def word_less_nat_alt unat_mod)

lemma timer_ok_new: "timer_ok (refresh_timer_new s now)" "timer_ok (refresh_timer_reset t now)"
  by (simp_all add: timer_ok_def refresh_timer_new_def refresh_timer_reset_def)

lemma update_early: "now < next_salvo t \<Longrightarrow> update_refresh add t now = t"
  by (simp add: update_refresh_def)

lemma update_due:
  "next_salvo t \<le> now \<Longrightarrow> next_salvo (update_refresh add t now) =
     add (next_salvo t) ((if phase t = 3 then 800000 else 6000) + unat (random_offset t)) \<and>
     phase (update_refresh add t now) = (phase t + 1) mod 4"
  by (auto simp: update_refresh_def Let_def not_less [symmetric])

text \<open>Running the timer: an update at each of a sequence of moments that are due.\<close>

fun run_timer :: "('i \<Rightarrow> nat \<Rightarrow> 'i) \<Rightarrow> nat \<Rightarrow> 'i::linorder RefreshTimer \<Rightarrow> 'i RefreshTimer" where
  "run_timer add 0 t = t"
| "run_timer add (Suc n) t = run_timer add n (update_refresh add t (next_salvo t))"

section \<open>Properties\<close>

text \<open>C32: the schedule is a salvo of four transmissions 6 to 8.55 seconds apart, and then a pause of 800 to
802.55 seconds: if the timer is updated whenever it is due, then after four updates, from the start of
a salvo, it is at the start of a salvo again, and the next transmission is scheduled the sum of three
short periods and a long one later. An update before its time changes nothing.\<close>

theorem refresh_schedule:
  assumes "phase t = 0" and "\<And>x m n. add (add x m) n = add x (m + n)"
  shows "(\<exists>a b c d. a \<in> {6000..8550} \<and> b \<in> {6000..8550} \<and> c \<in> {6000..8550} \<and> d \<in> {800000..802550} \<and>
      next_salvo (run_timer add 1 t) = add (next_salvo t) a \<and>
      next_salvo (run_timer add 2 t) = add (next_salvo t) (a + b) \<and>
      next_salvo (run_timer add 3 t) = add (next_salvo t) (a + b + c) \<and>
      next_salvo (run_timer add 4 t) = add (next_salvo t) (a + b + c + d)) \<and>
    phase (run_timer add 4 t) = 0 \<and> (now < next_salvo t \<longrightarrow> update_refresh add t now = t)"
proof -
  define t1 t2 t3 t4 where "t1 = update_refresh add t (next_salvo t)" and "t2 = update_refresh add t1 (next_salvo t1)"
    and "t3 = update_refresh add t2 (next_salvo t2)" and "t4 = update_refresh add t3 (next_salvo t3)"
  note due = update_due [OF order_refl, where add = add]
  have p: "phase t1 = 1" "phase t2 = 2" "phase t3 = 3" "phase t4 = 0"
    using due [of t] due [of t1] due [of t2] due [of t3] assms(1) by (simp_all add: t1_def t2_def t3_def t4_def)
  let ?o = "\<lambda>t. unat (random_offset t)"
  have n: "next_salvo t1 = add (next_salvo t) (6000 + ?o t)" "next_salvo t2 = add (next_salvo t1) (6000 + ?o t1)"
    "next_salvo t3 = add (next_salvo t2) (6000 + ?o t2)" "next_salvo t4 = add (next_salvo t3) (800000 + ?o t3)"
    using due [of t] due [of t1] due [of t2] due [of t3] assms(1) p by (simp_all add: t1_def t2_def t3_def t4_def)
  have r: "run_timer add 1 t = t1" "run_timer add 2 t = t2" "run_timer add 3 t = t3" "run_timer add 4 t = t4"
    by (simp_all add: t1_def t2_def t3_def t4_def numeral_eq_Suc)
  have "\<exists>a b c d. a \<in> {6000..8550} \<and> b \<in> {6000..8550} \<and> c \<in> {6000..8550} \<and> d \<in> {800000..802550} \<and>
      next_salvo t1 = add (next_salvo t) a \<and> next_salvo t2 = add (next_salvo t) (a + b) \<and>
      next_salvo t3 = add (next_salvo t) (a + b + c) \<and> next_salvo t4 = add (next_salvo t) (a + b + c + d)"
    using random_offset_bound [of t] random_offset_bound [of t1] random_offset_bound [of t2] random_offset_bound [of t3]
    by (intro exI [of _ "6000 + ?o t"] exI [of _ "6000 + ?o t1"] exI [of _ "6000 + ?o t2"] exI [of _ "800000 + ?o t3"])
      (simp add: n assms(2) add.assoc)
  then show ?thesis using p(4) update_early unfolding r by blast
qed

theorem refresh_schedule_witness:
  "phase (run_timer (+) 4 (refresh_timer_new 0x12345678 (100 :: nat))) = 0"
  using refresh_schedule [of "refresh_timer_new 0x12345678 (100 :: nat)" "(+)" 0]
  by (simp add: refresh_timer_new_def add.assoc)

end
