(* ===== verification/Network_Event.thy ===== *)
theory Network_Event
  imports Rust_Str
begin

text \<open>
  \<open>cotton-netif/src/network_event.rs\<close>: the events that report network interfaces and their addresses,
  and the flags of an interface. An interface index is a positive number; addresses are those of the
  \<open>no_std_net\<close> crate, which distinguish the two versions of IP.
\<close>

type_synonym InterfaceIndex = u32

datatype IpAddr = V4 u32 | V6 u128

definition is_ipv4 :: "IpAddr \<Rightarrow> bool" where
  "is_ipv4 a = (case a of V4 _ \<Rightarrow> True | V6 _ \<Rightarrow> False)"

type_synonym SocketAddr = "IpAddr \<times> u16"

datatype Flags = Flags (flag_bits: u32)

definition UP :: Flags where "UP = Flags 0x1"
definition BROADCAST :: Flags where "BROADCAST = Flags 0x2"
definition LOOPBACK :: Flags where "LOOPBACK = Flags 0x4"
definition POINTTOPOINT :: Flags where "POINTTOPOINT = Flags 0x8"
definition RUNNING :: Flags where "RUNNING = Flags 0x40"
definition MULTICAST :: Flags where "MULTICAST = Flags 0x1000"

definition flags_empty :: Flags where "flags_empty = Flags 0"

definition flags_contains :: "Flags \<Rightarrow> Flags \<Rightarrow> bool" where
  "flags_contains f other = (flag_bits f AND flag_bits other = flag_bits other)"

definition flags_or :: "Flags \<Rightarrow> Flags \<Rightarrow> Flags" where
  "flags_or f other = Flags (flag_bits f OR flag_bits other)"

datatype NetworkEvent =
    NewLink InterfaceIndex str Flags
  | DelLink InterfaceIndex
  | NewAddr InterfaceIndex IpAddr u8
  | DelAddr InterfaceIndex IpAddr u8

text \<open>The errors of \<open>std::io\<close>: numbers from the system, or a kind.\<close>

datatype IoError = OsError nat | IoInvalidData | IoUnsupported | IoOther

lemma flags_contains_or:
  "flags_contains f (flags_or a b) \<longleftrightarrow> flags_contains f a \<and> flags_contains f b"
proof -
  have "flags_contains f a \<longleftrightarrow> (\<forall>i. bit (flag_bits a) i \<longrightarrow> bit (flag_bits f) i)" for f a
    unfolding flags_contains_def by (metis bit_and_iff bit_word_eqI)
  then show ?thesis by (auto simp: flags_or_def bit_or_iff)
qed

end
