(* ===== verification/Btree_Map.thy ===== *)
theory Btree_Map
  imports Prelude
begin

text \<open>
  The standard library's \<open>BTreeMap\<close>, whose iteration is in the order of the keys: an association list
  with ascending keys. The locale \<open>ordered_map\<close> states what users of such a map rely on.
\<close>

type_synonym ('k, 'v) btree = "('k \<times> 'v) list"

fun bt_insert :: "'k::linorder \<Rightarrow> 'v \<Rightarrow> ('k, 'v) btree \<Rightarrow> ('k, 'v) btree" where
  "bt_insert k v [] = [(k, v)]"
| "bt_insert k v ((k', v') # m) =
     (if k < k' then (k, v) # (k', v') # m else if k = k' then (k, v) # m else (k', v') # bt_insert k v m)"

definition bt_get :: "'k \<Rightarrow> ('k, 'v) btree \<Rightarrow> 'v option" where
  "bt_get k m = map_of m k"

definition bt_remove :: "'k \<Rightarrow> ('k, 'v) btree \<Rightarrow> ('k, 'v) btree" where
  "bt_remove k m = filter (\<lambda>kv. fst kv \<noteq> k) m"

text \<open>A change of the value behind \<open>get_mut\<close>, and of all values by an iteration that may change them.\<close>

definition bt_modify :: "'k \<Rightarrow> ('v \<Rightarrow> 'v) \<Rightarrow> ('k, 'v) btree \<Rightarrow> ('k, 'v) btree" where
  "bt_modify k f m = map (\<lambda>(k', v). if k' = k then (k', f v) else (k', v)) m"

definition bt_map :: "('k \<Rightarrow> 'v \<Rightarrow> 'v) \<Rightarrow> ('k, 'v) btree \<Rightarrow> ('k, 'v) btree" where
  "bt_map f m = map (\<lambda>(k, v). (k, f k v)) m"

definition bt_wf :: "('k::linorder, 'v) btree \<Rightarrow> bool" where
  "bt_wf m \<longleftrightarrow> sorted_wrt (<) (map fst m)"

locale ordered_map =
  fixes empty :: "('k::linorder, 'v) btree"
    and insert :: "'k \<Rightarrow> 'v \<Rightarrow> ('k, 'v) btree \<Rightarrow> ('k, 'v) btree"
    and get :: "'k \<Rightarrow> ('k, 'v) btree \<Rightarrow> 'v option"
    and remove :: "'k \<Rightarrow> ('k, 'v) btree \<Rightarrow> ('k, 'v) btree"
    and wf :: "('k, 'v) btree \<Rightarrow> bool"
  assumes wf_empty: "wf empty"
    and wf_insert: "wf m \<Longrightarrow> wf (insert k v m)"
    and wf_remove: "wf m \<Longrightarrow> wf (remove k m)"
    and get_empty: "get k empty = None"
    and get_insert: "wf m \<Longrightarrow> get k' (insert k v m) = (if k' = k then Some v else get k' m)"
    and get_remove: "get k' (remove k m) = (if k' = k then None else get k' m)"
    and set_get: "wf m \<Longrightarrow> (k, v) \<in> set m \<longleftrightarrow> get k m = Some v"
begin

definition keys :: "('k, 'v) btree \<Rightarrow> 'k set" where
  "keys m = {k. get k m \<noteq> None}"

lemma keys_insert: "wf m \<Longrightarrow> keys (insert k v m) = {k} \<union> keys m"
  by (auto simp: keys_def get_insert)

lemma keys_remove: "keys (remove k m) = keys m - {k}"
  by (auto simp: keys_def get_remove)

lemma set_insert: "wf m \<Longrightarrow> set (insert k v m) = {(k, v)} \<union> {kv \<in> set m. fst kv \<noteq> k}"
  using wf_insert by (auto simp: set_get get_insert split: if_splits)

lemma set_remove: "wf m \<Longrightarrow> set (remove k m) = {kv \<in> set m. fst kv \<noteq> k}"
  using wf_remove by (auto simp: set_get get_remove split: if_splits)

end

lemma bt_insert_keys: "set (map fst (bt_insert k v m)) = Set.insert k (set (map fst m))"
  by (induction k v m rule: bt_insert.induct) auto

lemma bt_get_insert: "bt_wf m \<Longrightarrow> bt_get k' (bt_insert k v m) = (if k' = k then Some v else bt_get k' m)"
proof (induction k v m rule: bt_insert.induct)
  case (2 k v k1 v1 m)
  then have "bt_wf m" by (simp add: bt_wf_def)
  with 2 show ?case by (auto simp: bt_get_def)
qed (simp add: bt_get_def)

lemma bt_wf_insert: "bt_wf m \<Longrightarrow> bt_wf (bt_insert k v m)"
proof (induction k v m rule: bt_insert.induct)
  case (2 k v k1 v1 m)
  then have m: "bt_wf m" "\<forall>x\<in>set (map fst m). k1 < x" by (simp_all add: bt_wf_def)
  have "\<forall>x\<in>set (map fst (bt_insert k v m)). k1 < x" if "k1 < k"
    using m(2) that unfolding bt_insert_keys by auto
  with 2 m show ?case by (auto simp: bt_wf_def)
qed (simp add: bt_wf_def)

lemma bt_wf_distinct: "bt_wf m \<Longrightarrow> distinct (map fst m)"
  by (simp add: bt_wf_def strict_sorted_iff)

lemma bt_get_remove: "bt_get k' (bt_remove k m) = (if k' = k then None else bt_get k' m)"
  by (induction m) (auto simp: bt_get_def bt_remove_def)

interpretation bt: ordered_map "[]" bt_insert bt_get bt_remove bt_wf
proof
  show "bt_wf (bt_remove k m)" if "bt_wf m" for k m
    using that by (induction m) (auto simp: bt_wf_def bt_remove_def)
  show "(k, v) \<in> set m \<longleftrightarrow> bt_get k m = Some v" if "bt_wf m" for k v m
    using bt_wf_distinct [OF that] by (auto simp: bt_get_def)
qed (simp_all add: bt_get_insert bt_wf_insert bt_get_remove, simp_all add: bt_get_def bt_wf_def)

lemma bt_modify_keys [simp]: "map fst (bt_modify k f m) = map fst m"
  by (simp add: bt_modify_def split_beta comp_def if_distrib [of fst] cong: if_cong)

lemma bt_map_keys [simp]: "map fst (bt_map f m) = map fst m"
  by (simp add: bt_map_def split_beta comp_def)

lemma bt_wf_modify [simp]: "bt_wf (bt_modify k f m) = bt_wf m" and bt_wf_map [simp]: "bt_wf (bt_map g m) = bt_wf m"
  by (simp_all add: bt_wf_def)

lemma bt_get_modify: "bt_get k' (bt_modify k f m) = (if k' = k then map_option f (bt_get k m) else bt_get k' m)"
  by (induction m) (auto simp: bt_get_def bt_modify_def)

lemma bt_get_map: "bt_get k (bt_map f m) = map_option (f k) (bt_get k m)"
  by (induction m) (auto simp: bt_get_def bt_map_def)

lemma bt_keys_modify [simp]: "bt.keys (bt_modify k f m) = bt.keys m"
  by (auto simp: bt.keys_def bt_get_modify split: if_splits)

end
