(* ===== verification/Ssdp_Engine.thy ===== *)
theory Ssdp_Engine
  imports Ssdp_Message Refresh_Timer Network_Event Btree_Map
begin

text \<open>
  \<open>cotton-ssdp/src/engine.rs\<close> with \<open>event.rs\<close>: the SSDP engine. An operation returns the new state and
  what it did to the outside, in order: datagrams sent, callbacks made, multicast groups joined and
  left. Parameters stand for what is not in the repository: \<open>add\<close> adds milliseconds to a moment in
  time, \<open>show_ip\<close> is the \<open>Display\<close> of an address, \<open>ins\<close> is the insertion of a slot map, and \<open>mc\<close>
  gives the results of the system calls for multicast groups. A \<open>usize\<close> has 64 bits.
\<close>

section \<open>Matching and rewriting\<close>

definition usize_MAX :: nat where "usize_MAX = 2 ^ 64 - 1"

definition target_match :: "str \<Rightarrow> str \<Rightarrow> bool" where
  "target_match search candidate =
     (if search = lit ''ssdp:all'' then True
      else if search = candidate then True
      else
        case rsplit_once 58 search of
          None \<Rightarrow> False
        | Some (sbase, sversion) \<Rightarrow>
            (case rsplit_once 58 candidate of
               None \<Rightarrow> False
             | Some (cbase, cversion) \<Rightarrow>
                 if sbase = cbase then
                   (case parse_uint usize_MAX sversion of
                      None \<Rightarrow> False
                    | Some sv \<Rightarrow> (case parse_uint usize_MAX cversion of None \<Rightarrow> False | Some cv \<Rightarrow> cv \<ge> sv))
                 else False))"

definition rewrite_host :: "(IpAddr \<Rightarrow> str) \<Rightarrow> str \<Rightarrow> IpAddr \<Rightarrow> str" where
  "rewrite_host show_ip url ip =
     (case find_str (lit ''://'') url of
        None \<Rightarrow> url
      | Some prefix \<Rightarrow>
          let rest = drop (prefix + 3) url; start = take (prefix + 3) url @ show_ip ip in
          (case find_str (lit ''/'') rest of
             None \<Rightarrow> start
           | Some slash \<Rightarrow>
               (case find_str (lit '':'') rest of
                  Some colon \<Rightarrow> if colon < slash then start @ drop (colon + prefix + 3) url
                                else start @ drop (slash + prefix + 3) url
                | None \<Rightarrow> start @ drop (slash + prefix + 3) url)))"

section \<open>State\<close>

datatype Notification =
    Alive (n_notification_type: str) (n_unique_service_name: str) (n_location: str)
  | ByeBye (n_notification_type: str) (n_unique_service_name: str)

record Advertisement =
  ad_notification_type :: str
  ad_location :: str

record Interface =
  ips :: "IpAddr list"
  up :: bool

record 'cb ActiveSearch =
  as_notification_type :: str
  as_callback :: 'cb

datatype 'i ResponseNeeded = ResponseNone | Multicast 'i | Unicast 'i SocketAddr IpAddr str

record 'i ActiveAdvertisement =
  advertisement :: Advertisement
  response_needed :: "'i ResponseNeeded"

record ('cb, 'i) Engine =
  interfaces :: "(InterfaceIndex, Interface) btree"
  active_searches :: "'cb ActiveSearch list"
  advertisements :: "(str, 'i ActiveAdvertisement) btree"
  refresh_timer :: "'i RefreshTimer"
  random_seed :: u32

record Datagram =
  dg_to :: SocketAddr
  dg_from :: IpAddr
  dg_bytes :: "u8 list"

datatype 'cb Output =
    Sent Datagram
  | Called 'cb Notification
  | JoinGroup InterfaceIndex
  | LeaveGroup InterfaceIndex

definition MAX_PACKET_SIZE :: nat where "MAX_PACKET_SIZE = 512"

definition ssdp_group :: SocketAddr where "ssdp_group = (V4 0xEFFFFFFA, 1900)"

text \<open>\<open>send_with\<close>: the packet is written into a zeroed buffer of the given size; errors of it are ignored.\<close>

definition send_with :: "nat \<Rightarrow> SocketAddr \<Rightarrow> IpAddr \<Rightarrow> (u8 list \<Rightarrow> u8 list \<times> nat) \<Rightarrow> 'cb Output" where
  "send_with sz dst src f =
     (let (b, n) = f (replicate sz 0) in Sent \<lparr>dg_to = dst, dg_from = src, dg_bytes = take n b\<rparr>)"

section \<open>Sending\<close>

definition notify_on :: "(IpAddr \<Rightarrow> str) \<Rightarrow> 'i ActiveAdvertisement \<Rightarrow> str \<Rightarrow> IpAddr \<Rightarrow> 'cb Output" where
  "notify_on show_ip a usn source =
     send_with MAX_PACKET_SIZE ssdp_group source
       (\<lambda>b. build_notify b (ad_notification_type (advertisement a)) usn
              (rewrite_host show_ip (ad_location (advertisement a)) source))"

text \<open>The loops over the addresses of all interfaces that are up.\<close>

definition up_ips :: "(InterfaceIndex, Interface) btree \<Rightarrow> IpAddr list" where
  "up_ips ifs = concat (map (\<lambda>(_, i). if up i then ips i else []) ifs)"

definition notify_on_all ::
    "(IpAddr \<Rightarrow> str) \<Rightarrow> 'i ActiveAdvertisement \<Rightarrow> str \<Rightarrow> (InterfaceIndex, Interface) btree \<Rightarrow> 'cb Output list" where
  "notify_on_all show_ip a usn ifs = map (notify_on show_ip a usn) (up_ips ifs)"

definition search_on :: "str \<Rightarrow> IpAddr \<Rightarrow> 'cb Output" where
  "search_on search_type source =
     send_with MAX_PACKET_SIZE ssdp_group source (\<lambda>b. build_search b search_type)"

definition search_on_all :: "('cb, 'i) Engine \<Rightarrow> str \<Rightarrow> 'cb Output list" where
  "search_on_all e search_type = map (search_on search_type) (up_ips (interfaces e))"

definition send_response :: "(IpAddr \<Rightarrow> str) \<Rightarrow> IpAddr \<Rightarrow> SocketAddr \<Rightarrow> str \<Rightarrow> str \<Rightarrow> str \<Rightarrow> 'cb Output" where
  "send_response show_ip wasto wasfrom service_name response_type loc =
     send_with MAX_PACKET_SIZE wasfrom wasto
       (\<lambda>b. build_response b response_type service_name (rewrite_host show_ip loc wasto))"

text \<open>\<open>byebye_on\<close> passes its two strings on to \<open>build_byebye\<close> in the order it takes them.\<close>

definition byebye_on :: "str \<Rightarrow> str \<Rightarrow> IpAddr \<Rightarrow> 'cb Output" where
  "byebye_on usn nt source =
     send_with MAX_PACKET_SIZE ssdp_group source (\<lambda>b. build_byebye b usn nt)"

definition byebye_on_all :: "('cb, 'i) Engine \<Rightarrow> str \<Rightarrow> str \<Rightarrow> 'cb Output list" where
  "byebye_on_all e nt usn = map (byebye_on nt usn) (up_ips (interfaces e))"

definition searches_all :: "('cb, 'i) Engine \<Rightarrow> bool" where
  "searches_all e = list_ex (\<lambda>x. as_notification_type x = lit ''ssdp:all'') (active_searches e)"

definition send_all :: "(IpAddr \<Rightarrow> str) \<Rightarrow> ('cb, 'i) Engine \<Rightarrow> IpAddr list \<Rightarrow> 'cb Output list" where
  "send_all show_ip e addrs = concat (map (\<lambda>ip.
     (if searches_all e then [search_on (lit ''ssdp:all'') ip]
      else map (\<lambda>s. search_on (as_notification_type s) ip) (active_searches e)) @
     map (\<lambda>(key, val). notify_on show_ip val key ip) (advertisements e)) addrs)"

section \<open>Operations\<close>

definition engine_new :: "u32 \<Rightarrow> 'i \<Rightarrow> ('cb, 'i) Engine" where
  "engine_new seed now =
     \<lparr>interfaces = [], active_searches = [], advertisements = [],
      refresh_timer = refresh_timer_new seed now, random_seed = seed\<rparr>"

definition refresh :: "(IpAddr \<Rightarrow> str) \<Rightarrow> ('cb, 'i) Engine \<Rightarrow> 'cb Output list" where
  "refresh show_ip e =
     concat (map (\<lambda>(key, val). notify_on_all show_ip val key (interfaces e)) (advertisements e)) @
     (if searches_all e then search_on_all e (lit ''ssdp:all'')
      else concat (map (\<lambda>s. search_on_all e (as_notification_type s)) (active_searches e)))"

text \<open>One round of the loop of \<open>handle_timeout\<close>: the advertisement afterwards, and what is sent.\<close>

definition respond ::
    "(IpAddr \<Rightarrow> str) \<Rightarrow> (InterfaceIndex, Interface) btree \<Rightarrow> 'i::linorder \<Rightarrow> str \<Rightarrow> 'i ActiveAdvertisement \<Rightarrow>
       'i ActiveAdvertisement \<times> 'cb Output list" where
  "respond show_ip ifs now key val =
     (case response_needed val of
        Multicast instant \<Rightarrow>
          if now \<ge> instant
          then (val\<lparr>response_needed := ResponseNone\<rparr>, notify_on_all show_ip val key ifs) else (val, [])
      | Unicast instant wasfrom wasto response_type \<Rightarrow>
          if now \<ge> instant
          then (val\<lparr>response_needed := ResponseNone\<rparr>,
                [send_response show_ip wasto wasfrom key response_type (ad_location (advertisement val))])
          else (val, [])
      | ResponseNone \<Rightarrow> (val, []))"

definition handle_timeout ::
    "('i \<Rightarrow> nat \<Rightarrow> 'i) \<Rightarrow> (IpAddr \<Rightarrow> str) \<Rightarrow> 'i::linorder \<Rightarrow> ('cb, 'i) Engine \<Rightarrow> ('cb, 'i) Engine \<times> 'cb Output list" where
  "handle_timeout add show_ip now e =
     (let (e1, out) =
        (if now \<ge> next_refresh (refresh_timer e)
         then (e\<lparr>refresh_timer := update_refresh add (refresh_timer e) now\<rparr>, refresh show_ip e) else (e, []))
      in (e1\<lparr>advertisements := bt_map (\<lambda>key val. fst (respond show_ip (interfaces e1) now key val :: _ \<times> 'cb Output list))
            (advertisements e1)\<rparr>,
          out @ concat (map (\<lambda>(key, val). snd (respond show_ip (interfaces e1) now key val)) (advertisements e1))))"

definition wake_of :: "'i ActiveAdvertisement \<Rightarrow> 'i option" where
  "wake_of val =
     (case response_needed val of Multicast i \<Rightarrow> Some i | Unicast i _ _ _ \<Rightarrow> Some i | ResponseNone \<Rightarrow> None)"

definition poll_timeout :: "('cb, 'i::linorder) Engine \<Rightarrow> 'i" where
  "poll_timeout e =
     foldl (\<lambda>next_wake (_, val). case wake_of val of Some i \<Rightarrow> min next_wake i | None \<Rightarrow> next_wake)
       (next_refresh (refresh_timer e)) (advertisements e)"

definition reset_refresh_timer :: "'i \<Rightarrow> ('cb, 'i) Engine \<Rightarrow> ('cb, 'i) Engine" where
  "reset_refresh_timer now e = e\<lparr>refresh_timer := refresh_timer_reset (refresh_timer e) now\<rparr>"

definition subscribe ::
    "('cb ActiveSearch list \<Rightarrow> 'cb ActiveSearch \<Rightarrow> 'cb ActiveSearch list) \<Rightarrow> str \<Rightarrow> 'cb \<Rightarrow> ('cb, 'i) Engine \<Rightarrow>
       ('cb, 'i) Engine \<times> 'cb Output list" where
  "subscribe ins nt cb e =
     (e\<lparr>active_searches := ins (active_searches e) \<lparr>as_notification_type = nt, as_callback = cb\<rparr>\<rparr>,
      search_on_all e nt)"

definition call_subscribers :: "('cb, 'i) Engine \<Rightarrow> Notification \<Rightarrow> 'cb Output list" where
  "call_subscribers e n =
     map (\<lambda>s. Called (as_callback s) n)
       (filter (\<lambda>s. target_match (as_notification_type s) (n_notification_type n)) (active_searches e))"

text \<open>What a search does to one advertisement.\<close>

definition schedule_response ::
    "'i \<Rightarrow> str \<Rightarrow> IpAddr \<Rightarrow> SocketAddr \<Rightarrow> 'i ActiveAdvertisement \<Rightarrow> 'i ActiveAdvertisement" where
  "schedule_response reply_at st wasto wasfrom val =
     (if target_match st (ad_notification_type (advertisement val)) then
        (case response_needed val of
           ResponseNone \<Rightarrow>
             val\<lparr>response_needed := Unicast reply_at wasfrom wasto
               (if st = lit ''ssdp:all'' then ad_notification_type (advertisement val) else st)\<rparr>
         | Unicast instant previous_from _ _ \<Rightarrow>
             if wasfrom \<noteq> previous_from then val\<lparr>response_needed := Multicast instant\<rparr> else val
         | Multicast _ \<Rightarrow> val)
      else val)"

definition max_delay_ms :: "u8 \<Rightarrow> nat" where
  "max_delay_ms mx = min (unat mx * 1000) 5000"

text \<open>The remainder by the maximal delay panics when that is 0.\<close>

definition on_data ::
    "('i \<Rightarrow> nat \<Rightarrow> 'i) \<Rightarrow> u8 list \<Rightarrow> IpAddr \<Rightarrow> SocketAddr \<Rightarrow> 'i \<Rightarrow> ('cb, 'i) Engine \<Rightarrow>
       (('cb, 'i) Engine \<times> 'cb Output list) outcome" where
  "on_data add buf wasto wasfrom now e =
     (case parse buf of
        Inl _ \<Rightarrow> Ret (e, [])
      | Inr (NotifyAlive nt usn loc) \<Rightarrow> Ret (e, call_subscribers e (Alive nt usn loc))
      | Inr (NotifyByeBye nt usn) \<Rightarrow> Ret (e, call_subscribers e (ByeBye nt usn))
      | Inr (Search st mx) \<Rightarrow>
          if max_delay_ms mx = 0 then Panic
          else
            let delay_ms = unat (random_seed e) mod max_delay_ms mx + 10; reply_at = add now delay_ms in
            Ret (e\<lparr>advertisements := bt_map (\<lambda>_. schedule_response reply_at st wasto wasfrom) (advertisements e)\<rparr>, [])
      | Inr (Response st usn loc) \<Rightarrow> Ret (e, call_subscribers e (Alive st usn loc)))"

section \<open>Interfaces\<close>

text \<open>\<open>cotton-ssdp/src/udp/error.rs\<close>; the errors of smoltcp are numbers.\<close>

datatype Syscall = Recvmsg | Sendmsg | JoinMulticast | LeaveMulticast

datatype UdpError =
    NoPacketInfo | Ipv6NotImplemented | NotImplemented
  | SyscallError Syscall IoError | SmoltcpMulticast Syscall nat | SmoltcpUdpSend nat

definition on_new_link_event ::
    "(IpAddr \<Rightarrow> str) \<Rightarrow> (InterfaceIndex \<Rightarrow> bool \<Rightarrow> (UdpError, unit) result) \<Rightarrow> InterfaceIndex \<Rightarrow> Flags \<Rightarrow>
       ('cb, 'i) Engine \<Rightarrow> ('cb, 'i) Engine \<times> (UdpError, unit) result \<times> 'cb Output list" where
  "on_new_link_event show_ip mc ix flags e =
     (if flags_contains flags MULTICAST then
        let u = flags_contains flags (flags_or RUNNING UP) in
        (case bt_get ix (interfaces e) of
           Some v \<Rightarrow>
             let e' = e\<lparr>interfaces := bt_modify ix (\<lambda>v. v\<lparr>up := u\<rparr>) (interfaces e)\<rparr> in
             (e', Ok (), if u \<and> \<not> up v then send_all show_ip e' (ips v) else [])
         | None \<Rightarrow>
             (case mc ix True of
                Inl err \<Rightarrow> (e, Err err, [JoinGroup ix])
              | Inr _ \<Rightarrow> (e\<lparr>interfaces := bt_insert ix \<lparr>ips = [], up = u\<rparr> (interfaces e)\<rparr>, Ok (), [JoinGroup ix])))
      else (e, Ok (), []))"

definition on_del_link_event ::
    "(InterfaceIndex \<Rightarrow> bool \<Rightarrow> (UdpError, unit) result) \<Rightarrow> InterfaceIndex \<Rightarrow>
       ('cb, 'i) Engine \<Rightarrow> ('cb, 'i) Engine \<times> (UdpError, unit) result \<times> 'cb Output list" where
  "on_del_link_event mc ix e =
     (case bt_get ix (interfaces e) of
        Some _ \<Rightarrow> (e\<lparr>interfaces := bt_remove ix (interfaces e)\<rparr>, mc ix False, [LeaveGroup ix])
      | None \<Rightarrow> (e, Ok (), []))"

definition on_new_addr_event ::
    "(IpAddr \<Rightarrow> str) \<Rightarrow> InterfaceIndex \<Rightarrow> IpAddr \<Rightarrow> ('cb, 'i) Engine \<Rightarrow> ('cb, 'i) Engine \<times> 'cb Output list" where
  "on_new_addr_event show_ip ix a e =
     (if is_ipv4 a then
        (case bt_get ix (interfaces e) of
           Some v \<Rightarrow>
             if a \<notin> set (ips v) then
               let e' = e\<lparr>interfaces := bt_modify ix (\<lambda>v. v\<lparr>ips := ips v @ [a]\<rparr>) (interfaces e)\<rparr> in
               (e', if up v then send_all show_ip e' [a] else [])
             else (e, [])
         | None \<Rightarrow> (e, []))
      else (e, []))"

text \<open>\<open>position\<close> and \<open>swap_remove\<close> of vectors.\<close>

fun position :: "'a \<Rightarrow> 'a list \<Rightarrow> nat option" where
  "position a [] = None"
| "position a (x # xs) = (if x = a then Some 0 else map_option Suc (position a xs))"

definition swap_remove :: "nat \<Rightarrow> 'a list \<Rightarrow> 'a list" where
  "swap_remove n xs = (if n = length xs - 1 then butlast xs else (butlast xs)[n := last xs])"

definition on_del_addr_event :: "InterfaceIndex \<Rightarrow> IpAddr \<Rightarrow> ('cb, 'i) Engine \<Rightarrow> ('cb, 'i) Engine" where
  "on_del_addr_event ix a e =
     e\<lparr>interfaces := bt_modify ix (\<lambda>v. case position a (ips v) of
         Some n \<Rightarrow> v\<lparr>ips := swap_remove n (ips v)\<rparr> | None \<Rightarrow> v) (interfaces e)\<rparr>"

definition on_network_event ::
    "(IpAddr \<Rightarrow> str) \<Rightarrow> (InterfaceIndex \<Rightarrow> bool \<Rightarrow> (UdpError, unit) result) \<Rightarrow> NetworkEvent \<Rightarrow>
       ('cb, 'i) Engine \<Rightarrow> ('cb, 'i) Engine \<times> (UdpError, unit) result \<times> 'cb Output list" where
  "on_network_event show_ip mc ev e =
     (case ev of
        NewLink ix _ flags \<Rightarrow> on_new_link_event show_ip mc ix flags e
      | DelLink ix \<Rightarrow> on_del_link_event mc ix e
      | NewAddr ix a _ \<Rightarrow> (case on_new_addr_event show_ip ix a e of (e', out) \<Rightarrow> (e', Ok (), out))
      | DelAddr ix a _ \<Rightarrow> (on_del_addr_event ix a e, Ok (), []))"

section \<open>Advertisements\<close>

definition advertise ::
    "(IpAddr \<Rightarrow> str) \<Rightarrow> str \<Rightarrow> Advertisement \<Rightarrow> ('cb, 'i) Engine \<Rightarrow> ('cb, 'i) Engine \<times> 'cb Output list" where
  "advertise show_ip usn a e =
     (let active = \<lparr>advertisement = a, response_needed = ResponseNone\<rparr> in
      (e\<lparr>advertisements := bt_insert usn active (advertisements e)\<rparr>,
       notify_on_all show_ip active usn (interfaces e)))"

definition deadvertise :: "str \<Rightarrow> ('cb, 'i) Engine \<Rightarrow> ('cb, 'i) Engine \<times> 'cb Output list" where
  "deadvertise usn e =
     (case bt_get usn (advertisements e) of
        Some a \<Rightarrow>
          (e\<lparr>advertisements := bt_remove usn (advertisements e)\<rparr>,
           byebye_on_all e (ad_notification_type (advertisement a)) usn)
      | None \<Rightarrow> (e, []))"

section \<open>Matching and rewriting, in other words\<close>

lemma target_match_cases:
  "target_match s c \<longleftrightarrow> s = lit ''ssdp:all'' \<or> s = c \<or>
     (\<exists>b sv cv m n. (s = b @ 58 # sv \<and> 58 \<notin> set sv) \<and> (c = b @ 58 # cv \<and> 58 \<notin> set cv) \<and>
        parse_uint usize_MAX sv = Some m \<and> parse_uint usize_MAX cv = Some n \<and> m \<le> n)"
proof -
  have eq: "(case rsplit_once 58 s of None \<Rightarrow> False
        | Some (sbase, sversion) \<Rightarrow>
            (case rsplit_once 58 c of None \<Rightarrow> False
             | Some (cbase, cversion) \<Rightarrow>
                 if sbase = cbase then
                   (case parse_uint usize_MAX sversion of None \<Rightarrow> False
                    | Some sv \<Rightarrow> (case parse_uint usize_MAX cversion of None \<Rightarrow> False | Some cv \<Rightarrow> cv \<ge> sv))
                 else False)) \<longleftrightarrow>
    (\<exists>b sv cv m n. rsplit_once 58 s = Some (b, sv) \<and> rsplit_once 58 c = Some (b, cv) \<and>
        parse_uint usize_MAX sv = Some m \<and> parse_uint usize_MAX cv = Some n \<and> m \<le> n)"
    by (auto split: option.splits prod.splits)
  show ?thesis unfolding target_match_def eq unfolding rsplit_once_Some_iff by argo
qed

lemma lit_chars: "lit ''/'' = [47]" "lit '':'' = [58]" "lit ''://'' = [58, 47, 47]"
  by (simp_all add: lit_def)

lemma find_char: "find_str [c] s = (if c \<in> set s then Some (length (takeWhile (\<lambda>x. x \<noteq> c) s)) else None)"
  by (induction s) auto

lemma find_scheme: "58 \<notin> set scheme \<Longrightarrow> find_str [58, 47, 47] (scheme @ [58, 47, 47] @ rest) = Some (length scheme)"
  by (induction scheme) auto

lemma takeWhile_host:
  assumes "c \<notin> set host" and "tail \<noteq> []" and "hd tail = c"
  shows "takeWhile (\<lambda>x. x \<noteq> c) (host @ tail) = host"
  using assms takeWhile_neq [of c host "tl tail"] by (cases tail) auto

lemma rewrite_host_cases:
  assumes "58 \<notin> set scheme" and "58 \<notin> set host" and "47 \<notin> set host" and "tail = [] \<or> hd tail = 58 \<or> hd tail = 47"
  shows "rewrite_host show_ip (scheme @ lit ''://'' @ host @ tail) ip =
    scheme @ lit ''://'' @ show_ip ip @ (if 47 \<in> set tail then tail else [])"
proof -
  let ?url = "scheme @ [58, 47, 47] @ host @ tail" and ?rest = "host @ tail"
  have find: "find_str [58, 47, 47] ?url = Some (length scheme)" using find_scheme [OF assms(1)] by simp
  have cut: "drop (k + length scheme + 3) ?url = drop k ?rest" for k
  proof -
    have "drop (k + length scheme + 3) ?url = drop k (drop (length scheme + 3) ?url)"
      by (simp only: drop_drop add.assoc)
    then show ?thesis by simp
  qed
  show ?thesis
  proof (cases "47 \<in> set tail")
    case False
    then show ?thesis using find assms(3) by (simp add: rewrite_host_def lit_chars find_char Let_def)
  next
    case True
    then have t: "tail \<noteq> []" by auto
    let ?slash = "length (takeWhile (\<lambda>x. x \<noteq> 47) ?rest)" and ?colon = "length (takeWhile (\<lambda>x. x \<noteq> 58) ?rest)"
    have slash: "?slash = length host + length (takeWhile (\<lambda>x. x \<noteq> 47) tail)"
      using assms(3) by (subst takeWhile_append2) auto
    show ?thesis
    proof (cases "hd tail = 58")
      case colon: True
      then have "?colon = length host" using takeWhile_host [OF assms(2) t] by simp
      moreover have "58 \<in> set tail" using colon t by (metis hd_in_set)
      moreover have "0 < length (takeWhile (\<lambda>x. x \<noteq> 47) tail)" using colon t by (cases tail) auto
      ultimately show ?thesis
        using True find slash cut by (simp add: rewrite_host_def lit_chars find_char Let_def add.assoc)
    next
      case False
      then have "hd tail = 47" using assms(4) t by blast
      then have "?slash = length host" "\<not> ?colon < ?slash"
        using takeWhile_host [OF assms(3) t] assms(2) by (simp_all, subst takeWhile_append2) auto
      then show ?thesis
        using True find cut by (simp add: rewrite_host_def lit_chars find_char Let_def add.assoc)
    qed
  qed
qed

section \<open>Invariant\<close>

definition interface_ok :: "Interface \<Rightarrow> bool" where
  "interface_ok i \<longleftrightarrow> distinct (ips i) \<and> (\<forall>a\<in>set (ips i). is_ipv4 a)"

definition engine_ok :: "('cb, 'i) Engine \<Rightarrow> bool" where
  "engine_ok e \<longleftrightarrow> bt_wf (interfaces e) \<and> bt_wf (advertisements e) \<and> timer_ok (refresh_timer e) \<and>
     (\<forall>ix i. bt_get ix (interfaces e) = Some i \<longrightarrow> interface_ok i)"

lemma position_Some: "position a xs = Some n \<Longrightarrow> n < length xs \<and> xs ! n = a"
  by (induction xs arbitrary: n) (auto split: if_splits)

lemma position_None: "position a xs = None \<longleftrightarrow> a \<notin> set xs"
  by (induction xs) auto

lemma swap_remove_set:
  assumes "n < length xs" and "distinct xs"
  shows "distinct (swap_remove n xs) \<and> set (swap_remove n xs) = set xs - {xs ! n}"
proof -
  obtain ys y where xs: "xs = ys @ [y]" using assms(1) by (cases xs rule: rev_cases) auto
  show ?thesis
  proof (cases "n = length ys")
    case True
    then show ?thesis using assms(2) xs by (auto simp: swap_remove_def)
  next
    case False
    then have n: "n < length ys" using assms(1) xs by simp
    have "set (ys[n := y]) = insert y (set ys - {ys ! n})"
      using assms(2) n xs by (simp add: set_update_distinct)
    then show ?thesis
      using assms(2) n xs by (auto simp: swap_remove_def nth_append distinct_list_update)
  qed
qed

text \<open>What becomes of the addresses of an interface in each operation.\<close>

lemma engine_ok_new: "engine_ok (engine_new seed now)"
  by (simp add: engine_ok_def engine_new_def timer_ok_new bt.wf_empty bt.get_empty)

lemma engine_ok_timeout: "engine_ok e \<Longrightarrow> engine_ok (fst (handle_timeout add show_ip now e))"
  by (auto simp: engine_ok_def handle_timeout_def Let_def timer_ok_update)

lemma engine_ok_data: "engine_ok e \<Longrightarrow> on_data add buf wasto wasfrom now e = Ret (e', out) \<Longrightarrow> engine_ok e'"
  by (auto simp: engine_ok_def on_data_def Let_def split: sum.splits Message.splits if_splits)

lemma engine_ok_link: "engine_ok e \<Longrightarrow> engine_ok (fst (on_new_link_event show_ip mc ix flags e))"
  by (auto simp: engine_ok_def on_new_link_event_def Let_def bt_get_modify bt.get_insert bt.wf_insert interface_ok_def
      split: option.splits sum.splits if_splits)

lemma engine_ok_del_link: "engine_ok e \<Longrightarrow> engine_ok (fst (on_del_link_event mc ix e))"
  by (auto simp: engine_ok_def on_del_link_event_def bt.get_remove bt.wf_remove split: option.splits if_splits)

lemma engine_ok_addr: "engine_ok e \<Longrightarrow> engine_ok (fst (on_new_addr_event show_ip ix a e))"
  by (auto simp: engine_ok_def on_new_addr_event_def Let_def bt_get_modify interface_ok_def
      split: option.splits if_splits)

lemma interface_ok_del:
  assumes "interface_ok v"
  shows "interface_ok (case position a (ips v) of Some n \<Rightarrow> v\<lparr>ips := swap_remove n (ips v)\<rparr> | None \<Rightarrow> v)"
proof (cases "position a (ips v)")
  case (Some n)
  then have "distinct (swap_remove n (ips v)) \<and> set (swap_remove n (ips v)) = set (ips v) - {ips v ! n}"
    using swap_remove_set [of n "ips v"] position_Some [OF Some] assms by (simp add: interface_ok_def)
  then show ?thesis using Some assms by (simp add: interface_ok_def)
qed (use assms in simp)

lemma engine_ok_del_addr: "engine_ok e \<Longrightarrow> engine_ok (on_del_addr_event ix a e)"
  using interface_ok_del by (auto simp: engine_ok_def on_del_addr_event_def bt_get_modify)

lemma engine_ok_network:
  assumes "engine_ok e"
  shows "engine_ok (fst (on_network_event show_ip mc ev e))"
proof (cases ev)
  case (NewAddr ix a p)
  then show ?thesis
    using engine_ok_addr [OF assms, of show_ip ix a] by (simp add: on_network_event_def split_beta)
qed (use assms in \<open>simp_all add: on_network_event_def engine_ok_link engine_ok_del_link engine_ok_del_addr\<close>)

lemma engine_ok_advertise:
  "engine_ok e \<Longrightarrow> engine_ok (fst (advertise show_ip usn a e))" "engine_ok e \<Longrightarrow> engine_ok (fst (deadvertise usn e))"
  by (auto simp: engine_ok_def advertise_def deadvertise_def Let_def bt.wf_insert bt.wf_remove split: option.splits)

lemma on_data_Panic: "on_data add buf wasto wasfrom now e = Panic \<longleftrightarrow> (\<exists>st. parse buf = Ok (Search st 0))"
proof -
  have "max_delay_ms mx = 0 \<longleftrightarrow> mx = 0" for mx by (auto simp: max_delay_ms_def min_def unat_eq_0)
  then show ?thesis by (auto simp: on_data_def Let_def split: sum.splits Message.splits)
qed

section \<open>Multicast groups\<close>

text \<open>
  The groups an engine is a member of, and those whose leaving failed, from the calls it makes and their
  results.
\<close>

fun group_step ::
    "(InterfaceIndex \<Rightarrow> bool \<Rightarrow> (UdpError, unit) result) \<Rightarrow> InterfaceIndex set \<times> InterfaceIndex set \<Rightarrow> 'cb Output \<Rightarrow>
       InterfaceIndex set \<times> InterfaceIndex set" where
  "group_step mc (joined, stuck) (JoinGroup ix) = (if mc ix True = Ok () then insert ix joined else joined, stuck)"
| "group_step mc (joined, stuck) (LeaveGroup ix) =
     (if mc ix False = Ok () then (joined - {ix}, stuck) else (joined, insert ix stuck))"
| "group_step mc g (Sent d) = g"
| "group_step mc g (Called cb n) = g"

inductive engine_reach ::
    "('i::linorder \<Rightarrow> nat \<Rightarrow> 'i) \<Rightarrow> (IpAddr \<Rightarrow> str) \<Rightarrow>
       ('cb ActiveSearch list \<Rightarrow> 'cb ActiveSearch \<Rightarrow> 'cb ActiveSearch list) \<Rightarrow>
       ('cb, 'i) Engine \<Rightarrow> InterfaceIndex set \<times> InterfaceIndex set \<Rightarrow> bool" for add show_ip ins where
  reach_start: "engine_reach add show_ip ins (engine_new seed now) ({}, {})"
| reach_timeout: "engine_reach add show_ip ins e g \<Longrightarrow> engine_reach add show_ip ins (fst (handle_timeout add show_ip now e)) g"
| reach_reset: "engine_reach add show_ip ins e g \<Longrightarrow> engine_reach add show_ip ins (reset_refresh_timer now e) g"
| reach_subscribe: "engine_reach add show_ip ins e g \<Longrightarrow> engine_reach add show_ip ins (fst (subscribe ins nt cb e)) g"
| reach_data: "engine_reach add show_ip ins e g \<Longrightarrow> on_data add buf wasto wasfrom now e = Ret (e', out) \<Longrightarrow>
    engine_reach add show_ip ins e' g"
| reach_network: "engine_reach add show_ip ins e g \<Longrightarrow> on_network_event show_ip mc ev e = (e', r, out) \<Longrightarrow>
    engine_reach add show_ip ins e' (foldl (group_step mc) g out)"
| reach_advertise: "engine_reach add show_ip ins e g \<Longrightarrow> engine_reach add show_ip ins (fst (advertise show_ip usn a e)) g"
| reach_deadvertise: "engine_reach add show_ip ins e g \<Longrightarrow> engine_reach add show_ip ins (fst (deadvertise usn e)) g"

definition groups_ok :: "('cb, 'i) Engine \<Rightarrow> InterfaceIndex set \<times> InterfaceIndex set \<Rightarrow> bool" where
  "groups_ok e g \<longleftrightarrow> bt.keys (interfaces e) \<subseteq> fst g \<and> fst g \<subseteq> bt.keys (interfaces e) \<union> snd g"

lemma group_step_sends: "\<forall>x\<in>set out. \<exists>d. x = Sent d \<Longrightarrow> foldl (group_step mc) g out = g"
  by (induction out arbitrary: g) auto

lemma send_with_Sent: "\<exists>d. send_with n dst src f = Sent d"
  by (simp add: send_with_def split_beta)

lemma sends_Sent: "\<exists>d. search_on st ip = Sent d" "\<exists>d. notify_on show_ip val key ip = Sent d"
  unfolding search_on_def notify_on_def by (rule send_with_Sent)+

lemma send_all_Sent: "\<forall>x\<in>set (send_all show_ip e addrs). \<exists>d. x = Sent d"
  using sends_Sent by (fastforce simp: send_all_def split: if_splits)

lemmas group_step_send_all [simp] = group_step_sends [OF send_all_Sent]

lemma bt_keys_get: "ix \<in> bt.keys m \<longleftrightarrow> bt_get ix m \<noteq> None"
  by (simp add: bt.keys_def)

lemma groups_ok_network:
  assumes "engine_ok e" and "groups_ok e g" and "on_network_event show_ip mc ev e = (e', r, out)"
  shows "groups_ok e' (foldl (group_step mc) g out)"
proof -
  obtain J S where g: "g = (J, S)" by fastforce
  have wf: "bt_wf (interfaces e)" using assms(1) by (simp add: engine_ok_def)
  note ok = assms(2) [unfolded groups_ok_def g fst_conv snd_conv]
  show ?thesis
  proof (cases ev)
    case (NewLink ix name flags)
    then have "on_new_link_event show_ip mc ix flags e = (e', r, out)" using assms(3) by (simp add: on_network_event_def)
    then show ?thesis
      using ok wf
      by (auto simp: on_new_link_event_def Let_def groups_ok_def g bt.keys_insert split: if_splits option.splits sum.splits)
  next
    case (DelLink ix)
    then have "on_del_link_event mc ix e = (e', r, out)" using assms(3) by (simp add: on_network_event_def)
    then show ?thesis
      using ok by (auto simp: on_del_link_event_def groups_ok_def g bt.keys_remove split: option.splits if_splits)
  next
    case (NewAddr ix a p)
    then obtain "on_new_addr_event show_ip ix a e = (e', out)"
      using assms(3) by (auto simp: on_network_event_def split: prod.splits)
    then show ?thesis
      using ok
      by (auto simp: on_new_addr_event_def Let_def groups_ok_def g split: option.splits if_splits)
  next
    case (DelAddr ix a p)
    then show ?thesis
      using ok assms(3) by (auto simp: on_network_event_def on_del_addr_event_def groups_ok_def g)
  qed
qed

lemma engine_reach_ok: "engine_reach add show_ip ins e g \<Longrightarrow> engine_ok e \<and> groups_ok e g"
proof (induction rule: engine_reach.induct)
  case (reach_start seed now)
  show ?case
    using engine_ok_new [of seed now] by (simp add: groups_ok_def) (simp add: engine_new_def bt.keys_def bt.get_empty)
next
  case (reach_timeout e g now)
  then show ?case by (simp add: engine_ok_timeout groups_ok_def) (simp add: handle_timeout_def Let_def)
next
  case (reach_reset e g now)
  then show ?case by (simp add: engine_ok_def groups_ok_def reset_refresh_timer_def timer_ok_new)
next
  case (reach_subscribe e g nt cb)
  then show ?case by (simp add: engine_ok_def groups_ok_def subscribe_def)
next
  case (reach_data e g buf wasto wasfrom now e' out)
  then have "interfaces e' = interfaces e"
    by (auto simp: on_data_def Let_def split: sum.splits Message.splits if_splits)
  then show ?case using reach_data.IH engine_ok_data [OF _ reach_data.hyps(2)] by (simp add: groups_ok_def)
next
  case (reach_network e g mc ev e' r out)
  then show ?case
    using engine_ok_network [of e show_ip mc ev] groups_ok_network [OF _ _ reach_network.hyps(2)] by simp
next
  case (reach_advertise e g usn a)
  then show ?case by (simp add: engine_ok_advertise groups_ok_def) (simp add: advertise_def Let_def)
next
  case (reach_deadvertise e g usn)
  then show ?case by (simp add: engine_ok_advertise groups_ok_def) (auto simp: deadvertise_def split: option.splits)
qed

section \<open>Timeouts\<close>

lemma Min_insert_min: "finite S \<Longrightarrow> Min (insert (min w i) S) = Min (insert w (insert (i :: 'i::linorder) S))"
  by (cases "S = {}") (simp_all add: min.assoc)

lemma foldl_min_wake:
  "foldl (\<lambda>w (_, val). case wake_of val of Some i \<Rightarrow> min w i | None \<Rightarrow> w) (w :: 'i::linorder) m =
     Min (insert w {i. \<exists>k val. (k, val) \<in> set m \<and> wake_of val = Some i})"
proof (induction m arbitrary: w)
  case (Cons kv m)
  obtain k val where kv: "kv = (k, val)" by fastforce
  let ?S = "{i. \<exists>k val. (k, val) \<in> set m \<and> wake_of val = Some i}"
  have "?S \<subseteq> (\<lambda>kv. the (wake_of (snd kv))) ` set m" by force
  then have fin: "finite ?S" by (rule finite_surj [OF finite_set])
  show ?case
  proof (cases "wake_of val")
    case None
    then have "{i. \<exists>k val. (k, val) \<in> set (kv # m) \<and> wake_of val = Some i} = ?S" using kv by auto
    then show ?thesis using Cons [of w] kv None by simp
  next
    case (Some i)
    then have "{i. \<exists>k val. (k, val) \<in> set (kv # m) \<and> wake_of val = Some i} = insert i ?S" using kv by auto
    moreover have "Min (insert (min w i) ?S) = Min (insert w (insert i ?S))"
      by (rule Min_insert_min [OF fin])
    ultimately show ?thesis using Cons [of "min w i"] kv Some by simp
  qed
qed simp

definition pending :: "('cb, 'i) Engine \<Rightarrow> 'i set" where
  "pending e = {i. \<exists>k val. (k, val) \<in> set (advertisements e) \<and> wake_of val = Some i}"

lemma respond_wake: "wake_of (fst (respond show_ip ifs now key val)) =
    (case wake_of val of Some i \<Rightarrow> if i \<le> now then None else Some i | None \<Rightarrow> None)"
  by (auto simp: respond_def wake_of_def split: ResponseNeeded.splits)

lemma handle_timeout_ads:
  "advertisements (fst (handle_timeout add show_ip now e)) =
     bt_map (\<lambda>key val. fst (respond show_ip (interfaces e) now key val :: _ \<times> 'cb Output list)) (advertisements (e :: ('cb, 'i::linorder) Engine))"
  by (simp add: handle_timeout_def Let_def)

lemma poll_timeout_Min: "poll_timeout e = Min (insert (next_salvo (refresh_timer e)) (pending e))"
  unfolding poll_timeout_def pending_def next_refresh_def by (rule foldl_min_wake)

lemma finite_pending: "finite (pending e)"
  by (rule finite_subset [of _ "(\<lambda>kv. the (wake_of (snd kv))) ` set (advertisements e)"]) (force simp: pending_def)+

lemma poll_timeout_le_iff: "poll_timeout e \<le> t \<longleftrightarrow> next_salvo (refresh_timer e) \<le> t \<or> (\<exists>i\<in>pending e. i \<le> t)"
  unfolding poll_timeout_Min by (subst Min_le_iff) (auto simp: finite_pending)

lemma pending_timeout: "pending (fst (handle_timeout add show_ip now e)) = {i \<in> pending e. now < i}"
  by (force simp: pending_def handle_timeout_ads bt_map_def respond_wake split: option.splits if_splits)

lemma handle_timeout_keeps:
  "interfaces (fst (handle_timeout add show_ip now e)) = interfaces e"
  "refresh_timer (fst (handle_timeout add show_ip now e)) = update_refresh add (refresh_timer e) now"
  by (auto simp: handle_timeout_def Let_def next_refresh_def update_refresh_def)

lemma on_data_keeps:
  assumes "on_data add buf wasto wasfrom now e = Ret (e', out)"
  shows "interfaces e' = interfaces e" and "refresh_timer e' = refresh_timer e"
  using assms by (auto simp: on_data_def Let_def split: sum.splits Message.splits if_splits)

lemma handle_timeout_out:
  "(k, val) \<in> set (advertisements e) \<Longrightarrow>
     set (snd (respond show_ip (interfaces e) now k val)) \<subseteq> set (snd (handle_timeout add show_ip now e))"
  by (force simp: handle_timeout_def Let_def)

section \<open>What goes out on the network\<close>

text \<open>A datagram of an output that the other side parses to a given message.\<close>

definition says :: "'cb Output \<Rightarrow> SocketAddr \<Rightarrow> IpAddr \<Rightarrow> Message \<Rightarrow> bool" where
  "says out dst src msg \<longleftrightarrow> (\<exists>bytes. out = Sent \<lparr>dg_to = dst, dg_from = src, dg_bytes = bytes\<rparr> \<and> parse bytes = Ok msg)"

definition fits :: "str list \<Rightarrow> bool" where
  "fits ps \<longleftrightarrow> length (as_bytes (concat ps)) \<le> MAX_PACKET_SIZE"

lemma says_build:
  assumes "fits ps" and "parse (as_bytes (concat ps)) = Ok msg"
  shows "says (send_with MAX_PACKET_SIZE dst src (\<lambda>b. build b ps)) dst src msg"
  using build_fits [of ps "replicate MAX_PACKET_SIZE 0"] assms by (simp add: says_def send_with_def split_beta fits_def)

lemma clean_Nil: "clean []"
  by (simp add: clean_def trim_def)

lemma notify_on_says:
  assumes "clean (ad_notification_type (advertisement a))" and "clean usn"
    and "clean (rewrite_host show_ip (ad_location (advertisement a)) ip)"
    and "fits (notify_pieces (ad_notification_type (advertisement a)) usn (rewrite_host show_ip (ad_location (advertisement a)) ip))"
  shows "says (notify_on show_ip a usn ip) ssdp_group ip
    (NotifyAlive (ad_notification_type (advertisement a)) usn (rewrite_host show_ip (ad_location (advertisement a)) ip))"
  unfolding notify_on_def build_notify_def by (rule says_build [OF assms(4) parse_packets(1) [OF assms(1-3)]])

lemma search_on_says:
  assumes "clean st" and "fits (search_pieces st)"
  shows "says (search_on st ip) ssdp_group ip (Search st 5)"
  unfolding search_on_def build_search_def
  by (rule says_build [OF assms(2) parse_packets(4) [OF assms(1) clean_Nil clean_Nil]])

lemma response_says:
  assumes "clean st" and "clean usn" and "clean (rewrite_host show_ip loc wasto)"
    and "fits (response_pieces st usn (rewrite_host show_ip loc wasto))"
  shows "says (send_response show_ip wasto wasfrom usn st loc) wasfrom wasto (Response st usn (rewrite_host show_ip loc wasto))"
  unfolding send_response_def build_response_def by (rule says_build [OF assms(4) parse_packets(3) [OF assms(1-3)]])

lemma byebye_says:
  assumes "clean nt" and "clean usn" and "fits (byebye_pieces nt usn)"
  shows "says (byebye_on nt usn ip) ssdp_group ip (NotifyByeBye nt usn)"
  unfolding byebye_on_def build_byebye_def
  by (rule says_build [OF assms(3) parse_packets(2) [OF assms(1,2) clean_Nil]])

section \<open>Properties\<close>

text \<open>C18: whatever the sequence of calls an engine has seen, its tables are in order: interfaces and
advertisements are sorted maps, every interface has distinct addresses, all of them IPv4, and the
engine is a member of the multicast group on exactly the interfaces it knows, apart from ones whose
leaving the system refused.\<close>

theorem engine_invariant:
  assumes "engine_reach add show_ip ins e (joined, stuck)"
  shows "bt_wf (interfaces e) \<and> bt_wf (advertisements e) \<and>
    (\<forall>ix i. bt_get ix (interfaces e) = Some i \<longrightarrow> distinct (ips i) \<and> (\<forall>a\<in>set (ips i). is_ipv4 a)) \<and>
    {ix. bt_get ix (interfaces e) \<noteq> None} \<subseteq> joined \<and>
    joined \<subseteq> {ix. bt_get ix (interfaces e) \<noteq> None} \<union> stuck"
  using engine_reach_ok [OF assms] by (simp add: engine_ok_def groups_ok_def interface_ok_def bt.keys_def)

definition lo_event :: NetworkEvent where
  "lo_event = NewLink 2 (lit ''eth0'') (Flags 0x1041)"

theorem engine_invariant_witness:
  "{ix. bt_get ix (interfaces (fst (on_network_event (\<lambda>_. []) (\<lambda>_ _. Ok ()) lo_event
      (engine_new 7 (0 :: nat) :: (unit, nat) Engine)))) \<noteq> None} \<subseteq> {2}"
proof -
  let ?e = "engine_new 7 (0 :: nat) :: (unit, nat) Engine"
  obtain e' r out where ev: "on_network_event (\<lambda>_. []) (\<lambda>_ _. Ok ()) lo_event ?e = (e', r, out)"
    by (metis prod_cases3)
  have "out = [JoinGroup 2]"
    using ev by (simp add: on_network_event_def lo_event_def on_new_link_event_def engine_new_def bt_get_def
        flags_contains_def MULTICAST_def)
  then have "engine_reach (+) (\<lambda>_. []) (\<lambda>xs x. xs @ [x]) e' ({2}, {})"
    using reach_network [OF reach_start ev, of "(+)" "\<lambda>xs x. xs @ [x]"] by simp
  from engine_invariant [OF this] ev show ?thesis by simp
qed

text \<open>A search packet with a maximum wait of 0 seconds panics the engine with a remainder by zero, and
nothing else that arrives does: any other bytes, from any sender, are handled.\<close>

theorem on_data_panics_iff:
  "on_data add buf wasto wasfrom now e = Panic \<longleftrightarrow> (\<exists>st. parse buf = Ok (Search st 0))"
  by (rule on_data_Panic)

text \<open>C19: announcements reach the subscribers of other engines: the packet that one engine sends for an
advertisement makes another engine tell exactly its subscribers with a matching search target, once
per subscription and in order, with the type and the name of the advertisement and its location
rewritten to the sender's address; the other engine is not changed by it.\<close>

theorem announcement_reaches_subscribers:
  assumes "clean (ad_notification_type (advertisement a))" and "clean usn"
    and "clean (rewrite_host show_ip (ad_location (advertisement a)) ip)"
    and "fits (notify_pieces (ad_notification_type (advertisement a)) usn (rewrite_host show_ip (ad_location (advertisement a)) ip))"
    and "notify_on show_ip a usn ip = (Sent dg :: 'x Output)"
  shows "dg_to dg = ssdp_group \<and> dg_from dg = ip \<and>
    on_data add (dg_bytes dg) wasto wasfrom now e = Ret (e, map (\<lambda>s. Called (as_callback s)
      (Alive (ad_notification_type (advertisement a)) usn (rewrite_host show_ip (ad_location (advertisement a)) ip)))
      (filter (\<lambda>s. target_match (as_notification_type s) (ad_notification_type (advertisement a))) (active_searches e)))"
proof -
  have "says (Sent dg :: 'x Output) ssdp_group ip
    (NotifyAlive (ad_notification_type (advertisement a)) usn (rewrite_host show_ip (ad_location (advertisement a)) ip))"
    unfolding assms(5) [symmetric] by (rule notify_on_says [OF assms(1-4)])
  then show ?thesis by (auto simp: says_def on_data_def call_subscribers_def)
qed

definition example_ad :: "nat ActiveAdvertisement" where
  "example_ad = \<lparr>advertisement = \<lparr>ad_notification_type = lit ''fnord'', ad_location = lit ''/''\<rparr>,
     response_needed = ResponseNone\<rparr>"

lemma example_ad_ok:
  "clean (lit ''fnord'')" "clean (lit ''uuid:37'')" "rewrite_host show_ip (lit ''/'') ip = lit ''/''" "clean (lit ''/'')"
  "fits (notify_pieces (lit ''fnord'') (lit ''uuid:37'') (lit ''/''))"
  "fits (response_pieces (lit ''fnord'') (lit ''uuid:37'') (lit ''/''))"
  "fits (byebye_pieces (lit ''fnord'') (lit ''uuid:37''))"
proof -
  show "clean (lit ''fnord'')" "clean (lit ''uuid:37'')" "clean (lit ''/'')"
    by (simp_all only: clean_lit) (simp_all add: lit_def trim_def is_whitespace_def)
  show "rewrite_host show_ip (lit ''/'') ip = lit ''/''" by (simp add: rewrite_host_def lit_chars)
  show "fits (notify_pieces (lit ''fnord'') (lit ''uuid:37'') (lit ''/''))"
    "fits (response_pieces (lit ''fnord'') (lit ''uuid:37'') (lit ''/''))"
    "fits (byebye_pieces (lit ''fnord'') (lit ''uuid:37''))"
    unfolding fits_def
    by (subst length_as_bytes_ascii; simp add: notify_pieces_def response_pieces_def byebye_pieces_def
        crlf_def CARGO_PKG_NAME_def CARGO_PKG_VERSION_def lit_def MAX_PACKET_SIZE_def)+
qed

theorem announcement_reaches_subscribers_witness:
  "\<exists>dg. notify_on (\<lambda>_. []) example_ad (lit ''uuid:37'') (V4 1) = (Sent dg :: nat Output) \<and>
     on_data (+) (dg_bytes dg) (V4 2) (V4 3, 1900) 0
       (fst (subscribe (\<lambda>xs x. xs @ [x]) (lit ''ssdp:all'') (9 :: nat) (engine_new 0 0))) =
     Ret (fst (subscribe (\<lambda>xs x. xs @ [x]) (lit ''ssdp:all'') (9 :: nat) (engine_new 0 (0 :: nat))),
       [Called 9 (Alive (lit ''fnord'') (lit ''uuid:37'') (lit ''/''))])"
proof -
  obtain dg where dg: "notify_on (\<lambda>_. []) example_ad (lit ''uuid:37'') (V4 1) = (Sent dg :: nat Output)"
    using sends_Sent(2) by blast
  have "target_match (lit ''ssdp:all'') t" for t by (simp add: target_match_def)
  with announcement_reaches_subscribers [OF _ _ _ _ dg, of "(+)" "V4 2" "(V4 3, 1900)" 0
      "fst (subscribe (\<lambda>xs x. xs @ [x]) (lit ''ssdp:all'') (9 :: nat) (engine_new 0 (0 :: nat)))"] dg
  show ?thesis
    by (intro exI [of _ dg]) (simp add: example_ad_def example_ad_ok subscribe_def engine_new_def)
qed

text \<open>Which advertisements a search target covers: the target \<open>ssdp:all\<close> covers all, every target covers
itself, and a target that ends in a colon and a number covers the same name with that number or a
higher one, and nothing else.\<close>

theorem target_match_versions:
  "target_match st nt \<longleftrightarrow> st = lit ''ssdp:all'' \<or> st = nt \<or>
     (\<exists>b sv cv m n. (st = b @ 58 # sv \<and> 58 \<notin> set sv) \<and> (nt = b @ 58 # cv \<and> 58 \<notin> set cv) \<and>
        parse_uint usize_MAX sv = Some m \<and> parse_uint usize_MAX cv = Some n \<and> m \<le> n)"
  by (rule target_match_cases)

text \<open>C30: the location in announcements has the sender's address in place of its host, and otherwise keeps
its scheme, port and path. Without a slash after the host, however, the port is dropped.\<close>

theorem rewrite_host_location:
  assumes "58 \<notin> set scheme" and "58 \<notin> set host" and "47 \<notin> set host" and "tail = [] \<or> hd tail = 58 \<or> hd tail = 47"
  shows "rewrite_host show_ip (scheme @ lit ''://'' @ host @ tail) ip =
    scheme @ lit ''://'' @ show_ip ip @ (if 47 \<in> set tail then tail else [])"
  by (rule rewrite_host_cases [OF assms])

theorem rewrite_host_location_witness:
  "rewrite_host (\<lambda>_. lit ''10.0.0.1'') (lit ''http://127.0.0.1:3333/foo'') (V4 0) = lit ''http://10.0.0.1:3333/foo'' \<and>
   rewrite_host (\<lambda>_. lit ''10.0.0.1'') (lit ''http://127.0.0.1:3333'') (V4 0) = lit ''http://10.0.0.1''"
  using rewrite_host_location [of "lit ''http''" "lit ''127.0.0.1''" "lit '':3333/foo''" "\<lambda>_. lit ''10.0.0.1''" "V4 0"]
    rewrite_host_location [of "lit ''http''" "lit ''127.0.0.1''" "lit '':3333''" "\<lambda>_. lit ''10.0.0.1''" "V4 0"]
  by (simp add: lit_def)

text \<open>The engine asks to be woken at the earliest moment it has something to do, the next salvo or a
scheduled response; and when it is woken at some moment, afterwards exactly the responses scheduled
for later moments are left.\<close>

theorem poll_timeout_exact:
  "poll_timeout e = Min (insert (next_salvo (refresh_timer e)) (pending e)) \<and>
   pending (fst (handle_timeout add show_ip now e)) = {i \<in> pending e. now < i}"
  using poll_timeout_Min pending_timeout by blast

text \<open>A search is answered: when a search with a maximum wait of at least a second arrives that covers an
advertisement with no answer outstanding, the engine schedules an answer after at least 10 ms and less
than 10 ms more than the maximum wait (5 seconds at most), asks to be woken by then, and when it is
woken then or later sends the searcher a response with the name and the location of the advertisement
and the search target, or the advertisement's own type if everything was searched for.\<close>

theorem search_answered:
  assumes "(usn, val) \<in> set (advertisements e)" and "response_needed val = ResponseNone"
    and "parse buf = Ok (Search st mx)" and "mx \<noteq> 0" and "target_match st (ad_notification_type (advertisement val))"
    and "d = unat (random_seed e) mod min (unat mx * 1000) 5000 + 10" and "add now d \<le> later"
    and "st' = (if st = lit ''ssdp:all'' then ad_notification_type (advertisement val) else st)"
    and "loc = rewrite_host show_ip (ad_location (advertisement val)) wasto"
    and "clean st'" and "clean usn" and "clean loc" and "fits (response_pieces st' usn loc)"
  shows "10 \<le> d \<and> d < min (unat mx * 1000) 5000 + 10 \<and>
    (\<exists>e'. on_data add buf wasto wasfrom now e = Ret (e', []) \<and> poll_timeout e' \<le> add now d \<and>
      (\<exists>out\<in>set (snd (handle_timeout add show_ip later e')). says out wasfrom wasto (Response st' usn loc)))"
proof -
  have mx: "0 < min (unat mx * 1000) 5000" using assms(4) by (simp add: unat_gt_0)
  then have d: "10 \<le> d" "d < min (unat mx * 1000) 5000 + 10"
    unfolding assms(6) using mod_less_divisor [OF mx, of "unat (random_seed e)"] by (simp_all only: add_less_cancel_right le_add2)
  let ?f = "\<lambda>_ :: str. schedule_response (add now d) st wasto wasfrom"
  let ?e = "e\<lparr>advertisements := bt_map ?f (advertisements e)\<rparr>"
  have data: "on_data add buf wasto wasfrom now e = Ret (?e, [])"
    using mx assms(3,6) by (simp add: on_data_def max_delay_ms_def Let_def)
  let ?val = "val\<lparr>response_needed := Unicast (add now d) wasfrom wasto st'\<rparr>"
  have val: "(usn, ?val) \<in> set (advertisements ?e)"
    using assms(1,2,5,8) by (force simp: bt_map_def schedule_response_def)
  then have "add now d \<in> pending ?e" by (force simp: pending_def wake_of_def)
  then have "poll_timeout ?e \<le> add now d" unfolding poll_timeout_le_iff by blast
  moreover have "says (send_response show_ip wasto wasfrom usn st' (ad_location (advertisement val))) wasfrom wasto
      (Response st' usn loc)"
    unfolding assms(9) by (rule response_says) (use assms(9-13) in simp_all)
  moreover have "send_response show_ip wasto wasfrom usn st' (ad_location (advertisement val)) \<in>
      set (snd (handle_timeout add show_ip later ?e))"
    using handle_timeout_out [OF val, of show_ip later add] assms(7) by (simp add: respond_def)
  ultimately show ?thesis using data d by blast
qed

definition example_engine :: "(nat, nat) Engine" where
  "example_engine = \<lparr>interfaces = [(2, \<lparr>ips = [V4 1], up = True\<rparr>)], active_searches = [],
     advertisements = [(lit ''uuid:37'', example_ad)], refresh_timer = refresh_timer_new 0 0, random_seed = 1234\<rparr>"

theorem search_answered_witness:
  "\<exists>e'. on_data (+) (as_bytes (concat (search_pieces (lit ''ssdp:all'')))) (V4 1) (V4 9, 1900) 100 example_engine = Ret (e', []) \<and>
     (\<exists>out\<in>set (snd (handle_timeout (+) (\<lambda>_. []) 5110 e')).
        says out (V4 9, 1900) (V4 1) (Response (lit ''fnord'') (lit ''uuid:37'') (lit ''/'')))"
proof -
  have "clean (lit ''ssdp:all'')" by (simp only: clean_lit) (simp add: lit_def trim_def is_whitespace_def)
  then have p: "parse (as_bytes (concat (search_pieces (lit ''ssdp:all'')))) = Ok (Search (lit ''ssdp:all'') 5)"
    by (rule parse_packets(4) [OF _ clean_Nil clean_Nil])
  show ?thesis
    using search_answered [OF _ _ p _ _ refl _ refl refl, where e = example_engine and usn = "lit ''uuid:37''" and
        val = example_ad and add = "(+)" and now = 100 and later = 5110 and wasto = "V4 1" and wasfrom = "(V4 9, 1900)" and
        show_ip = "\<lambda>_. []"]
    by (simp add: example_engine_def example_ad_def target_match_def example_ad_ok) blast
qed

text \<open>Withdrawing an advertisement removes it and nothing else, and says so on the network: on every
address of every interface that is up a packet goes to the group which the other side parses as the
departure of that service, with its type and its name in their places.\<close>

theorem deadvertise_says_byebye:
  assumes "bt_get usn (advertisements e) = Some a" and "clean (ad_notification_type (advertisement a))" and "clean usn"
    and "fits (byebye_pieces (ad_notification_type (advertisement a)) usn)"
  shows "case deadvertise usn e of (e', out) \<Rightarrow>
    (\<forall>k. bt_get k (advertisements e') = (if k = usn then None else bt_get k (advertisements e))) \<and>
    list_all2 (\<lambda>m ip. says m ssdp_group ip (NotifyByeBye (ad_notification_type (advertisement a)) usn))
      out (up_ips (interfaces e))"
  using assms(1)
  by (simp add: deadvertise_def byebye_on_all_def bt.get_remove list_all2_conv_all_nth byebye_says [OF assms(2-4)])

theorem deadvertise_says_byebye_witness:
  "case deadvertise (lit ''uuid:37'') example_engine of (e', out) \<Rightarrow>
     list_all2 (\<lambda>m ip. says m ssdp_group ip (NotifyByeBye (lit ''fnord'') (lit ''uuid:37''))) out [V4 1]"
  using deadvertise_says_byebye [of "lit ''uuid:37''" example_engine example_ad]
  by (simp add: split_beta) (simp add: example_engine_def example_ad_def example_ad_ok bt_get_def up_ips_def)

text \<open>C29: a new IPv4 address on an interface that is up is used at once: every advertisement is announced
from it, with its location rewritten to it, every search is sent from it (or the one search for
everything, if there is one), and the address is remembered. An address that is known already, or
not an IPv4 one, changes nothing and sends nothing.\<close>

theorem new_address_announced:
  assumes "bt_get ix (interfaces e) = Some v"
  shows "(is_ipv4 a \<and> a \<notin> set (ips v) \<longrightarrow> (case on_new_addr_event show_ip ix a e of (e', out) \<Rightarrow>
      (\<exists>v'. bt_get ix (interfaces e') = Some v' \<and> ips v' = ips v @ [a]) \<and> (\<not> up v \<longrightarrow> out = []) \<and>
      (up v \<longrightarrow>
        (\<forall>(usn, val)\<in>set (advertisements e). let nt = ad_notification_type (advertisement val);
           loc = rewrite_host show_ip (ad_location (advertisement val)) a in
           clean nt \<and> clean usn \<and> clean loc \<and> fits (notify_pieces nt usn loc) \<longrightarrow>
           (\<exists>o'\<in>set out. says o' ssdp_group a (NotifyAlive nt usn loc))) \<and>
        (\<forall>s\<in>set (active_searches e). let st = (if searches_all e then lit ''ssdp:all'' else as_notification_type s) in
           clean st \<and> fits (search_pieces st) \<longrightarrow> (\<exists>o'\<in>set out. says o' ssdp_group a (Search st 5)))))) \<and>
    (a \<in> set (ips v) \<or> \<not> is_ipv4 a \<longrightarrow> on_new_addr_event show_ip ix a e = (e, []))"
proof -
  let ?e = "e\<lparr>interfaces := bt_modify ix (\<lambda>v. v\<lparr>ips := ips v @ [a]\<rparr>) (interfaces e)\<rparr>"
  have all: "searches_all ?e = searches_all e" by (simp add: searches_all_def)
  have ads: "\<exists>m\<in>set (send_all show_ip ?e [a]). says m ssdp_group a (NotifyAlive nt usn loc)"
    if "(usn, val) \<in> set (advertisements e)" "nt = ad_notification_type (advertisement val)"
      "loc = rewrite_host show_ip (ad_location (advertisement val)) a" "clean nt" "clean usn" "clean loc"
      "fits (notify_pieces nt usn loc)" for usn val nt loc
  proof
    show "says (notify_on show_ip val usn a) ssdp_group a (NotifyAlive nt usn loc)"
      unfolding that(2,3) by (rule notify_on_says) (use that in simp_all)
    show "notify_on show_ip val usn a \<in> set (send_all show_ip ?e [a])" using that(1) by (force simp: send_all_def)
  qed
  have searches: "\<exists>m\<in>set (send_all show_ip ?e [a]). says m ssdp_group a (Search st 5)"
    if "s \<in> set (active_searches e)" "st = (if searches_all e then lit ''ssdp:all'' else as_notification_type s)"
      "clean st" "fits (search_pieces st)" for s st
  proof
    show "says (search_on st a) ssdp_group a (Search st 5)" by (rule search_on_says [OF that(3,4)])
    show "search_on st a \<in> set (send_all show_ip ?e [a])" using that(1,2) by (auto simp: send_all_def all)
  qed
  have addr: "\<exists>v'. bt_get ix (interfaces ?e) = Some v' \<and> ips v' = ips v @ [a]"
    using assms by (simp add: bt_get_modify)
  have step: "on_new_addr_event show_ip ix a e = (?e, if up v then send_all show_ip ?e [a] else [])"
    if "is_ipv4 a" "a \<notin> set (ips v)"
    using that assms by (simp add: on_new_addr_event_def Let_def)
  have stay: "on_new_addr_event show_ip ix a e = (e, [])" if "a \<in> set (ips v) \<or> \<not> is_ipv4 a"
    using that assms by (auto simp: on_new_addr_event_def)
  note out = ads [OF _ refl refl] searches [OF _ refl]
  show ?thesis
  proof (cases "is_ipv4 a \<and> a \<notin> set (ips v)")
    case True
    then have ev: "on_new_addr_event show_ip ix a e = (?e, if up v then send_all show_ip ?e [a] else [])"
      using step by blast
    show ?thesis
    proof (cases "up v")
      case True
      then show ?thesis
        unfolding ev Let_def prod.case by (simp only: if_True simp_thms) (use addr out \<open>is_ipv4 a \<and> a \<notin> set (ips v)\<close> in blast)
    next
      case False
      then show ?thesis unfolding ev using \<open>is_ipv4 a \<and> a \<notin> set (ips v)\<close> addr by simp
    qed
  next
    case False
    then show ?thesis using stay by blast
  qed
qed

theorem new_address_announced_witness:
  "\<exists>o'\<in>set (snd (on_new_addr_event (\<lambda>_. []) 2 (V4 7) example_engine)).
     says o' ssdp_group (V4 7) (NotifyAlive (lit ''fnord'') (lit ''uuid:37'') (lit ''/''))"
  using new_address_announced [of 2 example_engine "\<lparr>ips = [V4 1], up = True\<rparr>" "V4 7" "\<lambda>_. []"]
  by (simp add: split_beta Let_def) (simp add: example_engine_def example_ad_def example_ad_ok bt_get_def is_ipv4_def)

end
