(* ===== verification/Ssdp_Discovery.thy ===== *)
theory Ssdp_Discovery
  imports Ssdp_Engine
begin

text \<open>
  Two engines of \<open>cotton-ssdp/src/engine.rs\<close> on one network: a client that subscribes, and a server with
  an advertisement. A datagram that one sends is what the other is given in \<open>on_data\<close>. The search of
  the client is answered by the server with a response to the client or, when several clients
  are waiting, with an announcement to the group, and either makes the client call its subscriber.
\<close>

section \<open>The server\<close>

text \<open>When the server owes an answer after a search, given the delay it chose for a new one.\<close>

definition answer_due :: "'i \<Rightarrow> 'i ActiveAdvertisement \<Rightarrow> 'i" where
  "answer_due reply_at val = (case wake_of val of Some i \<Rightarrow> i | None \<Rightarrow> reply_at)"

definition search_delay :: "u8 \<Rightarrow> ('cb, 'i) Engine \<Rightarrow> nat" where
  "search_delay mx e = unat (random_seed e) mod max_delay_ms mx + 10"

lemma search_delay_bounds: "mx \<noteq> 0 \<Longrightarrow> 10 \<le> search_delay mx e \<and> search_delay mx e < max_delay_ms mx + 10"
proof -
  assume "mx \<noteq> 0"
  then have "0 < max_delay_ms mx" by (simp add: max_delay_ms_def unat_gt_0)
  then show ?thesis using mod_less_divisor [of "max_delay_ms mx" "unat (random_seed e)"] by (simp add: search_delay_def)
qed

lemma on_search:
  assumes "parse buf = Ok (Search st mx)" and "mx \<noteq> 0"
  shows "on_data add buf wasto wasfrom now e =
    Ret (e\<lparr>advertisements := bt_map (\<lambda>_. schedule_response (add now (search_delay mx e)) st wasto wasfrom) (advertisements e)\<rparr>, [])"
proof -
  have "0 < unat mx" using assms(2) by (simp add: unat_gt_0)
  then have "max_delay_ms mx \<noteq> 0" by (simp add: max_delay_ms_def)
  then show ?thesis using assms(1) by (simp add: on_data_def search_delay_def Let_def)
qed

text \<open>The answer type that a search asks for.\<close>

definition answer_type :: "str \<Rightarrow> 'i ActiveAdvertisement \<Rightarrow> str" where
  "answer_type st val = (if st = lit ''ssdp:all'' then ad_notification_type (advertisement val) else st)"

lemma schedule_cases:
  assumes "target_match st (ad_notification_type (advertisement val))"
    and "\<forall>i w t. response_needed val \<noteq> Unicast i wasfrom w t"
  shows "response_needed (schedule_response reply_at st wasto wasfrom val) =
    (if response_needed val = ResponseNone then Unicast reply_at wasfrom wasto (answer_type st val)
     else Multicast (answer_due reply_at val))"
  using assms by (auto simp: schedule_response_def answer_due_def wake_of_def answer_type_def split: ResponseNeeded.splits)

lemma schedule_advertisement [simp]: "advertisement (schedule_response r st wasto wasfrom val) = advertisement val"
  by (simp add: schedule_response_def split: ResponseNeeded.split)

lemma wake_scheduled:
  assumes "target_match st (ad_notification_type (advertisement val))"
    and "\<forall>i w t. response_needed val \<noteq> Unicast i wasfrom w t"
  shows "wake_of (schedule_response reply_at st wasto wasfrom val) = Some (answer_due reply_at val)"
  using schedule_cases [OF assms, of reply_at wasto] by (auto simp: wake_of_def answer_due_def)

text \<open>An answer for the client in either form.\<close>

definition answers :: "'cb Output \<Rightarrow> IpAddr \<Rightarrow> str \<Rightarrow> str \<Rightarrow> 'i ActiveAdvertisement \<Rightarrow> str \<Rightarrow> SocketAddr \<Rightarrow> bool" where
  "answers out src st usn val loc client \<longleftrightarrow>
     says out client src (Response (answer_type st val) usn loc) \<or>
     says out ssdp_group src (NotifyAlive (ad_notification_type (advertisement val)) usn loc)"

lemma server_answers:
  fixes e :: "('cb, 'i::linorder) Engine"
  assumes "(usn, val) \<in> set (advertisements e)" and "wasto \<in> set (up_ips (interfaces e))"
    and "parse buf = Ok (Search st mx)" and "mx \<noteq> 0" and "target_match st (ad_notification_type (advertisement val))"
    and "\<forall>i w t. response_needed val \<noteq> Unicast i wasfrom w t"
    and "loc = rewrite_host show_ip (ad_location (advertisement val)) wasto"
    and "clean (answer_type st val)" and "clean (ad_notification_type (advertisement val))" and "clean usn" and "clean loc"
    and "fits (response_pieces (answer_type st val) usn loc)" and "fits (notify_pieces (ad_notification_type (advertisement val)) usn loc)"
    and "due = answer_due (add now (search_delay mx e)) val" and "due \<le> later"
  shows "\<exists>e'. on_data add buf wasto wasfrom now e = Ret (e', []) \<and> poll_timeout e' \<le> due \<and>
    (\<exists>out\<in>set (snd (handle_timeout add show_ip later e')). answers out wasto st usn val loc wasfrom)"
proof -
  let ?f = "\<lambda>_ :: str. schedule_response (add now (search_delay mx e)) st wasto wasfrom"
  let ?e = "e\<lparr>advertisements := bt_map ?f (advertisements e)\<rparr>" and ?val = "?f usn val"
  have val: "(usn, ?val) \<in> set (advertisements ?e)" using assms(1) by (force simp: bt_map_def)
  have wake: "wake_of ?val = Some due" using wake_scheduled [OF assms(5,6)] assms(14) by simp
  then have "due \<in> pending ?e" using val by (force simp: pending_def)
  then have poll: "poll_timeout ?e \<le> due" unfolding poll_timeout_le_iff by blast
  have sub: "set (snd (respond show_ip (interfaces e) later usn ?val)) \<subseteq> set (snd (handle_timeout add show_ip later ?e))"
    using handle_timeout_out [OF val, of show_ip later add] by simp
  have "\<exists>out \<in> set (snd (respond show_ip (interfaces e) later usn ?val) :: 'cb Output list). answers out wasto st usn val loc wasfrom"
  proof (cases "response_needed val = ResponseNone")
    case True
    have "says (send_response show_ip wasto wasfrom usn (answer_type st val) (ad_location (advertisement val)) :: 'cb Output) wasfrom wasto
        (Response (answer_type st val) usn loc)"
      unfolding assms(7) by (rule response_says) (use assms(7-12) in simp_all)
    then show ?thesis using True schedule_cases [OF assms(5,6)] wake assms(15) by (simp add: respond_def answers_def wake_of_def)
  next
    case False
    have "says (notify_on show_ip ?val usn wasto :: 'cb Output) ssdp_group wasto (NotifyAlive (ad_notification_type (advertisement val)) usn loc)"
      using notify_on_says [of ?val usn show_ip wasto] assms(7,9-11,13) by simp
    moreover have "notify_on show_ip ?val usn wasto \<in> set (snd (respond show_ip (interfaces e) later usn ?val) :: 'cb Output list)"
      using False schedule_cases [OF assms(5,6)] wake assms(2,15) by (simp add: respond_def notify_on_all_def wake_of_def)
    ultimately show ?thesis unfolding answers_def by blast
  qed
  with sub poll show ?thesis using on_search [OF assms(3,4), of add wasto wasfrom now e] by blast
qed

section \<open>The client\<close>

lemma client_told:
  assumes "answers (Sent dg :: 'x Output) src st usn val loc client"
    and "\<lparr>as_notification_type = st, as_callback = cb\<rparr> \<in> set (active_searches e)"
    and "target_match st (ad_notification_type (advertisement val))"
  shows "\<exists>calls t. on_data add (dg_bytes dg) wasto wasfrom now e = Ret (e, calls) \<and> Called cb (Alive t usn loc) \<in> set calls"
proof -
  have told: "Called cb (Alive t usn loc) \<in> set (call_subscribers e (Alive t usn loc))" if "target_match st t" for t
    using that assms(2) by (force simp: call_subscribers_def)
  have st: "target_match st (answer_type st val)" by (simp add: answer_type_def target_match_def)
  from assms(1) show ?thesis unfolding answers_def
  proof
    assume "says (Sent dg :: 'x Output) client src (Response (answer_type st val) usn loc)"
    then show ?thesis using told [OF st] by (auto simp: says_def on_data_def)
  next
    assume "says (Sent dg :: 'x Output) ssdp_group src (NotifyAlive (ad_notification_type (advertisement val)) usn loc)"
    then show ?thesis using told [OF assms(3)] by (auto simp: says_def on_data_def)
  qed
qed

section \<open>Properties\<close>


definition example_client :: "(nat, nat) Engine" where
  "example_client = \<lparr>interfaces = [(2, \<lparr>ips = [V4 9], up = True\<rparr>)], active_searches = [], advertisements = [],
     refresh_timer = refresh_timer_new 0 0, random_seed = 1\<rparr>"


text \<open>The search that is left without an answer: while a response to a client is outstanding, a second search from that
client changes nothing, and the outstanding response has the type of the first search. A subscription
for the second, of which that type is no match (a later version, say), is not called for it.\<close>

theorem second_search_unanswered:
  assumes "response_needed val = Unicast i client w t" and "\<not> target_match st t"
    and "s \<in> set (active_searches e)" and "as_notification_type s = st"
    and "\<forall>s' \<in> set (active_searches e). as_callback s' = as_callback s \<longrightarrow> s' = s"
  shows "schedule_response reply_at st wasto client val = val \<and>
    (\<forall>usn loc. Called (as_callback s) (Alive t usn loc) \<notin> set (call_subscribers e (Alive t usn loc)))"
  using assms by (auto simp: schedule_response_def call_subscribers_def)

end
