(* ===== verification/Netif.thy ===== *)
theory Netif
  imports Network_Event
begin

text \<open>
  \<open>cotton-netif/src/getifaddrs.rs\<close> and \<open>linux_netlink.rs\<close>: the two sources of network events. What the
  \<open>nix\<close> and \<open>neli\<close> crates deliver is input: the list of interface addresses, the index of a name, and
  netlink messages with their attributes already looked up by the functions \<open>ifname\<close> and \<open>ifaddress\<close>.
  The flags of an interface are a set of named flags, whose numbers those crates know. The streams of
  the netlink source are given by what is received, and \<open>stream::select\<close> by the interleavings it allows.
\<close>

section \<open>Flags\<close>

datatype Iff = IffUp | IffRunning | IffLoopback | IffPointopoint | IffBroadcast | IffMulticast | IffOther nat

definition flag_table :: "(Iff \<times> Flags) list" where
  "flag_table =
     [(IffUp, UP), (IffRunning, RUNNING), (IffLoopback, LOOPBACK), (IffPointopoint, POINTTOPOINT),
      (IffBroadcast, BROADCAST), (IffMulticast, MULTICAST)]"

definition collect_flags :: "(Iff \<times> Flags) list \<Rightarrow> Iff set \<Rightarrow> Flags" where
  "collect_flags table flags =
     foldl (\<lambda>newflags (iff, newf). if iff \<in> flags then flags_or newflags newf else newflags) flags_empty table"

definition map_interface_flags :: "Iff set \<Rightarrow> Flags" where
  "map_interface_flags flags = collect_flags flag_table flags"

definition map_flags :: "Iff set \<Rightarrow> Flags" where
  "map_flags flags = collect_flags flag_table flags"

section \<open>The list of interfaces\<close>

datatype SockaddrStorage = SockaddrIn u32 u16 | SockaddrIn6 u128 u16 | SockaddrOther

fun as_sockaddr_in :: "SockaddrStorage \<Rightarrow> u32 option" where
  "as_sockaddr_in (SockaddrIn ip port) = Some ip"
| "as_sockaddr_in (SockaddrIn6 ip port) = None"
| "as_sockaddr_in SockaddrOther = None"

fun as_sockaddr_in6 :: "SockaddrStorage \<Rightarrow> u128 option" where
  "as_sockaddr_in6 (SockaddrIn ip port) = None"
| "as_sockaddr_in6 (SockaddrIn6 ip port) = Some ip"
| "as_sockaddr_in6 SockaddrOther = None"

record InterfaceAddress =
  interface_name :: str
  ia_flags :: "Iff set"
  ia_address :: "SockaddrStorage option"
  ia_netmask :: "SockaddrStorage option"

definition unaliased :: "str \<Rightarrow> str" where
  "unaliased name = (case split_once 58 name of None \<Rightarrow> name | Some (prefix, _) \<Rightarrow> prefix)"

definition prefix_len :: "'a::len word \<Rightarrow> u8" where
  "prefix_len netmask = ucast ((word_of_nat (leading_ones netmask) :: u32) AND 0xFF)"

text \<open>The event for the address of an entry, if it has one with a netmask of the same kind.\<close>

definition address_event :: "InterfaceIndex \<Rightarrow> InterfaceAddress \<Rightarrow> NetworkEvent list" where
  "address_event ix ifaddr =
     (case (ia_address ifaddr, ia_netmask ifaddr) of
        (Some addr, Some netm) \<Rightarrow>
          (case as_sockaddr_in addr of
             Some ip \<Rightarrow>
               (case as_sockaddr_in netm of
                  Some netmask \<Rightarrow> [NewAddr ix (V4 ip) (prefix_len netmask)]
                | None \<Rightarrow> [])
           | None \<Rightarrow>
               (case as_sockaddr_in6 addr of
                  Some ip \<Rightarrow>
                    (case as_sockaddr_in6 netm of
                       Some netmask \<Rightarrow> [NewAddr ix (V6 ip) (prefix_len netmask)]
                     | None \<Rightarrow> [])
                | None \<Rightarrow> []))
      | _ \<Rightarrow> [])"

definition interface_step ::
    "(str \<Rightarrow> (nat, u32) result) \<Rightarrow> NetworkEvent list \<times> u32 set \<Rightarrow> InterfaceAddress \<Rightarrow> NetworkEvent list \<times> u32 set"
  where
  "interface_step nametoindex = (\<lambda>(msgs, indexes) ifaddr.
     let name = unaliased (interface_name ifaddr) in
     case nametoindex name of
       Inl _ \<Rightarrow> (msgs, indexes)
     | Inr ix \<Rightarrow>
         if ix = 0 then (msgs, indexes)
         else
           (msgs @ (if ix \<notin> indexes then [NewLink ix name (map_interface_flags (ia_flags ifaddr))] else []) @
              address_event ix ifaddr,
            insert ix indexes))"

definition get_interfaces_inner2 ::
    "InterfaceAddress list \<Rightarrow> (str \<Rightarrow> (nat, u32) result) \<Rightarrow> NetworkEvent list" where
  "get_interfaces_inner2 ifaddrs nametoindex = fst (foldl (interface_step nametoindex) ([], {}) ifaddrs)"

definition get_interfaces_inner ::
    "(nat, InterfaceAddress list) result \<Rightarrow> (str \<Rightarrow> (nat, u32) result) \<Rightarrow> (IoError, NetworkEvent list) result" where
  "get_interfaces_inner getifaddrs nametoindex =
     (case getifaddrs of
        Inl errno \<Rightarrow> Err (OsError errno)
      | Inr ifaddrs \<Rightarrow> Ok (get_interfaces_inner2 ifaddrs nametoindex))"

section \<open>Netlink messages\<close>

datatype Rtm = Newlink | Dellink | Getlink | Newaddr | Deladdr | Getaddr | RtmOther nat

datatype 'p NlPayload = Payload 'p | NoPayload

record 'p Nlmsghdr =
  nl_type :: Rtm
  nl_flags :: "string set"
  nl_payload :: "'p NlPayload"

record 'a Ifinfomsg =
  ifi_index :: u32
  ifi_flags :: "Iff set"
  ifi_rtattrs :: 'a

datatype RtAddrFamily = Inet | Inet6

record 'a Ifaddrmsg =
  ifa_family :: RtAddrFamily
  ifa_prefixlen :: u8
  ifa_index :: u32
  ifa_rtattrs :: 'a

definition u128_from_be_bytes :: "u8 list \<Rightarrow> u128" where
  "u128_from_be_bytes bs = word_of_nat (from_be bs)"

definition ip_of_bytes :: "u8 list \<Rightarrow> IpAddr option" where
  "ip_of_bytes bs =
     (if length bs = 4 then Some (V4 (u32_from_be_bytes bs))
      else if length bs = 16 then Some (V6 (u128_from_be_bytes bs))
      else None)"

definition nonzero :: "u32 \<Rightarrow> u32 option" where
  "nonzero n = (if n = 0 then None else Some n)"

definition translate_link_message :: "('a \<Rightarrow> str option) \<Rightarrow> 'a Ifinfomsg Nlmsghdr \<Rightarrow> NetworkEvent option" where
  "translate_link_message ifname msg =
     (case nl_payload msg of
        Payload p \<Rightarrow>
          (case nl_type msg of
             Newlink \<Rightarrow>
               (case ifname (ifi_rtattrs p) of
                  Some name \<Rightarrow> map_option (\<lambda>ix. NewLink ix name (map_flags (ifi_flags p))) (nonzero (ifi_index p))
                | None \<Rightarrow> None)
           | Dellink \<Rightarrow> map_option DelLink (nonzero (ifi_index p))
           | _ \<Rightarrow> None)
      | NoPayload \<Rightarrow> None)"

definition translate_addr_message :: "('a \<Rightarrow> u8 list option) \<Rightarrow> 'a Ifaddrmsg Nlmsghdr \<Rightarrow> NetworkEvent option" where
  "translate_addr_message ifaddress msg =
     (case nl_payload msg of
        Payload p \<Rightarrow>
          (case Option.bind (ifaddress (ifa_rtattrs p)) ip_of_bytes of
             Some addr \<Rightarrow>
               (case nl_type msg of
                  Newaddr \<Rightarrow> map_option (\<lambda>ix. NewAddr ix addr (ifa_prefixlen p)) (nonzero (ifa_index p))
                | Deladdr \<Rightarrow> map_option (\<lambda>ix. DelAddr ix addr (ifa_prefixlen p)) (nonzero (ifa_index p))
                | _ \<Rightarrow> None)
           | None \<Rightarrow> None)
      | NoPayload \<Rightarrow> None)"

section \<open>Netlink streams\<close>

datatype DeError = DeIo IoError | DeOther
datatype SerError = SerIo IoError | SerOther

fun map_rx_error :: "DeError \<Rightarrow> IoError" where
  "map_rx_error (DeIo e) = e"
| "map_rx_error DeOther = IoOther"

fun map_tx_error :: "SerError \<Rightarrow> IoError" where
  "map_tx_error (SerIo e) = e"
| "map_tx_error SerOther = IoOther"

text \<open>One round of the loops of \<open>get_links\<close> and \<open>get_addrs\<close>, and the stream of all rounds so far.\<close>

definition stream_round ::
    "('m \<Rightarrow> NetworkEvent option) \<Rightarrow> (DeError, 'm list) result \<Rightarrow> (IoError, NetworkEvent) result list" where
  "stream_round translate res =
     (case res of
        Inr msgs \<Rightarrow> map Ok (List.map_filter translate msgs)
      | Inl e \<Rightarrow> [Err (map_rx_error e)])"

definition get_links ::
    "('a \<Rightarrow> str option) \<Rightarrow> (DeError, 'a Ifinfomsg Nlmsghdr list) result list \<Rightarrow> (IoError, NetworkEvent) result list"
  where
  "get_links ifname received = concat (map (stream_round (translate_link_message ifname)) received)"

definition get_addrs ::
    "('a \<Rightarrow> u8 list option) \<Rightarrow> (DeError, 'a Ifaddrmsg Nlmsghdr list) result list \<Rightarrow> (IoError, NetworkEvent) result list"
  where
  "get_addrs ifaddress received = concat (map (stream_round (translate_addr_message ifaddress)) received)"

definition get_interfaces_async_inner2 ::
    "(IoError, NetworkEvent) result list \<Rightarrow> (IoError, NetworkEvent) result list \<Rightarrow>
       (IoError, NetworkEvent) result list \<Rightarrow> (IoError, NetworkEvent) result list set" where
  "get_interfaces_async_inner2 links addrs4 addrs6 = (\<Union>addrs\<in>shuffles addrs4 addrs6. shuffles links addrs)"

section \<open>Netlink sockets\<close>

definition rtnl_request :: "Rtm \<Rightarrow> string set \<Rightarrow> 'p \<Rightarrow> 'p Nlmsghdr" where
  "rtnl_request ty fl p = \<lparr>nl_type = ty, nl_flags = fl, nl_payload = Payload p\<rparr>"

text \<open>Open a socket on a group, send a request on it, and turn it into an asynchronous one.\<close>

definition create_socket ::
    "(nat \<Rightarrow> (IoError, 'h) result) \<Rightarrow> ('h \<Rightarrow> 'm \<Rightarrow> (SerError, 'h) result) \<Rightarrow> ('h \<Rightarrow> (IoError, 's) result) \<Rightarrow>
       nat \<Rightarrow> 'm \<Rightarrow> (IoError, 's) result" where
  "create_socket handle_fn send_fn socket_fn grp request =
     (case handle_fn grp of
        Inl e \<Rightarrow> Err e
      | Inr s \<Rightarrow>
          (case send_fn s request of
             Inl e \<Rightarrow> Err (map_tx_error e)
           | Inr s' \<Rightarrow> socket_fn s'))"

definition create_link_socket ::
    "(nat \<Rightarrow> (IoError, 'h) result) \<Rightarrow> ('h \<Rightarrow> unit Ifinfomsg Nlmsghdr \<Rightarrow> (SerError, 'h) result) \<Rightarrow>
       ('h \<Rightarrow> (IoError, 's) result) \<Rightarrow> (IoError, 's) result" where
  "create_link_socket handle_fn send_link_fn socket_fn =
     create_socket handle_fn send_link_fn socket_fn 1
       (rtnl_request Getlink {''Request'', ''Match''} \<lparr>ifi_index = 0, ifi_flags = {}, ifi_rtattrs = ()\<rparr>)"

definition create_ipv4addr_socket ::
    "(nat \<Rightarrow> (IoError, 'h) result) \<Rightarrow> ('h \<Rightarrow> unit Ifaddrmsg Nlmsghdr \<Rightarrow> (SerError, 'h) result) \<Rightarrow>
       ('h \<Rightarrow> (IoError, 's) result) \<Rightarrow> (IoError, 's) result" where
  "create_ipv4addr_socket handle_fn send_addr_fn socket_fn =
     create_socket handle_fn send_addr_fn socket_fn 5
       (rtnl_request Getaddr {''Request'', ''Root''}
          \<lparr>ifa_family = Inet, ifa_prefixlen = 0, ifa_index = 0, ifa_rtattrs = ()\<rparr>)"

definition create_ipv6addr_socket ::
    "(nat \<Rightarrow> (IoError, 'h) result) \<Rightarrow> ('h \<Rightarrow> unit Ifaddrmsg Nlmsghdr \<Rightarrow> (SerError, 'h) result) \<Rightarrow>
       ('h \<Rightarrow> (IoError, 's) result) \<Rightarrow> (IoError, 's) result" where
  "create_ipv6addr_socket handle_fn send_addr_fn socket_fn =
     create_socket handle_fn send_addr_fn socket_fn 9
       (rtnl_request Getaddr {''Request'', ''Root''}
          \<lparr>ifa_family = Inet6, ifa_prefixlen = 0, ifa_index = 0, ifa_rtattrs = ()\<rparr>)"

text \<open>The three sockets of the merged stream, in the order they are opened.\<close>

definition get_interfaces_async_inner ::
    "(nat \<Rightarrow> (IoError, 'h) result) \<Rightarrow> ('h \<Rightarrow> unit Ifinfomsg Nlmsghdr \<Rightarrow> (SerError, 'h) result) \<Rightarrow>
       ('h \<Rightarrow> unit Ifaddrmsg Nlmsghdr \<Rightarrow> (SerError, 'h) result) \<Rightarrow> ('h \<Rightarrow> (IoError, 's) result) \<Rightarrow>
       (IoError, 's \<times> 's \<times> 's) result" where
  "get_interfaces_async_inner handle_fn send_link_fn send_addr_fn socket_fn =
     (case create_link_socket handle_fn send_link_fn socket_fn of
        Inl e \<Rightarrow> Err e
      | Inr links \<Rightarrow>
          (case create_ipv4addr_socket handle_fn send_addr_fn socket_fn of
             Inl e \<Rightarrow> Err e
           | Inr addrs4 \<Rightarrow>
               (case create_ipv6addr_socket handle_fn send_addr_fn socket_fn of
                  Inl e \<Rightarrow> Err e
                | Inr addrs6 \<Rightarrow> Ok (links, addrs4, addrs6))))"

section \<open>Flags and prefixes\<close>

text \<open>Every flag of the interface is reported as its counterpart, and no other.\<close>

lemma bit_flags_or: "bit (flag_bits (flags_or f g)) i \<longleftrightarrow> bit (flag_bits f) i \<or> bit (flag_bits g) i"
  by (simp add: flags_or_def bit_or_iff)

lemma bit_collect_flags:
  "bit (flag_bits (foldl (\<lambda>newflags (iff, newf). if iff \<in> flags then flags_or newflags newf else newflags) f table)) i \<longleftrightarrow>
     bit (flag_bits f) i \<or> list_ex (\<lambda>(iff, newf). iff \<in> flags \<and> bit (flag_bits newf) i) table"
proof (induction table arbitrary: f)
  case (Cons x table)
  then show ?case by (cases x; cases "fst x \<in> flags") (simp_all add: bit_flags_or disj_assoc)
qed simp

lemma flags_contains_one:
  assumes "flag_bits g = one_shl n" and "n < 32"
  shows "flags_contains f g \<longleftrightarrow> bit (flag_bits f) n"
proof -
  have "flag_bits f AND flag_bits g = (if bit (flag_bits f) n then one_shl n else 0)"
    using assms by (intro bit_word_eqI) (auto simp: bit_and_iff bit_one_shl)
  moreover have "(one_shl n :: u32) \<noteq> 0" using assms(2) by (auto simp: word_eq_0_iff_bits bit_one_shl)
  ultimately show ?thesis using assms(1) by (simp add: flags_contains_def)
qed

lemma flag_constants:
  "flag_bits UP = one_shl 0" "flag_bits BROADCAST = one_shl 1" "flag_bits LOOPBACK = one_shl 2"
  "flag_bits POINTTOPOINT = one_shl 3" "flag_bits RUNNING = one_shl 6" "flag_bits MULTICAST = one_shl 12"
  by (simp_all add: UP_def BROADCAST_def LOOPBACK_def POINTTOPOINT_def RUNNING_def MULTICAST_def one_shl_def)

lemmas flags_contains_flag = flag_constants [THEN flags_contains_one]

lemma collect_flags_contains:
  "flags_contains (collect_flags flag_table flags) UP \<longleftrightarrow> IffUp \<in> flags"
  "flags_contains (collect_flags flag_table flags) BROADCAST \<longleftrightarrow> IffBroadcast \<in> flags"
  "flags_contains (collect_flags flag_table flags) LOOPBACK \<longleftrightarrow> IffLoopback \<in> flags"
  "flags_contains (collect_flags flag_table flags) POINTTOPOINT \<longleftrightarrow> IffPointopoint \<in> flags"
  "flags_contains (collect_flags flag_table flags) RUNNING \<longleftrightarrow> IffRunning \<in> flags"
  "flags_contains (collect_flags flag_table flags) MULTICAST \<longleftrightarrow> IffMulticast \<in> flags"
  unfolding collect_flags_def
  by (simp_all only: flags_contains_flag bit_collect_flags,
      simp_all add: flag_table_def flag_constants bit_one_shl flags_empty_def)

text \<open>The length of the prefix of a contiguous netmask.\<close>

lemma takeWhile_rev_upt:
  assumes "k \<le> n" and "\<And>i. i < n \<Longrightarrow> P i \<longleftrightarrow> n - k \<le> i"
  shows "length (takeWhile P (rev [0..<n])) = k"
proof -
  have "[0..<n] = [0..<n - k] @ [n - k..<n]"
    using assms(1) upt_add_eq_append [of 0 "n - k" k] by simp
  then have "rev [0..<n] = rev [n - k..<n] @ rev [0..<n - k]" by simp
  moreover have "takeWhile P (rev [n - k..<n] @ rev [0..<n - k]) = rev [n - k..<n] @ takeWhile P (rev [0..<n - k])"
    using assms(2) by (intro takeWhile_append2) auto
  moreover have "takeWhile P (rev [0..<n - k]) = []"
    using assms(2) by (cases "n - k") (auto simp: takeWhile_eq_Nil_iff)
  ultimately show ?thesis using assms(1) by simp
qed

lemma leading_ones_netmask:
  assumes "k \<le> LENGTH('a)" and "\<And>i. i < LENGTH('a) \<Longrightarrow> bit m i \<longleftrightarrow> LENGTH('a) - k \<le> i"
  shows "leading_ones (m :: 'a::len word) = k"
  unfolding leading_ones_def by (rule takeWhile_rev_upt [OF assms])

lemma leading_ones_le: "leading_ones (m :: 'a::len word) \<le> LENGTH('a)"
  unfolding leading_ones_def by (metis length_rev length_takeWhile_le length_upt minus_nat.diff_0)

lemma unat_prefix_len:
  assumes "LENGTH('a) \<le> 255"
  shows "unat (prefix_len (m :: 'a::len word)) = leading_ones m"
proof -
  let ?w = "word_of_nat (leading_ones m) :: u32"
  have k: "leading_ones m < 256" using leading_ones_le [of m] assms by simp
  then have "unat ?w = leading_ones m" by (simp add: unat_of_nat take_bit_eq_mod)
  moreover have "?w AND 0xFF = ?w mod 256"
    using take_bit_eq_mask [of 8 ?w] by (simp add: mask_eq_exp_minus_1 take_bit_eq_mod)
  ultimately have "unat (?w AND 0xFF) = leading_ones m" using k by (simp add: unat_mod)
  then show ?thesis using k by (simp add: prefix_len_def unsigned_ucast_eq take_bit_eq_mod)
qed

lemma prefix_len_netmask:
  assumes "k \<le> LENGTH('a)" and "LENGTH('a) \<le> 255"
  shows "prefix_len (NOT (mask (LENGTH('a) - k)) :: 'a::len word) = word_of_nat k"
proof -
  have "leading_ones (NOT (mask (LENGTH('a) - k)) :: 'a word) = k"
    by (rule leading_ones_netmask) (use assms(1) in \<open>auto simp: bit_not_iff bit_mask_iff\<close>)
  then have "word_of_nat (unat (prefix_len (NOT (mask (LENGTH('a) - k)) :: 'a word))) = (word_of_nat k :: u8)"
    using unat_prefix_len [OF assms(2), of "NOT (mask (LENGTH('a) - k))"] by simp
  then show ?thesis by simp
qed

lemmas prefix_lens = prefix_len_netmask [where 'a = 32, simplified] prefix_len_netmask [where 'a = 128, simplified]

section \<open>The order of events\<close>

text \<open>
  A list of events as the documentation of \<open>get_interfaces\<close> promises it: no interface is announced
  twice, an address only after its interface, and nothing is withdrawn.
\<close>

fun links_first :: "InterfaceIndex set \<Rightarrow> NetworkEvent list \<Rightarrow> bool" where
  "links_first seen [] = True"
| "links_first seen (NewLink ix name flags # es) = (ix \<notin> seen \<and> links_first (insert ix seen) es)"
| "links_first seen (NewAddr ix a p # es) = (ix \<in> seen \<and> links_first seen es)"
| "links_first seen (DelLink ix # es) = False"
| "links_first seen (DelAddr ix a p # es) = False"

definition link_indexes :: "NetworkEvent list \<Rightarrow> InterfaceIndex set" where
  "link_indexes es = {ix. \<exists>name flags. NewLink ix name flags \<in> set es}"

lemma link_indexes_simps [simp]:
  "link_indexes [] = {}" "link_indexes (xs @ ys) = link_indexes xs \<union> link_indexes ys"
  "link_indexes (NewLink ix name flags # es) = insert ix (link_indexes es)"
  "link_indexes (NewAddr ix a p # es) = link_indexes es"
  by (auto simp: link_indexes_def)

lemma links_first_append:
  "links_first seen (xs @ ys) \<longleftrightarrow> links_first seen xs \<and> links_first (seen \<union> link_indexes xs) ys"
  by (induction seen xs rule: links_first.induct) (auto simp: insert_commute)

fun is_address :: "NetworkEvent \<Rightarrow> bool" where
  "is_address (NewAddr ix a p) = True"
| "is_address _ = False"

definition resolved :: "(str \<Rightarrow> (nat, u32) result) \<Rightarrow> InterfaceAddress \<Rightarrow> u32 option" where
  "resolved nametoindex ifaddr =
     (case nametoindex (unaliased (interface_name ifaddr)) of Inl _ \<Rightarrow> None | Inr ix \<Rightarrow> nonzero ix)"

definition addresses_of :: "(str \<Rightarrow> (nat, u32) result) \<Rightarrow> InterfaceAddress \<Rightarrow> NetworkEvent list" where
  "addresses_of nametoindex ifaddr =
     (case resolved nametoindex ifaddr of None \<Rightarrow> [] | Some ix \<Rightarrow> address_event ix ifaddr)"

lemma address_event_cases: "address_event ix x = [] \<or> (\<exists>a p. address_event ix x = [NewAddr ix a p])"
  by (simp add: address_event_def split: option.splits)

lemma unaliased_plain: "58 \<notin> set (unaliased name)"
  by (auto simp: unaliased_def split_once_Some_iff split_once_None_iff split: option.splits)

lemma interface_step_cases:
  "interface_step n (msgs, ixs) x =
     (case resolved n x of
        None \<Rightarrow> (msgs, ixs)
      | Some ix \<Rightarrow>
          (msgs @ (if ix \<notin> ixs then [NewLink ix (unaliased (interface_name x)) (map_interface_flags (ia_flags x))] else []) @
             address_event ix x, insert ix ixs))"
  by (auto simp: interface_step_def resolved_def nonzero_def Let_def split: sum.splits)

lemma interfaces_fold:
  assumes "foldl (interface_step n) ([], {}) xs = (msgs, ixs)"
  shows "links_first {} msgs \<and> link_indexes msgs = ixs \<and> ixs = {ix. \<exists>x\<in>set xs. resolved n x = Some ix} \<and>
    filter is_address msgs = concat (map (addresses_of n) xs) \<and>
    (\<forall>ix name f. NewLink ix name f \<in> set msgs \<longrightarrow> n name = Ok ix \<and> ix \<noteq> 0 \<and> 58 \<notin> set name)"
  using assms
proof (induction xs arbitrary: msgs ixs rule: rev_induct)
  case (snoc x xs)
  obtain m0 i0 where 0: "foldl (interface_step n) ([], {}) xs = (m0, i0)" by fastforce
  note IH = snoc.IH [OF 0]
  have step: "interface_step n (m0, i0) x = (msgs, ixs)" using snoc.prems 0 by simp
  show ?case
  proof (cases "resolved n x")
    case None
    then show ?thesis using IH step by (auto simp: interface_step_cases addresses_of_def)
  next
    case (Some ix)
    then have ok: "n (unaliased (interface_name x)) = Ok ix" "ix \<noteq> 0"
      by (auto simp: resolved_def nonzero_def split: sum.splits if_splits)
    define L where "L = (if ix \<notin> i0 then [NewLink ix (unaliased (interface_name x)) (map_interface_flags (ia_flags x))] else [])"
    define A where "A = address_event ix x"
    have new: "msgs = m0 @ L @ A" "ixs = insert ix i0" using step Some by (simp_all add: interface_step_cases L_def A_def)
    have A: "link_indexes A = {}" "filter is_address A = A" "links_first (insert ix i0) A"
      "\<forall>i nm f. NewLink i nm f \<notin> set A"
      using address_event_cases [of ix x] by (auto simp: A_def)
    have L: "i0 \<union> link_indexes L = insert ix i0" "filter is_address L = []" "links_first i0 L"
      "\<forall>i nm f. NewLink i nm f \<in> set L \<longrightarrow> i = ix \<and> nm = unaliased (interface_name x)"
      by (auto simp: L_def)
    have order: "links_first {} msgs" "link_indexes msgs = ixs"
      using IH A(1,3) L(1,3) by (simp_all add: new links_first_append)
    have own: "addresses_of n x = A" using Some by (simp add: addresses_of_def A_def)
    have addrs: "filter is_address msgs = concat (map (addresses_of n) (xs @ [x]))"
      using IH A(2) L(2) own by (simp add: new)
    have ixs: "ixs = {ix. \<exists>x\<in>set (xs @ [x]). resolved n x = Some ix}" using IH Some by (auto simp: new)
    have names: "\<forall>i nm f. NewLink i nm f \<in> set msgs \<longrightarrow> n nm = Ok i \<and> i \<noteq> 0 \<and> 58 \<notin> set nm"
      using IH A(4) L(4) ok unaliased_plain [of "interface_name x"] by (simp add: new) metis
    show ?thesis by (intro conjI) (fact order addrs ixs names)+
  qed
qed (simp add: link_indexes_def)

lemma get_interfaces_links_first: "links_first {} (get_interfaces_inner2 ifaddrs n)"
  using interfaces_fold [OF prod.collapse [symmetric], of n ifaddrs] by (simp add: get_interfaces_inner2_def)

text \<open>In such a list an address belongs to an announced interface.\<close>

lemma links_first_announced:
  "links_first seen es \<Longrightarrow> NewAddr ix a p \<in> set es \<Longrightarrow> ix \<in> seen \<union> link_indexes es"
  by (induction seen es rule: links_first.induct) auto

section \<open>Properties\<close>



text \<open>What is reported of an interface is exact, from either source: of the six flags each is
reported if and only if the interface has it, and the prefix of a contiguous netmask is its length, for
both versions of IP.\<close>

theorem interface_details_exact:
  "(\<forall>(iff, f)\<in>set flag_table. (flags_contains (map_interface_flags flags) f \<longleftrightarrow> iff \<in> flags) \<and>
      (flags_contains (map_flags flags) f \<longleftrightarrow> iff \<in> flags)) \<and>
   (\<forall>k\<le>32. address_event ix (x\<lparr>ia_address := Some (SockaddrIn ip port), ia_netmask := Some (SockaddrIn (NOT (mask (32 - k))) port')\<rparr>) =
      [NewAddr ix (V4 ip) (word_of_nat k)]) \<and>
   (\<forall>k\<le>128. address_event ix (x\<lparr>ia_address := Some (SockaddrIn6 ipvsix port), ia_netmask := Some (SockaddrIn6 (NOT (mask (128 - k))) port')\<rparr>) =
      [NewAddr ix (V6 ipvsix) (word_of_nat k)])"
proof (intro conjI allI impI)
  show "\<forall>(iff, f)\<in>set flag_table. (flags_contains (map_interface_flags flags) f \<longleftrightarrow> iff \<in> flags) \<and>
      (flags_contains (map_flags flags) f \<longleftrightarrow> iff \<in> flags)"
    unfolding map_interface_flags_def map_flags_def using collect_flags_contains [of flags]
    by (simp add: flag_table_def)
  show "address_event ix (x\<lparr>ia_address := Some (SockaddrIn ip port), ia_netmask := Some (SockaddrIn (NOT (mask (32 - k))) port')\<rparr>) =
      [NewAddr ix (V4 ip) (word_of_nat k)]" if "k \<le> 32" for k
    using that by (simp add: address_event_def prefix_lens)
  show "address_event ix (x\<lparr>ia_address := Some (SockaddrIn6 ipvsix port), ia_netmask := Some (SockaddrIn6 (NOT (mask (128 - k))) port')\<rparr>) =
      [NewAddr ix (V6 ipvsix) (word_of_nat k)]" if "k \<le> 128" for k
    using that by (simp add: address_event_def prefix_lens)
qed

theorem interface_details_exact_witness:
  "flags_contains (map_flags {IffUp, IffMulticast}) MULTICAST \<and> \<not> flags_contains (map_flags {IffUp, IffMulticast}) RUNNING \<and>
   address_event 2 \<lparr>interface_name = [], ia_flags = {}, ia_address = Some (SockaddrIn 0x0A000001 0),
     ia_netmask = Some (SockaddrIn (NOT (mask (32 - 8))) 0)\<rparr> = [NewAddr 2 (V4 0x0A000001) 8]"
proof -
  note exact = interface_details_exact [where flags = "{IffUp, IffMulticast}" and ix = 2 and ip = "0x0A000001" and
      ipvsix = 0 and port = 0 and port' = 0 and
      x = "\<lparr>interface_name = [], ia_flags = {}, ia_address = None, ia_netmask = None\<rparr>"]
  have "address_event 2 \<lparr>interface_name = [], ia_flags = {}, ia_address = Some (SockaddrIn 0x0A000001 0),
     ia_netmask = Some (SockaddrIn (NOT (mask (32 - 8))) 0)\<rparr> = [NewAddr 2 (V4 0x0A000001) 8]"
    using spec [OF conjunct1 [OF conjunct2 [OF exact]], of 8] by simp
  then show ?thesis using conjunct1 [OF exact] by (simp add: flag_table_def)
qed

end
