(* ===== verification/Udp.thy ===== *)
theory Udp
  imports Ssdp_Engine Netif
begin

text \<open>
  \<open>cotton-ssdp/src/udp/\<close>: the sockets the engine is used with. \<open>std.rs\<close> talks to the system, \<open>mio.rs\<close>
  and \<open>tokio.rs\<close> wrap it, and \<open>smoltcp.rs\<close> adapts an embedded network stack. System calls and calls of
  smoltcp are parameters: functions from what is passed to what is returned. An address in memory is
  its four bytes in network order.
\<close>

section \<open>Sockets of the system\<close>

definition or_os_error :: "(nat, 'a) result \<Rightarrow> (IoError, 'a) result" where
  "or_os_error r = (case r of Inl errno \<Rightarrow> Err (OsError errno) | Inr x \<Rightarrow> Ok x)"

definition and_then :: "('e, 'a) result \<Rightarrow> ('a \<Rightarrow> ('e, 'b) result) \<Rightarrow> ('e, 'b) result" where
  "and_then r f = (case r of Inl e \<Rightarrow> Err e | Inr x \<Rightarrow> f x)"

definition setup_socket_inner ::
    "u16 \<Rightarrow> (IoError, 's) result \<Rightarrow> ('s \<Rightarrow> bool \<Rightarrow> (IoError, 's) result) \<Rightarrow> ('s \<Rightarrow> bool \<Rightarrow> (IoError, 's) result) \<Rightarrow>
       ('s \<Rightarrow> SocketAddr \<Rightarrow> (IoError, 's) result) \<Rightarrow> ('s \<Rightarrow> bool \<Rightarrow> (nat, 's) result) \<Rightarrow> (IoError, 's) result" where
  "setup_socket_inner port new_socket nonblocking reuse_address bind_to ipv4_packetinfo =
     and_then new_socket (\<lambda>s0.
     and_then (nonblocking s0 True) (\<lambda>s1.
     and_then (reuse_address s1 True) (\<lambda>s2.
     and_then (bind_to s2 (V4 0, port)) (\<lambda>s3.
     or_os_error (ipv4_packetinfo s3 True)))))"

record ip_mreqn =
  imr_multiaddr :: "u8 list"
  imr_address :: "u8 list"
  imr_ifindex :: u32

datatype MulticastOp = IP_ADD_MEMBERSHIP | IP_DROP_MEMBERSHIP

definition ipv4_multicast_operation ::
    "(MulticastOp \<Rightarrow> ip_mreqn \<Rightarrow> (nat, unit) result) \<Rightarrow> MulticastOp \<Rightarrow> IpAddr \<Rightarrow> InterfaceIndex \<Rightarrow> (IoError, unit) result"
  where
  "ipv4_multicast_operation setsockopt mop multicast_address ix =
     (case multicast_address of
        V4 mcast \<Rightarrow>
          or_os_error (setsockopt mop
            \<lparr>imr_multiaddr = u32_to_be_bytes mcast, imr_address = [0, 0, 0, 0], imr_ifindex = ix\<rparr>)
      | V6 _ \<Rightarrow> Err IoUnsupported)"

definition or_udp_error :: "Syscall \<Rightarrow> (IoError, 'a) result \<Rightarrow> (UdpError, 'a) result" where
  "or_udp_error call r = (case r of Inl e \<Rightarrow> Err (SyscallError call e) | Inr x \<Rightarrow> Ok x)"

definition join_multicast_group ::
    "(MulticastOp \<Rightarrow> ip_mreqn \<Rightarrow> (nat, unit) result) \<Rightarrow> IpAddr \<Rightarrow> InterfaceIndex \<Rightarrow> (UdpError, unit) result" where
  "join_multicast_group setsockopt a ix =
     or_udp_error JoinMulticast (ipv4_multicast_operation setsockopt IP_ADD_MEMBERSHIP a ix)"

definition leave_multicast_group ::
    "(MulticastOp \<Rightarrow> ip_mreqn \<Rightarrow> (nat, unit) result) \<Rightarrow> IpAddr \<Rightarrow> InterfaceIndex \<Rightarrow> (UdpError, unit) result" where
  "leave_multicast_group setsockopt a ix =
     or_udp_error LeaveMulticast (ipv4_multicast_operation setsockopt IP_DROP_MEMBERSHIP a ix)"

text \<open>\<open>join_multicast\<close> and \<open>leave_multicast\<close> of the engine, on such a socket.\<close>

definition engine_multicast ::
    "(MulticastOp \<Rightarrow> ip_mreqn \<Rightarrow> (nat, unit) result) \<Rightarrow> InterfaceIndex \<Rightarrow> bool \<Rightarrow> (UdpError, unit) result" where
  "engine_multicast setsockopt ix joining =
     (if joining then join_multicast_group setsockopt (V4 0xEFFFFFFA) ix
      else leave_multicast_group setsockopt (V4 0xEFFFFFFA) ix)"

text \<open>What \<open>sendmsg\<close> is given: the bytes, the source address as packet information, the destination.\<close>

record SendMsg =
  sm_bytes :: "u8 list"
  ipi_spec_dst :: "u8 list"
  sm_dest :: SocketAddr

definition send_from ::
    "(SendMsg \<Rightarrow> (nat, nat) result) \<Rightarrow> u8 list \<Rightarrow> SocketAddr \<Rightarrow> IpAddr \<Rightarrow> (IoError, unit) result" where
  "send_from sendmsg buffer dst src =
     (case src of
        V4 ip \<Rightarrow>
          (case sendmsg \<lparr>sm_bytes = buffer, ipi_spec_dst = u32_to_be_bytes ip, sm_dest = dst\<rparr> of
             Inl errno \<Rightarrow> Err (OsError errno)
           | Inr _ \<Rightarrow> Ok ())
      | V6 _ \<Rightarrow> Err IoOther)"

datatype ControlMessage = Ipv4PacketInfo "u8 list" | OtherMessage

record RecvMsg =
  rm_bytes :: nat
  rm_cmsgs :: "(nat, ControlMessage list) result"
  rm_address :: "SockaddrStorage option"

definition receive_using_recvmsg :: "(nat, RecvMsg) result \<Rightarrow> (IoError, nat \<times> IpAddr \<times> SockaddrStorage option) result" where
  "receive_using_recvmsg recvmsg =
     and_then (or_os_error recvmsg) (\<lambda>r.
     and_then (or_os_error (rm_cmsgs r)) (\<lambda>cmsgs.
     case cmsgs of
       Ipv4PacketInfo pi # _ \<Rightarrow> Ok (rm_bytes r, V4 (u32_from_be_bytes pi), rm_address r)
     | _ \<Rightarrow> Err IoInvalidData))"

definition receive_to_inner ::
    "(IoError, nat \<times> IpAddr \<times> SockaddrStorage option) result \<Rightarrow> (IoError, nat \<times> IpAddr \<times> SocketAddr) result" where
  "receive_to_inner recvmsg =
     and_then recvmsg (\<lambda>(bytes, rxon, address).
     case address of
       Some (SockaddrIn ip port) \<Rightarrow> Ok (bytes, rxon, (V4 ip, port))
     | _ \<Rightarrow> Err IoInvalidData)"

definition receive_to :: "(nat, RecvMsg) result \<Rightarrow> (IoError, nat \<times> IpAddr \<times> SocketAddr) result" where
  "receive_to recvmsg = receive_to_inner (receive_using_recvmsg recvmsg)"

section \<open>Asynchronous wrappers\<close>

text \<open>
  \<open>try_io\<close> of tokio runs the call if the socket is ready and fails otherwise; that of mio always runs
  it.
\<close>

definition try_io :: "IoError option \<Rightarrow> (IoError, 'a) result \<Rightarrow> (IoError, 'a) result" where
  "try_io not_ready r = (case not_ready of Some e \<Rightarrow> Err e | None \<Rightarrow> r)"

definition tokio_send_with ::
    "IoError option \<Rightarrow> (SendMsg \<Rightarrow> (nat, nat) result) \<Rightarrow> nat \<Rightarrow> SocketAddr \<Rightarrow> IpAddr \<Rightarrow>
       (u8 list \<Rightarrow> u8 list \<times> nat) \<Rightarrow> (UdpError, unit) result outcome" where
  "tokio_send_with not_ready sendmsg sz dst src f =
     (let (buffer, actual_size) = f (replicate sz 0) in
      obind (slice buffer 0 actual_size) (\<lambda>bytes.
      Ret (or_udp_error Sendmsg (try_io not_ready (send_from sendmsg bytes dst src)))))"

definition mio_send_with ::
    "(SendMsg \<Rightarrow> (nat, nat) result) \<Rightarrow> nat \<Rightarrow> SocketAddr \<Rightarrow> IpAddr \<Rightarrow>
       (u8 list \<Rightarrow> u8 list \<times> nat) \<Rightarrow> (UdpError, unit) result outcome" where
  "mio_send_with sendmsg sz dst src f =
     (let (buffer, actual_size) = f (replicate sz 0) in
      obind (slice buffer 0 actual_size) (\<lambda>bytes.
      Ret (or_udp_error Sendmsg (try_io None (send_from sendmsg bytes dst src)))))"

definition tokio_receive_to :: "IoError option \<Rightarrow> (nat, RecvMsg) result \<Rightarrow> (UdpError, nat \<times> IpAddr \<times> SocketAddr) result" where
  "tokio_receive_to not_ready recvmsg = or_udp_error Recvmsg (try_io not_ready (receive_to recvmsg))"

definition mio_receive_to :: "(nat, RecvMsg) result \<Rightarrow> (UdpError, nat \<times> IpAddr \<times> SocketAddr) result" where
  "mio_receive_to recvmsg = or_udp_error Recvmsg (try_io None (receive_to recvmsg))"

section \<open>Addresses of smoltcp\<close>

datatype Ipv4Address = Ipv4Address (octets: "u8 list")
datatype IpAddress = Ipv4 Ipv4Address | Ipv6 "u8 list"

record IpEndpoint =
  ep_addr :: IpAddress
  ep_port :: u16

datatype GenericIpv4Address = GenericIpv4Address u32
datatype GenericIpAddress = GenericIpAddress IpAddr
datatype GenericSocketAddr = GenericSocketAddr SocketAddr

definition ipv4_from_wire :: "Ipv4Address \<Rightarrow> GenericIpv4Address" where
  "ipv4_from_wire ip = GenericIpv4Address (u32_from_be_bytes (octets ip))"

fun ipv4_to_wire :: "GenericIpv4Address \<Rightarrow> Ipv4Address" where
  "ipv4_to_wire (GenericIpv4Address ip) = Ipv4Address (u32_to_be_bytes ip)"

fun ipv4_to_std :: "GenericIpv4Address \<Rightarrow> u32" where
  "ipv4_to_std (GenericIpv4Address ip) = ip"

definition ip_from_wire :: "IpAddress \<Rightarrow> GenericIpAddress" where
  "ip_from_wire ip =
     (case ip of Ipv4 v4 \<Rightarrow> GenericIpAddress (V4 (u32_from_be_bytes (octets v4))) | _ \<Rightarrow> GenericIpAddress (V4 0))"

fun ip_to_wire :: "GenericIpAddress \<Rightarrow> IpAddress" where
  "ip_to_wire (GenericIpAddress ip) =
     (case ip of V4 v4 \<Rightarrow> Ipv4 (Ipv4Address (u32_to_be_bytes v4)) | V6 _ \<Rightarrow> Ipv4 (Ipv4Address [0, 0, 0, 0]))"

fun ip_to_std :: "GenericIpAddress \<Rightarrow> IpAddr" where
  "ip_to_std (GenericIpAddress ip) = ip"

definition socket_from_wire :: "IpEndpoint \<Rightarrow> GenericSocketAddr" where
  "socket_from_wire ep =
     (case ep_addr ep of
        Ipv4 v4 \<Rightarrow> GenericSocketAddr (V4 (ipv4_to_std (ipv4_from_wire v4)), ep_port ep)
      | _ \<Rightarrow> GenericSocketAddr (V4 0, ep_port ep))"

fun socket_to_wire :: "GenericSocketAddr \<Rightarrow> IpEndpoint" where
  "socket_to_wire (GenericSocketAddr sa) =
     (case fst sa of
        V4 v4 \<Rightarrow> \<lparr>ep_addr = Ipv4 (ipv4_to_wire (GenericIpv4Address v4)), ep_port = snd sa\<rparr>
      | V6 _ \<Rightarrow> \<lparr>ep_addr = Ipv4 (Ipv4Address [0, 0, 0, 0]), ep_port = 0\<rparr>)"

fun socket_to_std :: "GenericSocketAddr \<Rightarrow> SocketAddr" where
  "socket_to_std (GenericSocketAddr sa) = sa"

section \<open>Sockets of smoltcp\<close>

definition smoltcp_join_multicast_group ::
    "(IpAddress \<Rightarrow> (nat, bool) result) \<Rightarrow> IpAddr \<Rightarrow> InterfaceIndex \<Rightarrow> (UdpError, unit) result" where
  "smoltcp_join_multicast_group iface_join a ix =
     (case iface_join (ip_to_wire (GenericIpAddress a)) of
        Inl e \<Rightarrow> Err (SmoltcpMulticast JoinMulticast e)
      | Inr _ \<Rightarrow> Ok ())"

definition smoltcp_leave_multicast_group :: "IpAddr \<Rightarrow> InterfaceIndex \<Rightarrow> (UdpError, unit) result" where
  "smoltcp_leave_multicast_group a ix = Err NotImplemented"

definition smoltcp_send_with ::
    "(nat \<Rightarrow> IpEndpoint \<Rightarrow> (u8 list \<Rightarrow> u8 list \<times> nat) \<Rightarrow> (nat, nat) result) \<Rightarrow> nat \<Rightarrow> SocketAddr \<Rightarrow> IpAddr \<Rightarrow>
       (u8 list \<Rightarrow> u8 list \<times> nat) \<Rightarrow> (UdpError, unit) result" where
  "smoltcp_send_with socket_send sz dst src f =
     (case socket_send sz (socket_to_wire (GenericSocketAddr dst)) f of
        Inl e \<Rightarrow> Err (SmoltcpUdpSend e)
      | Inr _ \<Rightarrow> Ok ())"

section \<open>Properties\<close>

lemma builders_fit:
  "snd (build buf pieces) \<le> length (fst (build buf pieces)) \<and> snd (build buf pieces) \<le> length buf"
  using write_pieces_prefix [of "cursor_new buf" pieces] by (auto simp: build_def Let_def cursor_new_def)

lemma mio_sends_datagram:
  assumes "f (replicate sz 0) = (b, n)" and "n \<le> length b"
  shows "\<exists>d. send_with sz dst src f = Sent d \<and> length (dg_bytes d) = n \<and>
    mio_send_with sendmsg sz dst src f = Ret (or_udp_error Sendmsg (send_from sendmsg (dg_bytes d) (dg_to d) (dg_from d)))"
  using assms by (simp add: send_with_def mio_send_with_def try_io_def)



lemma u32_octets:
  assumes "length bs = 4"
  shows "u32_to_be_bytes (u32_from_be_bytes bs) = bs"
proof -
  have "from_be bs < 2 ^ 32" using from_be_bound [of bs] assms by simp
  then have "unat (word_of_nat (from_be bs) :: u32) = from_be bs" by (simp add: unat_of_nat take_bit_eq_mod)
  then have "u32_to_be_bytes (u32_from_be_bytes bs) = be_bytes 4 (from_be bs)"
    by (simp only: u32_to_be_bytes_def u32_from_be_bytes_def)
  also have "\<dots> = rev (le_bytes (length (rev bs)) (from_le (rev bs)))"
    by (simp only: be_bytes_def from_be_def length_rev assms)
  finally show ?thesis by (simp only: le_bytes_from_le rev_rev_ident)
qed

text \<open>C34: the addresses of smoltcp and those of the standard library are translated without loss for
IPv4, in both directions, with their ports; an IPv6 destination, however, silently becomes the
unspecified IPv4 address with port 0, and the leaving of a group is never carried out.\<close>

theorem smoltcp_addresses_roundtrip:
  "socket_to_std (socket_from_wire (socket_to_wire (GenericSocketAddr (V4 a, port)))) = (V4 a, port) \<and>
   ip_to_std (ip_from_wire (ip_to_wire (GenericIpAddress (V4 a)))) = V4 a \<and>
   ipv4_to_std (ipv4_from_wire (ipv4_to_wire (GenericIpv4Address a))) = a \<and>
   (length bs = 4 \<longrightarrow> socket_to_wire (socket_from_wire \<lparr>ep_addr = Ipv4 (Ipv4Address bs), ep_port = port\<rparr>) =
      \<lparr>ep_addr = Ipv4 (Ipv4Address bs), ep_port = port\<rparr> \<and>
      ip_to_wire (ip_from_wire (Ipv4 (Ipv4Address bs))) = Ipv4 (Ipv4Address bs)) \<and>
   smoltcp_send_with socket_send sz (V6 v, port) src f = smoltcp_send_with socket_send sz (V4 0, 0) src f \<and>
   smoltcp_leave_multicast_group g ix = Err NotImplemented"
proof -
  have "u32_from_be_bytes [0, 0, 0, 0] = 0" by (simp add: u32_from_be_bytes_def from_be_def)
  then have "u32_to_be_bytes 0 = [0, 0, 0, 0]" using u32_octets [of "[0, 0, 0, 0]"] by simp
  then show ?thesis
    by (simp add: socket_from_wire_def ip_from_wire_def ipv4_from_wire_def u32_be_roundtrip u32_octets
        smoltcp_send_with_def smoltcp_leave_multicast_group_def)
qed

theorem smoltcp_addresses_roundtrip_witness:
  "socket_to_wire (socket_from_wire \<lparr>ep_addr = Ipv4 (Ipv4Address [169, 254, 11, 11]), ep_port = 8080\<rparr>) =
     \<lparr>ep_addr = Ipv4 (Ipv4Address [169, 254, 11, 11]), ep_port = 8080\<rparr>"
  using smoltcp_addresses_roundtrip [where bs = "[169, 254, 11, 11]" and port = 8080 and sz = 0 and src = "V4 0" and
      socket_send = "\<lambda>_ _ _. Ok 0" and f = "\<lambda>b. (b, 0)" and v = 0 and a = 0 and g = "V4 0" and ix = 1] by simp

end
