(* ===== verification/Ssdp_Service.thy ===== *)
theory Ssdp_Service
  imports Udp
begin

text \<open>
  \<open>cotton-ssdp/src/service.rs\<close> and \<open>async_service.rs\<close>: the engine with its two sockets and its list of
  interfaces. What a socket receives is given as a list: the buffer after each call with the result and
  the time of the call; the loops end at the first error, or when the list is used up and the call would
  block. The task of the asynchronous service handles one event at a time, and a panic while the engine
  is locked poisons the lock for good.
\<close>

section \<open>The service\<close>

record ('cb, 'i, 's) Service =
  sv_engine :: "('cb, 'i) Engine"
  sv_multicast_socket :: 's
  sv_search_socket :: 's

text \<open>The loop over network events, whose errors are ignored.\<close>

definition feed_event ::
    "(IpAddr \<Rightarrow> str) \<Rightarrow> (InterfaceIndex \<Rightarrow> bool \<Rightarrow> (UdpError, unit) result) \<Rightarrow>
       ('cb, 'i) Engine \<times> 'cb Output list \<Rightarrow> NetworkEvent \<Rightarrow> ('cb, 'i) Engine \<times> 'cb Output list" where
  "feed_event show_ip mc = (\<lambda>(e, out) netif.
     case on_network_event show_ip mc netif e of (e', _, out') \<Rightarrow> (e', out @ out'))"

definition service_new_inner ::
    "(IpAddr \<Rightarrow> str) \<Rightarrow> ('s \<Rightarrow> InterfaceIndex \<Rightarrow> bool \<Rightarrow> (UdpError, unit) result) \<Rightarrow> (u16 \<Rightarrow> (IoError, 's) result) \<Rightarrow>
       ('s \<Rightarrow> 't \<Rightarrow> (IoError, 's) result) \<Rightarrow> 't \<times> 't \<Rightarrow> u32 \<Rightarrow> 'i \<Rightarrow> NetworkEvent list \<Rightarrow>
       (IoError, ('cb, 'i, 's) Service) result \<times> 'cb Output list" where
  "service_new_inner show_ip mc socket register tokens random now ifs =
     (case socket 1900 of
        Inl err \<Rightarrow> (Err err, [])
      | Inr multicast_socket \<Rightarrow>
          (case socket 0 of
             Inl err \<Rightarrow> (Err err, [])
           | Inr search_socket \<Rightarrow>
               (case foldl (feed_event show_ip (mc multicast_socket)) (engine_new random now, []) ifs of
                  (e, out) \<Rightarrow>
                    (and_then (register multicast_socket (fst tokens)) (\<lambda>m.
                     and_then (register search_socket (snd tokens)) (\<lambda>s.
                     Ok \<lparr>sv_engine = e, sv_multicast_socket = m, sv_search_socket = s\<rparr>)), out))))"

definition service_new ::
    "(IpAddr \<Rightarrow> str) \<Rightarrow> ('s \<Rightarrow> InterfaceIndex \<Rightarrow> bool \<Rightarrow> (UdpError, unit) result) \<Rightarrow> (u16 \<Rightarrow> (IoError, 's) result) \<Rightarrow>
       ('s \<Rightarrow> 't \<Rightarrow> (IoError, 's) result) \<Rightarrow> 't \<times> 't \<Rightarrow> u32 \<Rightarrow> 'i \<Rightarrow>
       (nat, InterfaceAddress list) result \<Rightarrow> (str \<Rightarrow> (nat, u32) result) \<Rightarrow>
       (IoError, ('cb, 'i, 's) Service) result \<times> 'cb Output list" where
  "service_new show_ip mc setup_socket register tokens random now getifaddrs nametoindex =
     (case get_interfaces_inner getifaddrs nametoindex of
        Inl err \<Rightarrow> (Err err, [])
      | Inr ifs \<Rightarrow> service_new_inner show_ip mc setup_socket register tokens random now ifs)"

definition on_engine ::
    "(('cb, 'i) Engine \<Rightarrow> ('cb, 'i) Engine \<times> 'cb Output list) \<Rightarrow> ('cb, 'i, 's) Service \<Rightarrow>
       ('cb, 'i, 's) Service \<times> 'cb Output list" where
  "on_engine f sv = (case f (sv_engine sv) of (e, out) \<Rightarrow> (sv\<lparr>sv_engine := e\<rparr>, out))"

definition service_subscribe ::
    "('cb ActiveSearch list \<Rightarrow> 'cb ActiveSearch \<Rightarrow> 'cb ActiveSearch list) \<Rightarrow> str \<Rightarrow> 'cb \<Rightarrow> ('cb, 'i, 's) Service \<Rightarrow>
       ('cb, 'i, 's) Service \<times> 'cb Output list" where
  "service_subscribe ins nt callback = on_engine (subscribe ins nt callback)"

definition service_advertise ::
    "(IpAddr \<Rightarrow> str) \<Rightarrow> str \<Rightarrow> Advertisement \<Rightarrow> ('cb, 'i, 's) Service \<Rightarrow> ('cb, 'i, 's) Service \<times> 'cb Output list" where
  "service_advertise show_ip usn a = on_engine (advertise show_ip usn a)"

definition service_deadvertise :: "str \<Rightarrow> ('cb, 'i, 's) Service \<Rightarrow> ('cb, 'i, 's) Service \<times> 'cb Output list" where
  "service_deadvertise usn = on_engine (deadvertise usn)"

type_synonym 'i receipt = "u8 list \<times> (UdpError, nat \<times> IpAddr \<times> SocketAddr) result \<times> 'i"

fun receive_loop ::
    "('i \<Rightarrow> nat \<Rightarrow> 'i) \<Rightarrow> 'i receipt list \<Rightarrow> ('cb, 'i) Engine \<Rightarrow> (('cb, 'i) Engine \<times> 'cb Output list) outcome" where
  "receive_loop add [] e = Ret (e, [])"
| "receive_loop add ((buf, Inl err, now) # rs) e = Ret (e, [])"
| "receive_loop add ((buf, Inr (n, wasto, wasfrom), now) # rs) e =
     obind (slice buf 0 n) (\<lambda>bytes.
     obind (on_data add bytes wasto wasfrom now e) (\<lambda>(e', out).
     obind (receive_loop add rs e') (\<lambda>(e'', out').
     Ret (e'', out @ out'))))"

definition multicast_ready ::
    "('i \<Rightarrow> nat \<Rightarrow> 'i) \<Rightarrow> 'i receipt list \<Rightarrow> ('cb, 'i, 's) Service \<Rightarrow> (('cb, 'i, 's) Service \<times> 'cb Output list) outcome" where
  "multicast_ready add rs sv =
     obind (receive_loop add rs (sv_engine sv)) (\<lambda>(e, out). Ret (sv\<lparr>sv_engine := e\<rparr>, out))"

definition search_ready ::
    "('i \<Rightarrow> nat \<Rightarrow> 'i) \<Rightarrow> 'i receipt list \<Rightarrow> ('cb, 'i, 's) Service \<Rightarrow> (('cb, 'i, 's) Service \<times> 'cb Output list) outcome" where
  "search_ready add rs sv =
     obind (receive_loop add rs (sv_engine sv)) (\<lambda>(e, out). Ret (sv\<lparr>sv_engine := e\<rparr>, out))"

text \<open>\<open>sub\<close> is the subtraction of two moments, which does not go below zero.\<close>

definition next_wakeup :: "('i \<Rightarrow> 'i \<Rightarrow> nat) \<Rightarrow> 'i \<Rightarrow> ('cb, 'i::linorder, 's) Service \<Rightarrow> nat" where
  "next_wakeup sub now sv = sub (poll_timeout (sv_engine sv)) now"

definition wakeup ::
    "('i \<Rightarrow> nat \<Rightarrow> 'i) \<Rightarrow> (IpAddr \<Rightarrow> str) \<Rightarrow> 'i::linorder \<Rightarrow> ('cb, 'i, 's) Service \<Rightarrow>
       ('cb, 'i, 's) Service \<times> 'cb Output list" where
  "wakeup add show_ip now = on_engine (handle_timeout add show_ip now)"

section \<open>The asynchronous service\<close>

text \<open>A callback puts a notification into a channel of 100 places, and drops it if there is no place.\<close>

record Channel =
  ch_queue :: "Notification list"
  ch_closed :: bool

definition channel_new :: Channel where "channel_new = \<lparr>ch_queue = [], ch_closed = False\<rparr>"

definition async_on_notification :: "Channel \<Rightarrow> Notification \<Rightarrow> Channel" where
  "async_on_notification ch n =
     (if ch_closed ch \<or> length (ch_queue ch) \<ge> 100 then ch else ch\<lparr>ch_queue := ch_queue ch @ [n]\<rparr>)"

record ('cb, 'i, 's) AsyncService =
  ai_engine :: "('cb, 'i) Engine"
  ai_multicast_socket :: 's
  ai_search_socket :: 's
  ai_poisoned :: bool
  ai_running :: bool

definition async_inner_new ::
    "(u16 \<Rightarrow> (IoError, 'n) result) \<Rightarrow> ('n \<Rightarrow> (IoError, 's) result) \<Rightarrow> ('cb, 'i) Engine \<Rightarrow>
       (IoError, ('cb, 'i) Engine \<times> 's \<times> 's) result" where
  "async_inner_new setup_socket from_std e =
     and_then (setup_socket 1900) (\<lambda>multicast.
     and_then (setup_socket 0) (\<lambda>search.
     and_then (from_std multicast) (\<lambda>m.
     and_then (from_std search) (\<lambda>s.
     Ok (e, m, s)))))"

definition async_new_inner ::
    "(('cb, 'i) Engine \<Rightarrow> (IoError, ('cb, 'i) Engine \<times> 's \<times> 's) result) \<Rightarrow> u32 \<Rightarrow> 'i \<Rightarrow>
       (IoError, ('cb, 'i, 's) AsyncService) result" where
  "async_new_inner create random now =
     and_then (create (engine_new random now)) (\<lambda>(e, m, s).
     Ok \<lparr>ai_engine = e, ai_multicast_socket = m, ai_search_socket = s, ai_poisoned = False, ai_running = True\<rparr>)"

text \<open>
  A call with the engine locked: it panics if the lock is poisoned, and poisons it if the call panics;
  after that the engine is out of reach.
\<close>

definition locked ::
    "(('cb, 'i) Engine \<Rightarrow> (('cb, 'i) Engine \<times> 'a) outcome) \<Rightarrow> ('cb, 'i, 's) AsyncService \<Rightarrow>
       ('cb, 'i, 's) AsyncService \<times> 'a outcome" where
  "locked f st =
     (if ai_poisoned st then (st, Panic)
      else case f (ai_engine st) of
        Panic \<Rightarrow> (st\<lparr>ai_poisoned := True\<rparr>, Panic)
      | Ret (e, x) \<Rightarrow> (st\<lparr>ai_engine := e\<rparr>, Ret x))"

definition async_on_network_event ::
    "(IpAddr \<Rightarrow> str) \<Rightarrow> (InterfaceIndex \<Rightarrow> bool \<Rightarrow> (UdpError, unit) result) \<Rightarrow> NetworkEvent \<Rightarrow> ('cb, 'i, 's) AsyncService \<Rightarrow>
       ('cb, 'i, 's) AsyncService \<times> ((UdpError, unit) result \<times> 'cb Output list) outcome" where
  "async_on_network_event show_ip mc ev = locked (\<lambda>e. Ret (on_network_event show_ip mc ev e))"

definition async_subscribe ::
    "('cb ActiveSearch list \<Rightarrow> 'cb ActiveSearch \<Rightarrow> 'cb ActiveSearch list) \<Rightarrow> str \<Rightarrow> 'cb \<Rightarrow> ('cb, 'i, 's) AsyncService \<Rightarrow>
       ('cb, 'i, 's) AsyncService \<times> 'cb Output list outcome" where
  "async_subscribe ins nt sender = locked (\<lambda>e. Ret (subscribe ins nt sender e))"

definition async_advertise ::
    "(IpAddr \<Rightarrow> str) \<Rightarrow> str \<Rightarrow> Advertisement \<Rightarrow> ('cb, 'i, 's) AsyncService \<Rightarrow>
       ('cb, 'i, 's) AsyncService \<times> 'cb Output list outcome" where
  "async_advertise show_ip usn a = locked (\<lambda>e. Ret (advertise show_ip usn a e))"

definition async_deadvertise ::
    "str \<Rightarrow> ('cb, 'i, 's) AsyncService \<Rightarrow> ('cb, 'i, 's) AsyncService \<times> 'cb Output list outcome" where
  "async_deadvertise usn = locked (\<lambda>e. Ret (deadvertise usn e))"

text \<open>
  One round of the task: a readable socket is drained, or the time of the engine has come. Every round
  takes the lock at its beginning, to compute that time.
\<close>

datatype 'i TaskEvent = MulticastReadable "'i receipt list" | SearchReadable "'i receipt list" | Elapsed 'i

definition task_round ::
    "('i \<Rightarrow> nat \<Rightarrow> 'i) \<Rightarrow> (IpAddr \<Rightarrow> str) \<Rightarrow> 'i::linorder TaskEvent \<Rightarrow> ('cb, 'i, 's) AsyncService \<Rightarrow>
       ('cb, 'i, 's) AsyncService \<times> 'cb Output list outcome" where
  "task_round add show_ip ev st =
     (if \<not> ai_running st then (st, Ret [])
      else case
        (case ev of
           MulticastReadable rs \<Rightarrow> locked (receive_loop add rs) st
         | SearchReadable rs \<Rightarrow> locked (receive_loop add rs) st
         | Elapsed now \<Rightarrow> locked (\<lambda>e. Ret (handle_timeout add show_ip now e)) st) of
        (st', Panic) \<Rightarrow> (st'\<lparr>ai_running := False\<rparr>, Panic)
      | (st', Ret out) \<Rightarrow> (st', Ret out))"

section \<open>Receiving\<close>

text \<open>The datagrams that a loop takes from its socket: all up to the first error.\<close>

fun datagrams :: "'i receipt list \<Rightarrow> u8 list list" where
  "datagrams [] = []"
| "datagrams ((buf, Inl err, now) # rs) = []"
| "datagrams ((buf, Inr (n, wasto, wasfrom), now) # rs) = take n buf # datagrams rs"

text \<open>The system does not report more bytes than the buffer has.\<close>

definition within_buffer :: "'i receipt list \<Rightarrow> bool" where
  "within_buffer rs = list_all (\<lambda>(buf, r, now). case r of Inl _ \<Rightarrow> True | Inr (n, _) \<Rightarrow> n \<le> length buf) rs"

definition zero_wait :: "u8 list \<Rightarrow> bool" where
  "zero_wait bytes \<longleftrightarrow> (\<exists>st. parse bytes = Ok (Search st 0))"

lemma on_data_total: "\<not> zero_wait bytes \<Longrightarrow> \<exists>e' out. on_data add bytes wasto wasfrom now e = Ret (e', out)"
  using on_data_Panic [of add bytes wasto wasfrom now e]
  by (cases "on_data add bytes wasto wasfrom now e") (auto simp: zero_wait_def)

lemma receive_loop_Panic:
  "within_buffer rs \<Longrightarrow> receive_loop add rs e = Panic \<longleftrightarrow> (\<exists>d\<in>set (datagrams rs). zero_wait d)"
proof (induction add rs e rule: receive_loop.induct)
  case (3 add buf n wasto wasfrom now rs e)
  have n: "n \<le> length buf" and rs: "within_buffer rs" using "3.prems" by (simp_all add: within_buffer_def)
  show ?case
  proof (cases "zero_wait (take n buf)")
    case True
    then have "on_data add (take n buf) wasto wasfrom now e = Panic" by (simp add: on_data_Panic zero_wait_def)
    then show ?thesis using True n by simp
  next
    case False
    then obtain e' out where r: "on_data add (take n buf) wasto wasfrom now e = Ret (e', out)"
      using on_data_total [OF False, of add wasto wasfrom now e] by blast
    have "receive_loop add rs e' = Panic \<longleftrightarrow> (\<exists>d\<in>set (datagrams rs). zero_wait d)"
      by (rule "3.IH" [OF rs])
    then show ?thesis using False n r by (auto simp: obind_Panic_iff)
  qed
qed (simp_all add: within_buffer_def)

lemma receive_loop_ok:
  "engine_ok e \<Longrightarrow> receive_loop add rs e = Ret (e', out) \<Longrightarrow> engine_ok e'"
proof (induction add rs e arbitrary: e' out rule: receive_loop.induct)
  case (3 add buf n wasto wasfrom now rs e)
  from "3.prems"(2) obtain bytes e1 out1 out2 where
    1: "slice buf 0 n = Ret bytes" "on_data add bytes wasto wasfrom now e = Ret (e1, out1)"
      "receive_loop add rs e1 = Ret (e', out2)"
    by (auto simp: obind_Ret_iff)
  show ?case using "3.IH" [OF engine_ok_data [OF "3.prems"(1) 1(2)] 1(3)] .
qed simp_all

section \<open>Poisoning\<close>

text \<open>What can happen to an asynchronous service: calls of its operations and rounds of its task.\<close>

inductive async_step ::
    "('i::linorder \<Rightarrow> nat \<Rightarrow> 'i) \<Rightarrow> (IpAddr \<Rightarrow> str) \<Rightarrow> ('cb ActiveSearch list \<Rightarrow> 'cb ActiveSearch \<Rightarrow> 'cb ActiveSearch list) \<Rightarrow>
       ('cb, 'i, 's) AsyncService \<Rightarrow> ('cb, 'i, 's) AsyncService \<Rightarrow> bool" for add show_ip ins where
  step_network: "async_step add show_ip ins st (fst (async_on_network_event show_ip mc ev st))"
| step_subscribe: "async_step add show_ip ins st (fst (async_subscribe ins nt cb st))"
| step_advertise: "async_step add show_ip ins st (fst (async_advertise show_ip usn a st))"
| step_deadvertise: "async_step add show_ip ins st (fst (async_deadvertise usn st))"
| step_task: "async_step add show_ip ins st (fst (task_round add show_ip tev st))"

definition async_steps ::
    "('i::linorder \<Rightarrow> nat \<Rightarrow> 'i) \<Rightarrow> (IpAddr \<Rightarrow> str) \<Rightarrow> ('cb ActiveSearch list \<Rightarrow> 'cb ActiveSearch \<Rightarrow> 'cb ActiveSearch list) \<Rightarrow>
       ('cb, 'i, 's) AsyncService \<Rightarrow> ('cb, 'i, 's) AsyncService \<Rightarrow> bool" where
  "async_steps add show_ip ins = (async_step add show_ip ins)\<^sup>*\<^sup>*"

lemma locked_poisoned [simp]: "ai_poisoned st \<Longrightarrow> locked f st = (st, Panic)"
  by (simp add: locked_def)

lemma task_round_poisoned: "ai_poisoned st \<Longrightarrow> ai_poisoned (fst (task_round add show_ip ev st))"
  by (cases ev) (simp_all add: task_round_def)

lemmas async_api_defs = async_on_network_event_def async_subscribe_def async_advertise_def async_deadvertise_def

lemma async_step_poisoned: "async_step add show_ip ins st st' \<Longrightarrow> ai_poisoned st \<Longrightarrow> ai_poisoned st'"
  by (induction rule: async_step.induct) (simp_all add: async_api_defs task_round_poisoned)

lemma async_steps_poisoned: "async_steps add show_ip ins st st' \<Longrightarrow> ai_poisoned st \<Longrightarrow> ai_poisoned st'"
  unfolding async_steps_def by (induction rule: rtranclp_induct) (auto intro: async_step_poisoned)

lemma locked_engine_ok:
  assumes "\<not> ai_poisoned st \<and> engine_ok (ai_engine st)" and "f (ai_engine st) = Ret (e, x)" and "engine_ok e"
  shows "\<exists>st'. locked f st = (st', Ret x) \<and> \<not> ai_poisoned st' \<and> engine_ok (ai_engine st') \<and> ai_running st' = ai_running st"
  using assms by (simp add: locked_def)

lemma async_step_stopped: "async_step add show_ip ins st st' \<Longrightarrow> \<not> ai_running st \<Longrightarrow> \<not> ai_running st'"
  by (induction rule: async_step.induct)
    (auto simp: async_api_defs task_round_def locked_def split: outcome.splits prod.splits)

lemma async_steps_stopped: "async_steps add show_ip ins st st' \<Longrightarrow> \<not> ai_running st \<Longrightarrow> \<not> ai_running st'"
  unfolding async_steps_def by (induction rule: rtranclp_induct) (use async_step_stopped in \<open>blast+\<close>)

definition healthy :: "('cb, 'i, 's) AsyncService \<Rightarrow> bool" where
  "healthy st \<longleftrightarrow> ai_running st \<and> \<not> ai_poisoned st \<and> engine_ok (ai_engine st)"

definition poisonous :: "'i TaskEvent \<Rightarrow> bool" where
  "poisonous ev = (case ev of
     MulticastReadable rs \<Rightarrow> list_ex zero_wait (datagrams rs)
   | SearchReadable rs \<Rightarrow> list_ex zero_wait (datagrams rs)
   | Elapsed now \<Rightarrow> False)"

definition event_within_buffer :: "'i TaskEvent \<Rightarrow> bool" where
  "event_within_buffer ev = (case ev of
     MulticastReadable rs \<Rightarrow> within_buffer rs | SearchReadable rs \<Rightarrow> within_buffer rs | Elapsed now \<Rightarrow> True)"

lemma locked_healthy:
  assumes "healthy st" and "f (ai_engine st) = Ret (e, x)" and "engine_ok e"
  shows "healthy (fst (locked f st)) \<and> snd (locked f st) = Ret x"
  using assms by (simp add: locked_def healthy_def)

lemma locked_total:
  assumes "healthy st" and "engine_ok (fst (g (ai_engine st)))"
  shows "healthy (fst (locked (\<lambda>e. Ret (g e)) st)) \<and> snd (locked (\<lambda>e. Ret (g e)) st) \<noteq> Panic"
  using assms by (cases "g (ai_engine st)") (simp add: locked_def healthy_def)

lemma healthy_api:
  assumes "healthy st"
  shows "healthy (fst (async_on_network_event show_ip mc ev st)) \<and> snd (async_on_network_event show_ip mc ev st) \<noteq> Panic"
    and "healthy (fst (async_subscribe ins nt cb st)) \<and> snd (async_subscribe ins nt cb st) \<noteq> Panic"
    and "healthy (fst (async_advertise show_ip usn a st)) \<and> snd (async_advertise show_ip usn a st) \<noteq> Panic"
    and "healthy (fst (async_deadvertise usn st)) \<and> snd (async_deadvertise usn st) \<noteq> Panic"
proof -
  have ok: "engine_ok (ai_engine st)" using assms by (simp add: healthy_def)
  then have "engine_ok (fst (subscribe ins nt cb (ai_engine st)))" by (simp add: subscribe_def engine_ok_def)
  note keep = this engine_ok_network [OF ok] engine_ok_advertise [OF ok]
  show "healthy (fst (async_on_network_event show_ip mc ev st)) \<and> snd (async_on_network_event show_ip mc ev st) \<noteq> Panic"
    "healthy (fst (async_subscribe ins nt cb st)) \<and> snd (async_subscribe ins nt cb st) \<noteq> Panic"
    "healthy (fst (async_advertise show_ip usn a st)) \<and> snd (async_advertise show_ip usn a st) \<noteq> Panic"
    "healthy (fst (async_deadvertise usn st)) \<and> snd (async_deadvertise usn st) \<noteq> Panic"
    unfolding async_api_defs by (rule locked_total [OF assms], rule keep)+
qed

lemma healthy_task:
  assumes "healthy st" and "event_within_buffer ev" and "\<not> poisonous ev"
  shows "healthy (fst (task_round add show_ip ev st)) \<and> snd (task_round add show_ip ev st) \<noteq> Panic"
proof -
  have ok: "engine_ok (ai_engine st)" and up: "ai_running st" "\<not> ai_poisoned st" using assms(1) by (simp_all add: healthy_def)
  have drain: "healthy (fst (locked (receive_loop add rs) st)) \<and> snd (locked (receive_loop add rs) st) \<noteq> Panic"
    if rs: "within_buffer rs" "\<not> list_ex zero_wait (datagrams rs)" for rs
  proof -
    have "receive_loop add rs (ai_engine st) \<noteq> Panic"
      using receive_loop_Panic [OF rs(1), of add "ai_engine st"] rs(2) by (simp add: list_ex_iff)
    then obtain e out where "receive_loop add rs (ai_engine st) = Ret (e, out)"
      by (cases "receive_loop add rs (ai_engine st)") auto
    then show ?thesis using locked_healthy [of st "receive_loop add rs"] assms(1) receive_loop_ok [OF ok] by simp
  qed
  have wake: "healthy (fst (locked (\<lambda>e. Ret (handle_timeout add show_ip now e)) st)) \<and>
      snd (locked (\<lambda>e. Ret (handle_timeout add show_ip now e)) st) \<noteq> Panic" for now
    by (rule locked_total [OF assms(1)], rule engine_ok_timeout [OF ok])
  show ?thesis
  proof (cases ev)
    case (MulticastReadable rs)
    then show ?thesis
      using drain [of rs] assms(2,3) up
      by (auto simp: task_round_def event_within_buffer_def poisonous_def split: prod.split outcome.split)
  next
    case (SearchReadable rs)
    then show ?thesis
      using drain [of rs] assms(2,3) up
      by (auto simp: task_round_def event_within_buffer_def poisonous_def split: prod.split outcome.split)
  next
    case (Elapsed now)
    then show ?thesis using wake [of now] up by (auto simp: task_round_def split: prod.split outcome.split)
  qed
qed

lemma poisonous_task:
  assumes "healthy st" and "event_within_buffer ev" and "poisonous ev"
  shows "ai_poisoned (fst (task_round add show_ip ev st)) \<and> \<not> ai_running (fst (task_round add show_ip ev st))"
proof -
  obtain rs where rs: "ev = MulticastReadable rs \<or> ev = SearchReadable rs" "list_ex zero_wait (datagrams rs)" "within_buffer rs"
    using assms(2,3) by (cases ev) (simp_all add: poisonous_def event_within_buffer_def)
  then have "receive_loop add rs (ai_engine st) = Panic"
    using receive_loop_Panic [OF rs(3), of add "ai_engine st"] by (simp add: list_ex_iff)
  then show ?thesis using rs(1) assms(1) by (auto simp: task_round_def locked_def healthy_def)
qed

section \<open>The interfaces at the start\<close>

text \<open>
  What an engine should know of an interface after a list of events: that it is there if it is capable
  of multicast and its group could be joined, whether it is up, and all its IPv4 addresses.
\<close>

definition iface_as_listed ::
    "(InterfaceIndex \<Rightarrow> bool \<Rightarrow> (UdpError, unit) result) \<Rightarrow> NetworkEvent list \<Rightarrow> InterfaceIndex \<Rightarrow> Interface option \<Rightarrow> bool" where
  "iface_as_listed mc evs ix m \<longleftrightarrow> (case m of
     None \<Rightarrow> \<not> (\<exists>name f. NewLink ix name f \<in> set evs \<and> flags_contains f MULTICAST \<and> mc ix True = Ok ())
   | Some i \<Rightarrow>
       (\<exists>name f. NewLink ix name f \<in> set evs \<and> flags_contains f MULTICAST \<and> mc ix True = Ok () \<and>
          up i = flags_contains f (flags_or RUNNING UP)) \<and>
       set (ips i) = {a. is_ipv4 a \<and> (\<exists>p. NewAddr ix a p \<in> set evs)})"

lemma feed_link:
  assumes "links_first {} (evs @ [NewLink ix name f])" and "engine_ok e"
    and "\<And>ix. iface_as_listed mc evs ix (bt_get ix (interfaces e))"
  shows "iface_as_listed mc (evs @ [NewLink ix name f]) jx
    (bt_get jx (interfaces (fst (on_new_link_event show_ip mc ix f e))))"
proof -
  have wf: "bt_wf (interfaces e)" using assms(2) by (simp add: engine_ok_def)
  have new: "ix \<notin> link_indexes evs" and evs: "links_first {} evs" using assms(1) by (simp_all add: links_first_append)
  then have no: "NewLink ix nm g \<notin> set evs" "NewAddr ix a p \<notin> set evs" for nm g a p
    using links_first_announced [OF evs, of ix a p] by (auto simp: link_indexes_def)
  then have none: "bt_get ix (interfaces e) = None"
    using assms(3) [of ix] by (cases "bt_get ix (interfaces e)") (auto simp: iface_as_listed_def)
  show ?thesis
  proof (cases "jx = ix")
    case True
    then show ?thesis
      using none no by (auto simp: on_new_link_event_def Let_def iface_as_listed_def bt.get_insert [OF wf] split: sum.split)
  next
    case False
    then have "bt_get jx (interfaces (fst (on_new_link_event show_ip mc ix f e))) = bt_get jx (interfaces e)"
      using none by (auto simp: on_new_link_event_def Let_def bt.get_insert [OF wf] split: sum.split)
    then show ?thesis using assms(3) [of jx] False by (auto simp: iface_as_listed_def split: option.splits)
  qed
qed

lemma feed_addr:
  assumes "\<And>ix. iface_as_listed mc evs ix (bt_get ix (interfaces e))"
  shows "iface_as_listed mc (evs @ [NewAddr ix a p]) jx
    (bt_get jx (interfaces (fst (on_new_addr_event show_ip ix a e))))"
proof (cases "bt_get ix (interfaces e)")
  case None
  then show ?thesis
    using assms [of jx] by (auto simp: on_new_addr_event_def iface_as_listed_def split: option.splits if_splits)
next
  case (Some v)
  then have v: "iface_as_listed mc evs ix (Some v)" using assms [of ix] by simp
  show ?thesis
  proof (cases "jx = ix")
    case True
    then show ?thesis
      using Some v by (auto simp: on_new_addr_event_def Let_def iface_as_listed_def bt_get_modify)
  next
    case False
    then have "bt_get jx (interfaces (fst (on_new_addr_event show_ip ix a e))) = bt_get jx (interfaces e)"
      using Some by (simp add: on_new_addr_event_def Let_def bt_get_modify)
    then show ?thesis using assms [of jx] False by (auto simp: iface_as_listed_def split: option.splits)
  qed
qed

lemma feed_events:
  assumes "links_first {} evs"
  shows "engine_ok (fst (foldl (feed_event show_ip mc) (engine_new random now :: ('cb, 'i) Engine, []) evs)) \<and>
    iface_as_listed mc evs ix (bt_get ix (interfaces (fst (foldl (feed_event show_ip mc) (engine_new random now :: ('cb, 'i) Engine, []) evs))))"
  using assms
proof (induction evs arbitrary: ix rule: rev_induct)
  case Nil
  then show ?case using engine_ok_new by (simp add: iface_as_listed_def) (simp add: engine_new_def bt.get_empty)
next
  case (snoc ev evs)
  define e where "e = fst (foldl (feed_event show_ip mc) (engine_new random now :: ('cb, 'i) Engine, []) evs)"
  have evs: "links_first {} evs" using snoc.prems by (simp add: links_first_append)
  have ok: "engine_ok e" and listed: "iface_as_listed mc evs jx (bt_get jx (interfaces e))" for jx
    using snoc.IH [OF evs] by (simp_all add: e_def)
  have step: "fst (foldl (feed_event show_ip mc) (engine_new random now :: ('cb, 'i) Engine, []) (evs @ [ev])) =
      fst (on_network_event show_ip mc ev e)"
    by (simp add: e_def feed_event_def split_beta)
  have "engine_ok (fst (on_network_event show_ip mc ev e))" by (rule engine_ok_network [OF ok])
  moreover have "iface_as_listed mc (evs @ [ev]) ix (bt_get ix (interfaces (fst (on_network_event show_ip mc ev e))))"
  proof (cases ev)
    case (NewLink jx name f)
    then show ?thesis
      using feed_link [OF snoc.prems [unfolded NewLink] ok listed, of ix show_ip] by (simp add: on_network_event_def)
  next
    case (NewAddr jx a p)
    then show ?thesis
      using feed_addr [OF listed, of jx a p ix show_ip] by (simp add: on_network_event_def split_beta)
  qed (use snoc.prems in \<open>simp_all add: links_first_append\<close>)
  ultimately show ?case unfolding step by blast
qed

section \<open>Properties\<close>

text \<open>Draining a socket of the service panics exactly if one of the datagrams taken from it is a search
with a maximum wait of 0; otherwise the loop ends, and the engine is in order afterwards. This holds
for both sockets.\<close>

theorem service_ready_panics_iff:
  assumes "within_buffer rs" and "engine_ok (sv_engine sv)"
  shows "(multicast_ready add rs sv = Panic \<longleftrightarrow> (\<exists>d\<in>set (datagrams rs). zero_wait d)) \<and>
    (search_ready add rs sv = Panic \<longleftrightarrow> (\<exists>d\<in>set (datagrams rs). zero_wait d)) \<and>
    (\<forall>sv' out. multicast_ready add rs sv = Ret (sv', out) \<longrightarrow> engine_ok (sv_engine sv') \<and> search_ready add rs sv = Ret (sv', out))"
  using receive_loop_Panic [OF assms(1), of add "sv_engine sv"] receive_loop_ok [OF assms(2), of add rs]
  by (auto simp: multicast_ready_def search_ready_def obind_Panic_iff obind_Ret_iff)

theorem service_ready_panics_iff_witness:
  "multicast_ready (+) [(as_bytes (lit ''hello''), Ok (5, V4 1, (V4 2, 1900)), 0 :: nat)]
     \<lparr>sv_engine = engine_new 1 0 :: (unit, nat) Engine, sv_multicast_socket = (), sv_search_socket = ()\<rparr> \<noteq> Panic"
proof -
  let ?rs = "[(as_bytes (lit ''hello''), Ok (5, V4 1, (V4 2, 1900)), 0 :: nat)]"
  let ?sv = "\<lparr>sv_engine = engine_new 1 0 :: (unit, nat) Engine, sv_multicast_socket = (), sv_search_socket = ()\<rparr>"
  have "length (as_bytes (lit ''hello'')) = 5" by (simp add: as_bytes_def lit_def utf8_char_def)
  then have rs: "within_buffer ?rs" and d: "datagrams ?rs = [as_bytes (lit ''hello'')]" by (simp_all add: within_buffer_def)
  have "from_utf8 (as_bytes (lit ''hello'')) = Some (lit ''hello'')"
    by (rule from_utf8_as_bytes) (simp add: lit_def scalar_def)
  moreover have "lines (lit ''hello'') = [lit ''hello'']" by code_simp
  ultimately have "\<not> zero_wait (as_bytes (lit ''hello''))" by (simp add: zero_wait_def parse_def Let_def lit_def)
  then show ?thesis
    using service_ready_panics_iff [OF rs, of ?sv "(+)"] d by (simp add: engine_ok_new)
qed

text \<open>C25: the asynchronous service lives as long as no search with a maximum wait of 0 reaches it, and no
longer: without one, every operation and every round of the task returns and leaves it healthy; one
such datagram on either socket ends the task and poisons the lock, so that whatever happens
afterwards, every operation panics and the task does nothing.\<close>

theorem async_service_lifetime:
  assumes "healthy st"
  shows "healthy (fst (async_on_network_event show_ip mc ev st)) \<and> snd (async_on_network_event show_ip mc ev st) \<noteq> Panic \<and>
    healthy (fst (async_subscribe ins nt cb st)) \<and> snd (async_subscribe ins nt cb st) \<noteq> Panic \<and>
    healthy (fst (async_advertise show_ip usn a st)) \<and> snd (async_advertise show_ip usn a st) \<noteq> Panic \<and>
    healthy (fst (async_deadvertise usn st)) \<and> snd (async_deadvertise usn st) \<noteq> Panic \<and>
    (event_within_buffer tev \<longrightarrow>
      (\<not> poisonous tev \<longrightarrow> healthy (fst (task_round add show_ip tev st)) \<and> snd (task_round add show_ip tev st) \<noteq> Panic) \<and>
      (poisonous tev \<and> async_steps add show_ip ins (fst (task_round add show_ip tev st)) st' \<longrightarrow>
        snd (async_on_network_event show_ip mc ev st') = Panic \<and> snd (async_subscribe ins nt cb st') = Panic \<and>
        snd (async_advertise show_ip usn a st') = Panic \<and> snd (async_deadvertise usn st') = Panic \<and>
        task_round add show_ip tev' st' = (st', Ret [])))"
proof -
  have "ai_poisoned st' \<and> \<not> ai_running st'"
    if "event_within_buffer tev" "poisonous tev" "async_steps add show_ip ins (fst (task_round add show_ip tev st)) st'"
    using poisonous_task [OF assms that(1,2)] async_steps_poisoned [OF that(3)] async_steps_stopped [OF that(3)] by blast
  then show ?thesis
    using healthy_api [OF assms] healthy_task [OF assms, of tev add show_ip]
    by (auto simp: async_api_defs task_round_def)
qed

definition zero_wait_packet :: str where
  "zero_wait_packet = lit ''M-SEARCH * HTTP/1.1'' @ crlf @ lit ''ST: x'' @ crlf @ lit ''MX: 0'' @ crlf"

lemma zero_wait_packet_parsed: "zero_wait (as_bytes zero_wait_packet)"
proof -
  have "from_utf8 (as_bytes zero_wait_packet) = Some zero_wait_packet"
    by (rule from_utf8_as_bytes) (simp add: zero_wait_packet_def lit_def crlf_def scalar_def)
  moreover have "lines zero_wait_packet = [lit ''M-SEARCH * HTTP/1.1'', lit ''ST: x'', lit ''MX: 0'']" by code_simp
  moreover have "foldl header_step Map.empty [lit ''ST: x'', lit ''MX: 0''] (lit ''ST'') = Some (lit ''x'')"
    "foldl header_step Map.empty [lit ''ST: x'', lit ''MX: 0''] (lit ''MX'') = Some (lit ''0'')" by code_simp+
  moreover have "parse_uint 255 (lit ''0'') = Some 0" by code_simp
  moreover have "lit ''M-SEARCH * HTTP/1.1'' \<noteq> lit ''NOTIFY * HTTP/1.1''" "lit ''M-SEARCH * HTTP/1.1'' \<noteq> lit ''HTTP/1.1 200 OK''"
    by (simp_all add: lit_def)
  ultimately show ?thesis by (simp add: zero_wait_def parse_def Let_def)
qed

theorem async_service_lifetime_witness:
  "\<exists>st rs. async_new_inner (async_inner_new (\<lambda>port. Ok port) (\<lambda>s. Ok s)) 1 0 = Ok (st :: (unit, nat, u16) AsyncService) \<and>
     snd (async_deadvertise [] st) \<noteq> Panic \<and>
     snd (async_deadvertise [] (fst (task_round (+) (\<lambda>_. []) (MulticastReadable rs) st))) = Panic"
proof -
  let ?st = "\<lparr>ai_engine = engine_new 1 0, ai_multicast_socket = 1900, ai_search_socket = 0, ai_poisoned = False, ai_running = True\<rparr>
    :: (unit, nat, u16) AsyncService"
  let ?buf = "as_bytes zero_wait_packet" and ?a = "\<lparr>ad_notification_type = [], ad_location = []\<rparr>"
  let ?rs = "[(?buf, Ok (length ?buf, V4 1, (V4 2, 1900)), 0 :: nat)]"
  have "healthy ?st" by (simp add: healthy_def engine_ok_new)
  moreover have "event_within_buffer (MulticastReadable ?rs)" "poisonous (MulticastReadable ?rs)"
    using zero_wait_packet_parsed by (simp_all add: event_within_buffer_def within_buffer_def poisonous_def)
  moreover have "async_steps (+) (\<lambda>_. []) (\<lambda>xs x. xs @ [x]) (fst (task_round (+) (\<lambda>_. []) (MulticastReadable ?rs) ?st))
      (fst (task_round (+) (\<lambda>_. []) (MulticastReadable ?rs) ?st))" by (simp add: async_steps_def)
  ultimately have "snd (async_deadvertise [] ?st) \<noteq> Panic"
    "snd (async_deadvertise [] (fst (task_round (+) (\<lambda>_. []) (MulticastReadable ?rs) ?st))) = Panic"
    using async_service_lifetime [where st = ?st and usn = "[]" and tev = "MulticastReadable ?rs" and add = "(+)" and
        show_ip = "\<lambda>_. []" and ins = "\<lambda>xs x. xs @ [x]" and nt = "[]" and cb = "()" and a = ?a and
        mc = "\<lambda>_ _. Ok ()" and ev = "DelLink 1" and tev' = "Elapsed 0" and
        st' = "fst (task_round (+) (\<lambda>_. []) (MulticastReadable ?rs) ?st)"] by blast+
  then show ?thesis
    by (intro exI [of _ ?st] exI [of _ ?rs] conjI)
      (simp_all add: async_new_inner_def async_inner_new_def and_then_def)
qed



text \<open>C39: the stream of network events gives no such guarantee: addresses and interfaces come from different
sockets and are merged as they arrive, so that the address of an interface can come before the
interface itself, against the documentation of \<open>get_interfaces_async\<close>. An engine that is given the
events in that order never learns the address.\<close>

theorem async_order_loses_address:
  assumes "flags_contains f MULTICAST" and "mc ix True = Ok ()" and "is_ipv4 a"
  shows "[Ok (NewLink ix name f), Ok (NewAddr ix a p)] \<in> get_interfaces_async_inner2 [Ok (NewLink ix name f)] [Ok (NewAddr ix a p)] [] \<and>
    [Ok (NewAddr ix a p), Ok (NewLink ix name f)] \<in> get_interfaces_async_inner2 [Ok (NewLink ix name f)] [Ok (NewAddr ix a p)] [] \<and>
    map_option ips (bt_get ix (interfaces (fst (foldl (feed_event show_ip mc) (engine_new random now :: ('cb, 'i) Engine, [])
      [NewLink ix name f, NewAddr ix a p])))) = Some [a] \<and>
    map_option ips (bt_get ix (interfaces (fst (foldl (feed_event show_ip mc) (engine_new random now :: ('cb, 'i) Engine, [])
      [NewAddr ix a p, NewLink ix name f])))) = Some []"
  using assms
  by (simp add: get_interfaces_async_inner2_def Cons_in_shuffles_iff feed_event_def on_network_event_def
      on_new_link_event_def on_new_addr_event_def engine_new_def bt_get_def bt_modify_def Let_def split_beta)

theorem async_order_loses_address_witness:
  "map_option ips (bt_get 2 (interfaces (fst (foldl (feed_event (\<lambda>_. []) (\<lambda>_ _. Ok ()))
     (engine_new 1 (0 :: nat) :: (unit, nat) Engine, []) [NewAddr 2 (V4 1) 8, NewLink 2 (lit ''eth0'') MULTICAST])))) = Some []"
  using async_order_loses_address [where 'cb = unit and f = MULTICAST and mc = "\<lambda>_ _. Ok ()" and ix = 2 and a = "V4 1" and
      name = "lit ''eth0''" and p = 8 and show_ip = "\<lambda>_. []" and random = 1 and now = "0 :: nat"]
  by (simp add: flags_contains_def is_ipv4_def)

end
