(* ===== verification/Ssdp_Programs.thy ===== *)
theory Ssdp_Programs
  imports Ssdp_Service
begin

text \<open>
  The programs \<open>cotton-ssdp/examples/ssdp-search-mio.rs\<close> and \<open>ssdp-search.rs\<close>, which advertise a service
  and list the services they find, each once. The first drives the service from the readiness events of
  \<open>mio\<close>, the second runs the asynchronous service and feeds it network events. What \<open>mio\<close> and the
  clock return in a round is given with the round; the callback of the subscription is the only one, so
  it is the value of the unit type.
\<close>

section \<open>The list of services found\<close>

type_synonym found = "str \<rightharpoonup> Notification"

text \<open>What the callback prints: every notification, and the lines for a service not seen before.\<close>

datatype Printed = Got Notification | Found str str str

definition note_service :: "found \<Rightarrow> Notification \<Rightarrow> found \<times> Printed list" where
  "note_service m r =
     (case r of
        Alive nt usn loc \<Rightarrow> if m usn = None then (m(usn \<mapsto> r), [Found nt usn loc]) else (m, [])
      | ByeBye _ _ \<Rightarrow> (m, []))"

definition mio_callback :: "found \<Rightarrow> Notification \<Rightarrow> found \<times> Printed list" where
  "mio_callback m r = (case note_service m r of (m', ps) \<Rightarrow> (m', Got r # ps))"

text \<open>The calls among the outputs of the service, in order.\<close>

fun run_callbacks :: "found \<Rightarrow> unit Output list \<Rightarrow> found \<times> Printed list" where
  "run_callbacks m [] = (m, [])"
| "run_callbacks m (Called _ r # outs) =
     (case mio_callback m r of (m', ps) \<Rightarrow> (case run_callbacks m' outs of (m'', qs) \<Rightarrow> (m'', ps @ qs)))"
| "run_callbacks m (_ # outs) = run_callbacks m outs"

section \<open>The program on mio\<close>

record ('i, 's) MioProgram =
  mp_ssdp :: "(unit, 'i, 's) Service"
  mp_map :: found

definition test_advertisement :: Advertisement where
  "test_advertisement = \<lparr>ad_notification_type = lit ''test'', ad_location = lit ''http://127.0.0.1/test''\<rparr>"

definition mio_start ::
    "(IpAddr \<Rightarrow> str) \<Rightarrow> (unit ActiveSearch list \<Rightarrow> unit ActiveSearch \<Rightarrow> unit ActiveSearch list) \<Rightarrow> str \<Rightarrow>
       (IoError, (unit, 'i, 's) Service) result \<times> unit Output list \<Rightarrow>
       (IoError, ('i, 's) MioProgram) result \<times> unit Output list" where
  "mio_start show_ip ins uuid service =
     (case service of
        (Inl e, out) \<Rightarrow> (Err e, out)
      | (Inr ssdp, out) \<Rightarrow>
          (case service_advertise show_ip uuid test_advertisement ssdp of
             (ssdp1, out1) \<Rightarrow>
               (case service_subscribe ins (lit ''ssdp:all'') () ssdp1 of
                  (ssdp2, out2) \<Rightarrow> (Ok \<lparr>mp_ssdp = ssdp2, mp_map = Map.empty\<rparr>, out @ out1 @ out2))))"

datatype 'i MioEvent = SSDP_TOKEN1 "'i receipt list" | SSDP_TOKEN2 "'i receipt list" | OtherToken

text \<open>A round: the result of \<open>poll\<close>, and the time at the three calls that look at the clock.\<close>

record 'i MioRound =
  mr_before :: 'i
  mr_events :: "(IoError, 'i MioEvent list) result"
  mr_after :: 'i
  mr_wakeup :: 'i

fun mio_events ::
    "('i \<Rightarrow> nat \<Rightarrow> 'i) \<Rightarrow> 'i MioEvent list \<Rightarrow> ('cb, 'i, 's) Service \<Rightarrow> (('cb, 'i, 's) Service \<times> 'cb Output list) outcome" where
  "mio_events add [] ssdp = Ret (ssdp, [])"
| "mio_events add (event # events) ssdp =
     obind (case event of
         SSDP_TOKEN1 rs \<Rightarrow> multicast_ready add rs ssdp
       | SSDP_TOKEN2 rs \<Rightarrow> search_ready add rs ssdp
       | OtherToken \<Rightarrow> Ret (ssdp, [])) (\<lambda>(ssdp1, out1).
     obind (mio_events add events ssdp1) (\<lambda>(ssdp2, out2).
     Ret (ssdp2, out1 @ out2)))"

text \<open>The time that \<open>poll\<close> is told to wait, and the rest of the round; an error of \<open>poll\<close> panics.\<close>

definition mio_wait :: "('i \<Rightarrow> 'i \<Rightarrow> nat) \<Rightarrow> 'i::linorder MioRound \<Rightarrow> ('i, 's) MioProgram \<Rightarrow> nat" where
  "mio_wait sub r p = next_wakeup sub (mr_before r) (mp_ssdp p)"

definition mio_round ::
    "('i \<Rightarrow> nat \<Rightarrow> 'i) \<Rightarrow> ('i \<Rightarrow> 'i \<Rightarrow> nat) \<Rightarrow> (IpAddr \<Rightarrow> str) \<Rightarrow> 'i::linorder MioRound \<Rightarrow> ('i, 's) MioProgram \<Rightarrow>
       (('i, 's) MioProgram \<times> unit Output list \<times> Printed list) outcome" where
  "mio_round add sub show_ip r p =
     (case mr_events r of
        Inl _ \<Rightarrow> Panic
      | Inr events \<Rightarrow>
          (case (if next_wakeup sub (mr_after r) (mp_ssdp p) = 0 then wakeup add show_ip (mr_wakeup r) (mp_ssdp p)
                 else (mp_ssdp p, [])) of
             (ssdp1, out1) \<Rightarrow>
               obind (mio_events add events ssdp1) (\<lambda>(ssdp2, out2).
               case run_callbacks (mp_map p) (out1 @ out2) of
                 (m, ps) \<Rightarrow> Ret (\<lparr>mp_ssdp = ssdp2, mp_map = m\<rparr>, out1 @ out2, ps))))"

fun mio_rounds ::
    "('i \<Rightarrow> nat \<Rightarrow> 'i) \<Rightarrow> ('i \<Rightarrow> 'i \<Rightarrow> nat) \<Rightarrow> (IpAddr \<Rightarrow> str) \<Rightarrow> 'i::linorder MioRound list \<Rightarrow> ('i, 's) MioProgram \<Rightarrow>
       (('i, 's) MioProgram \<times> unit Output list \<times> Printed list) outcome" where
  "mio_rounds add sub show_ip [] p = Ret (p, [], [])"
| "mio_rounds add sub show_ip (r # rs) p =
     obind (mio_round add sub show_ip r p) (\<lambda>(p1, out1, ps1).
     obind (mio_rounds add sub show_ip rs p1) (\<lambda>(p2, out2, ps2).
     Ret (p2, out1 @ out2, ps1 @ ps2)))"

section \<open>The asynchronous program\<close>

record ('cb, 'i, 's) AsyncProgram =
  ap_ssdp :: "('cb, 'i, 's) AsyncService"
  ap_map :: found

definition async_start ::
    "(IpAddr \<Rightarrow> str) \<Rightarrow> ('cb ActiveSearch list \<Rightarrow> 'cb ActiveSearch \<Rightarrow> 'cb ActiveSearch list) \<Rightarrow> str \<Rightarrow> 'cb \<Rightarrow>
       (IoError, 'n) result \<Rightarrow> (IoError, ('cb, 'i, 's) AsyncService) result \<Rightarrow>
       (IoError, ('cb, 'i, 's) AsyncProgram \<times> 'cb Output list) result outcome" where
  "async_start show_ip ins uuid sender netif service =
     (case netif of
        Inl e \<Rightarrow> Ret (Err e)
      | Inr _ \<Rightarrow>
          (case service of
             Inl e \<Rightarrow> Ret (Err e)
           | Inr ssdp \<Rightarrow>
               (case async_advertise show_ip uuid test_advertisement ssdp of
                  (ssdp1, r1) \<Rightarrow> obind r1 (\<lambda>out1.
                    case async_subscribe ins (lit ''ssdp:all'') sender ssdp1 of
                      (ssdp2, r2) \<Rightarrow> obind r2 (\<lambda>out2. Ret (Ok (\<lparr>ap_ssdp = ssdp2, ap_map = Map.empty\<rparr>, out1 @ out2)))))))"

text \<open>What \<open>select!\<close> yields: a notification from the stream, or a network event; each stream may have ended.\<close>

datatype 'n SelectEvent = FromStream "Notification option" | FromNetif "('n, NetworkEvent) result option"

text \<open>The error of a network event ends the program.\<close>

definition async_program_round ::
    "(IpAddr \<Rightarrow> str) \<Rightarrow> (InterfaceIndex \<Rightarrow> bool \<Rightarrow> (UdpError, unit) result) \<Rightarrow> 'n SelectEvent \<Rightarrow> ('cb, 'i, 's) AsyncProgram \<Rightarrow>
       (('cb, 'i, 's) AsyncProgram \<times> (UdpError, 'cb Output list \<times> Printed list) result) outcome" where
  "async_program_round show_ip mc ev p =
     (case ev of
        FromStream (Some r) \<Rightarrow>
          (case note_service (ap_map p) r of (m, ps) \<Rightarrow> Ret (p\<lparr>ap_map := m\<rparr>, Ok ([], ps)))
      | FromStream None \<Rightarrow> Ret (p, Ok ([], []))
      | FromNetif (Some (Inr event)) \<Rightarrow>
          (case async_on_network_event show_ip mc event (ap_ssdp p) of
             (ssdp, result) \<Rightarrow>
               obind result (\<lambda>(r, out).
               Ret (p\<lparr>ap_ssdp := ssdp\<rparr>, case r of Inl e \<Rightarrow> Err e | Inr _ \<Rightarrow> Ok (out, []))))
      | FromNetif _ \<Rightarrow> Ret (p, Ok ([], [])))"

section \<open>Each service once\<close>

fun found_name :: "Printed \<Rightarrow> str list" where
  "found_name (Found nt usn loc) = [usn]"
| "found_name (Got r) = []"

definition found_names :: "Printed list \<Rightarrow> str list" where
  "found_names ps = concat (map found_name ps)"

text \<open>The names of the services whose presence the calls report.\<close>

fun alive_name :: "'cb Output \<Rightarrow> str list" where
  "alive_name (Called cb (Alive nt usn loc)) = [usn]"
| "alive_name _ = []"

definition alive_names :: "'cb Output list \<Rightarrow> str set" where
  "alive_names outs = set (concat (map alive_name outs))"

lemma found_names_simps [simp]:
  "found_names [] = []" "found_names (p # ps) = found_name p @ found_names ps" "found_names (ps @ qs) = found_names ps @ found_names qs"
  by (simp_all add: found_names_def)

lemma alive_names_simps [simp]:
  "alive_names [] = {}" "alive_names (x # xs) = set (alive_name x) \<union> alive_names xs"
  "alive_names (xs @ ys) = alive_names xs \<union> alive_names ys"
  by (simp_all add: alive_names_def)

text \<open>From the services \<open>m\<close> to \<open>m'\<close>: what was printed are exactly the new ones, each once.\<close>

definition lists_once :: "found \<Rightarrow> str set \<Rightarrow> found \<Rightarrow> Printed list \<Rightarrow> bool" where
  "lists_once m told m' ps \<longleftrightarrow> distinct (found_names ps) \<and> dom m' = dom m \<union> told \<and> set (found_names ps) = told - dom m"

lemma lists_once_trans:
  "lists_once m a m1 ps \<Longrightarrow> lists_once m1 b m2 qs \<Longrightarrow> lists_once m (a \<union> b) m2 (ps @ qs)"
  unfolding lists_once_def by auto

lemma note_service_once:
  "note_service m r = (m', ps) \<Longrightarrow> lists_once m (set (alive_name (Called cb r))) m' ps"
  by (cases r) (auto simp: note_service_def lists_once_def split: if_splits)

lemma run_callbacks_once: "run_callbacks m outs = (m', ps) \<Longrightarrow> lists_once m (alive_names outs) m' ps"
proof (induction m outs arbitrary: m' ps rule: run_callbacks.induct)
  case (2 m cb r outs)
  obtain m1 qs where n: "note_service m r = (m1, qs)" by (cases "note_service m r")
  obtain rs where r: "run_callbacks m1 outs = (m', rs)" "ps = Got r # qs @ rs"
    using "2.prems" n by (auto simp: mio_callback_def split: prod.splits)
  have "lists_once m1 (alive_names outs) m' rs"
    using "2.IH" n r(1) by (simp add: mio_callback_def)
  from lists_once_trans [OF note_service_once [OF n] this] show ?case using r(2) by (simp add: lists_once_def)
qed (auto simp: lists_once_def)

section \<open>The rounds of the program on mio\<close>

definition event_receipts :: "'i MioEvent \<Rightarrow> 'i receipt list" where
  "event_receipts ev = (case ev of SSDP_TOKEN1 rs \<Rightarrow> rs | SSDP_TOKEN2 rs \<Rightarrow> rs | OtherToken \<Rightarrow> [])"

text \<open>Events that the system and the network may bring, short of a search with a maximum wait of 0.\<close>

definition event_ok :: "'i MioEvent \<Rightarrow> bool" where
  "event_ok ev \<longleftrightarrow> within_buffer (event_receipts ev) \<and> \<not> list_ex zero_wait (datagrams (event_receipts ev))"

definition round_ok :: "'i MioRound \<Rightarrow> bool" where
  "round_ok r \<longleftrightarrow> (\<exists>events. mr_events r = Ok events \<and> list_all event_ok events)"

lemma mio_events_ok:
  assumes "engine_ok (sv_engine sv)" and "list_all event_ok events"
  shows "\<exists>sv' out. mio_events add events sv = Ret (sv', out) \<and> engine_ok (sv_engine sv')"
  using assms
proof (induction events arbitrary: sv)
  case (Cons ev events)
  have "receive_loop add (event_receipts ev) (sv_engine sv) \<noteq> Panic"
    using Cons.prems(2) receive_loop_Panic [of "event_receipts ev" add "sv_engine sv"] by (auto simp: event_ok_def list_ex_iff)
  then obtain e out where r: "receive_loop add (event_receipts ev) (sv_engine sv) = Ret (e, out)"
    by (cases "receive_loop add (event_receipts ev) (sv_engine sv)") auto
  have ok: "engine_ok e" by (rule receive_loop_ok [OF Cons.prems(1) r])
  let ?run = "case ev of SSDP_TOKEN1 rs \<Rightarrow> multicast_ready add rs sv | SSDP_TOKEN2 rs \<Rightarrow> search_ready add rs sv | OtherToken \<Rightarrow> Ret (sv, [])"
  have "\<exists>sv1 out1. ?run = Ret (sv1, out1) \<and> engine_ok (sv_engine sv1)"
    using r ok Cons.prems(1) by (cases ev) (simp_all add: multicast_ready_def search_ready_def event_receipts_def)
  then obtain sv1 out1 where 1: "?run = Ret (sv1, out1)" "engine_ok (sv_engine sv1)" by blast
  from Cons.IH [OF 1(2)] Cons.prems(2) obtain sv2 out2 where "mio_events add events sv1 = Ret (sv2, out2)" "engine_ok (sv_engine sv2)"
    by auto
  with 1 show ?case by simp
qed simp

lemma mio_round_ok:
  assumes "engine_ok (sv_engine (mp_ssdp p))" and "round_ok r"
  shows "\<exists>p' out ps. mio_round add sub show_ip r p = Ret (p', out, ps) \<and> engine_ok (sv_engine (mp_ssdp p')) \<and>
    lists_once (mp_map p) (alive_names out) (mp_map p') ps"
proof -
  obtain events where ev: "mr_events r = Ok events" "list_all event_ok events" using assms(2) unfolding round_ok_def by blast
  let ?woken = "if next_wakeup sub (mr_after r) (mp_ssdp p) = 0 then wakeup add show_ip (mr_wakeup r) (mp_ssdp p) else (mp_ssdp p, [])"
  obtain sv1 out1 where 1: "?woken = (sv1, out1)" by (cases ?woken)
  have "engine_ok (sv_engine sv1)"
    using 1 assms(1) engine_ok_timeout [OF assms(1), of add show_ip "mr_wakeup r"]
    by (auto simp: wakeup_def on_engine_def split: if_splits prod.splits)
  from mio_events_ok [OF this ev(2), of add] obtain sv2 out2
    where 2: "mio_events add events sv1 = Ret (sv2, out2)" "engine_ok (sv_engine sv2)" by blast
  obtain m ps where 3: "run_callbacks (mp_map p) (out1 @ out2) = (m, ps)" by (cases "run_callbacks (mp_map p) (out1 @ out2)")
  have "mio_round add sub show_ip r p = Ret (\<lparr>mp_ssdp = sv2, mp_map = m\<rparr>, out1 @ out2, ps)"
    unfolding mio_round_def ev(1) sum.case 1 prod.case 2(1) obind.simps 3 by (rule refl)
  then show ?thesis using 2(2) run_callbacks_once [OF 3] by (simp only:) simp
qed

text \<open>The start: a service that could be made, with its advertisement and its subscription.\<close>

lemma mio_start_ok:
  assumes "mio_start show_ip ins uuid (Ok sv, out) = (Ok p, out')" and "engine_ok (sv_engine sv)"
  shows "engine_ok (sv_engine (mp_ssdp p)) \<and> mp_map p = Map.empty \<and>
    active_searches (sv_engine (mp_ssdp p)) =
      ins (active_searches (sv_engine sv)) \<lparr>as_notification_type = lit ''ssdp:all'', as_callback = ()\<rparr>"
proof -
  obtain e1 out1 where 1: "advertise show_ip uuid test_advertisement (sv_engine sv) = (e1, out1)"
    by (cases "advertise show_ip uuid test_advertisement (sv_engine sv)")
  have "engine_ok e1" "active_searches e1 = active_searches (sv_engine sv)"
    using engine_ok_advertise(1) [OF assms(2), of show_ip uuid test_advertisement] 1 by (auto simp: advertise_def Let_def)
  then show ?thesis using assms(1) 1
    by (auto simp: mio_start_def service_advertise_def service_subscribe_def on_engine_def subscribe_def engine_ok_def)
qed

section \<open>Properties\<close>

text \<open>C26: the program that searches for services runs for as long as the network brings no search with a
maximum wait of 0 and \<open>poll\<close> does not fail, and lists every service once: over any number of rounds the
services it prints are exactly those of which it was told and which it had not printed before, without
repetition.\<close>

theorem search_program_lists_once:
  assumes "engine_ok (sv_engine (mp_ssdp p))" and "\<forall>r \<in> set rs. round_ok r"
  shows "\<exists>p' out ps. mio_rounds add sub show_ip rs p = Ret (p', out, ps) \<and> engine_ok (sv_engine (mp_ssdp p')) \<and>
    distinct (found_names ps) \<and> set (found_names ps) = alive_names out - dom (mp_map p) \<and>
    dom (mp_map p') = dom (mp_map p) \<union> alive_names out"
proof -
  have "\<exists>p' out ps. mio_rounds add sub show_ip rs p = Ret (p', out, ps) \<and> engine_ok (sv_engine (mp_ssdp p')) \<and>
      lists_once (mp_map p) (alive_names out) (mp_map p') ps"
    using assms
  proof (induction rs arbitrary: p)
    case (Cons r rs)
    from mio_round_ok [OF Cons.prems(1), of r add sub show_ip] Cons.prems(2) obtain p1 out1 ps1
      where 1: "mio_round add sub show_ip r p = Ret (p1, out1, ps1)" "engine_ok (sv_engine (mp_ssdp p1))"
        "lists_once (mp_map p) (alive_names out1) (mp_map p1) ps1" by auto
    from Cons.IH [OF 1(2)] Cons.prems(2) obtain p2 out2 ps2
      where 2: "mio_rounds add sub show_ip rs p1 = Ret (p2, out2, ps2)" "engine_ok (sv_engine (mp_ssdp p2))"
        "lists_once (mp_map p1) (alive_names out2) (mp_map p2) ps2" by auto
    from lists_once_trans [OF 1(3) 2(3)] 1(1) 2(1,2) show ?case by simp
  qed (simp add: lists_once_def)
  then show ?thesis unfolding lists_once_def by blast
qed

definition example_program :: "(nat, unit) MioProgram" where
  "example_program = \<lparr>mp_ssdp = \<lparr>sv_engine = (engine_new 1 0)\<lparr>active_searches :=
       [\<lparr>as_notification_type = lit ''ssdp:all'', as_callback = ()\<rparr>]\<rparr>, sv_multicast_socket = (), sv_search_socket = ()\<rparr>,
     mp_map = Map.empty\<rparr>"

definition example_round :: "nat MioRound" where
  "example_round = \<lparr>mr_before = 0, mr_events = Ok [SSDP_TOKEN1 [(as_bytes (concat (notify_pieces (lit ''fnord'') (lit ''uuid:37'') (lit ''/''))),
       Ok (length (as_bytes (concat (notify_pieces (lit ''fnord'') (lit ''uuid:37'') (lit ''/'')))), V4 1, (V4 2, 1900)), 3)]],
     mr_after = 5, mr_wakeup = 5\<rparr>"

lemma example_round_ok: "round_ok example_round"
proof -
  have "parse (as_bytes (concat (notify_pieces (lit ''fnord'') (lit ''uuid:37'') (lit ''/'')))) =
      Ok (NotifyAlive (lit ''fnord'') (lit ''uuid:37'') (lit ''/''))"
    by (rule parse_packets(1) [OF example_ad_ok(1,2,4)])
  then show ?thesis
    by (simp add: round_ok_def example_round_def event_ok_def event_receipts_def within_buffer_def zero_wait_def)
qed

theorem search_program_lists_once_witness:
  "\<exists>p' out ps. mio_rounds (+) (-) (\<lambda>_. []) [example_round, example_round] example_program = Ret (p', out, ps) \<and>
     distinct (found_names ps) \<and> set (found_names ps) = alive_names out"
proof -
  have "engine_ok (sv_engine (mp_ssdp example_program))"
    using engine_ok_new [of 1 "0 :: nat"] by (simp add: example_program_def engine_ok_def)
  from search_program_lists_once [OF this, of "[example_round, example_round]" "(+)" "(-)" "\<lambda>_. []"] example_round_ok
  show ?thesis by (auto simp: example_program_def)
qed

text \<open>The program does not sleep through a deadline of its engine: it tells \<open>poll\<close> to wait until the engine wants
to be woken, and when \<open>poll\<close> comes back with no events after that wait, the round sends what the engine
sends at its timeout, and no answer that was due remains to be sent.\<close>

theorem search_program_on_time:
  assumes "\<And>a b. sub a b = 0 \<longleftrightarrow> a \<le> b" and "\<And>a b. a \<le> add b (sub a b)"
    and "mr_events r = Ok []" and "add (mr_before r) (mio_wait sub r p) \<le> mr_after r" and "mr_after r \<le> mr_wakeup r"
  shows "\<exists>p' ps. mio_round add sub show_ip r p =
      Ret (p', snd (handle_timeout add show_ip (mr_wakeup r) (sv_engine (mp_ssdp p))), ps) \<and>
    (\<forall>i \<in> pending (sv_engine (mp_ssdp p')). mr_wakeup r < i)"
proof -
  let ?e = "sv_engine (mp_ssdp p)"
  have "poll_timeout ?e \<le> mr_after r"
    using assms(2) [of "poll_timeout ?e" "mr_before r"] assms(4) unfolding mio_wait_def next_wakeup_def by (rule order_trans)
  then have due: "next_wakeup sub (mr_after r) (mp_ssdp p) = 0" using assms(1) by (simp add: next_wakeup_def)
  obtain e out where t: "handle_timeout add show_ip (mr_wakeup r) ?e = (e, out)" by (cases "handle_timeout add show_ip (mr_wakeup r) ?e")
  obtain m ps where c: "run_callbacks (mp_map p) out = (m, ps)" by (cases "run_callbacks (mp_map p) out")
  have "mio_round add sub show_ip r p = Ret (\<lparr>mp_ssdp = (mp_ssdp p)\<lparr>sv_engine := e\<rparr>, mp_map = m\<rparr>, out, ps)"
    using assms(3) due t c by (simp add: mio_round_def wakeup_def on_engine_def)
  moreover have "\<forall>i \<in> pending e. mr_wakeup r < i" using pending_timeout [of add show_ip "mr_wakeup r" ?e] t by simp
  ultimately show ?thesis using t by simp
qed

theorem search_program_on_time_witness:
  "\<exists>p' ps. mio_round (+) (-) (\<lambda>_. []) \<lparr>mr_before = 3, mr_events = Ok [], mr_after = 4000, mr_wakeup = 4001\<rparr> example_program =
     Ret (p', snd (handle_timeout (+) (\<lambda>_. []) 4001 (sv_engine (mp_ssdp example_program))), ps)"
proof -
  have "mio_wait (-) \<lparr>mr_before = 3, mr_events = Ok [], mr_after = 4000, mr_wakeup = 4001\<rparr> example_program \<le> 3997"
    by (simp add: mio_wait_def next_wakeup_def example_program_def poll_timeout_Min pending_def engine_new_def refresh_timer_new_def)
  moreover have "a \<le> b + (a - b)" for a b :: nat by arith
  ultimately show ?thesis
    using search_program_on_time [of "(-)" "(+)" "\<lparr>mr_before = 3, mr_events = Ok [], mr_after = 4000, mr_wakeup = 4001\<rparr>"
        example_program "\<lambda>_. []"] by auto
qed

text \<open>The asynchronous program lists services in the same way, keeps its service healthy whatever events arrive,
and ends only with the error of a network event.\<close>

theorem async_program_rounds:
  assumes "healthy (ap_ssdp p)"
  shows "\<exists>p' r. async_program_round show_ip mc ev p = Ret (p', r) \<and> healthy (ap_ssdp p') \<and>
    (\<forall>out ps. r = Ok (out, ps) \<longrightarrow> lists_once (ap_map p)
       (case ev of FromStream (Some n) \<Rightarrow> set (alive_name (Called () n)) | _ \<Rightarrow> {}) (ap_map p') ps) \<and>
    (\<forall>e. r = Err e \<longrightarrow> (\<exists>event. ev = FromNetif (Some (Ok event))))"
proof (cases ev)
  case (FromStream n)
  then show ?thesis
  proof (cases n)
    case (Some x)
    obtain m ps where "note_service (ap_map p) x = (m, ps)" by (cases "note_service (ap_map p) x")
    then show ?thesis using FromStream Some assms note_service_once [of "ap_map p" x m ps "()"]
      by (simp add: async_program_round_def)
  qed (use assms in \<open>simp add: async_program_round_def lists_once_def\<close>)
next
  case (FromNetif n)
  show ?thesis
  proof (cases "\<exists>event. n = Some (Ok event)")
    case True
    then obtain event where n: "n = Some (Ok event)" by blast
    obtain st' r where run: "async_on_network_event show_ip mc event (ap_ssdp p) = (st', r)"
      by (cases "async_on_network_event show_ip mc event (ap_ssdp p)")
    with healthy_api(1) [OF assms, of show_ip mc event] obtain q out where "r = Ret (q, out)" "healthy st'"
      by (cases r) auto
    then show ?thesis using FromNetif n run by (cases q) (auto simp: async_program_round_def lists_once_def)
  next
    case False
    then have "async_program_round show_ip mc ev p = Ret (p, Ok ([], []))"
      using FromNetif by (auto simp: async_program_round_def split: option.splits sum.splits)
    then show ?thesis using FromNetif assms by (simp add: lists_once_def)
  qed
qed

end
