(* ===== verification/Unique_Id.thy ===== *)
theory Unique_Id
  imports Prelude
begin

text \<open>
  \<open>cotton-unique/src/lib.rs\<close>: identifiers derived from the unique id of a chip. The hash function and
  the construction of UUIDs come from other crates and are parameters; the machine is little-endian.
\<close>

record UniqueId =
  id0 :: u64
  id1 :: u64

definition unique_id_new :: "u8 list \<Rightarrow> UniqueId" where
  "unique_id_new unique_bytes =
     \<lparr>id0 = u64_from_le_bytes (take 8 unique_bytes), id1 = u64_from_le_bytes (take 8 (drop 8 unique_bytes))\<rparr>"

text \<open>The interface of the hasher: its construction from two keys, the writing of bytes and of a number.\<close>

record 'h SipHasher =
  new_with_keys :: "u64 \<Rightarrow> u64 \<Rightarrow> 'h"
  hash_write :: "u8 list \<Rightarrow> 'h \<Rightarrow> 'h"
  hash_write_u32 :: "u32 \<Rightarrow> 'h \<Rightarrow> 'h"
  hash_finish :: "'h \<Rightarrow> u64"

definition unique_id :: "'h SipHasher \<Rightarrow> UniqueId \<Rightarrow> u8 list \<Rightarrow> u64" where
  "unique_id S u salt = hash_finish S (hash_write S salt (new_with_keys S (id0 u) (id1 u)))"

definition unique_id2 :: "'h SipHasher \<Rightarrow> UniqueId \<Rightarrow> u8 list \<Rightarrow> u32 \<Rightarrow> u64" where
  "unique_id2 S u salt salt2 =
     hash_finish S (hash_write_u32 S salt2 (hash_write S salt (new_with_keys S (id0 u) (id1 u))))"

definition mac_address :: "'h SipHasher \<Rightarrow> UniqueId \<Rightarrow> u8 list \<Rightarrow> u8 list" where
  "mac_address S unique salt =
     (let r = u64_to_le_bytes (unique_id S unique salt);
        mac0 = overwrite (replicate 6 0) 0 (take 6 r);
        mac1 = mac0[0 := (mac0 ! 0) AND 0xFE]
      in mac1[0 := (mac1 ! 0) OR 2])"

definition uuid :: "(u8 list \<Rightarrow> 'uuid) \<Rightarrow> 'h SipHasher \<Rightarrow> UniqueId \<Rightarrow> u8 list \<Rightarrow> 'uuid" where
  "uuid new_v8 S unique salt =
     (let bytes0 = replicate 16 0;
        bytes1 = overwrite bytes0 0 (u64_to_be_bytes (unique_id2 S unique salt 0));
        bytes2 = overwrite bytes1 8 (u64_to_be_bytes (unique_id2 S unique salt 1))
      in new_v8 bytes2)"

definition unique_chip_id :: "u8 list \<Rightarrow> UniqueId" where
  "unique_chip_id chip = unique_id_new (overwrite (replicate 16 0) 0 chip)"

section \<open>Properties\<close>

lemma from_le_inj: "length a = length b \<Longrightarrow> from_le a = from_le b \<Longrightarrow> a = b"
  by (metis le_bytes_from_le)

lemma u64_from_le_inj:
  assumes "length a = 8" and "length b = 8" and "u64_from_le_bytes a = u64_from_le_bytes b"
  shows "a = b"
proof -
  have "from_le a < 2 ^ 64" "from_le b < 2 ^ 64" using from_le_bound [of a] from_le_bound [of b] assms(1,2) by simp_all
  moreover have "unat (u64_from_le_bytes a) = unat (u64_from_le_bytes b)" using assms(3) by simp
  ultimately have "from_le a = from_le b"
    by (simp add: u64_from_le_bytes_def unat_of_nat take_bit_eq_mod)
  then show ?thesis using from_le_inj assms(1,2) by simp
qed

lemma unique_id_new_inj:
  assumes "length a = 16" and "length b = 16" and "unique_id_new a = unique_id_new b"
  shows "a = b"
proof -
  have "take 8 a = take 8 b" "take 8 (drop 8 a) = take 8 (drop 8 b)"
    by (rule u64_from_le_inj; use assms in \<open>simp add: unique_id_new_def\<close>)+
  then have "take 8 a @ drop 8 a = take 8 b @ drop 8 b" using assms(1,2) by simp
  then show ?thesis by simp
qed

text \<open>C36: the identifiers are what their users rely on: the key of the hash is different for different
chips; a MAC address has six bytes, is an individual and locally administered address (the two lowest
bits of its first byte), and is otherwise the hash; a UUID is made from the two hashes for the numbers
0 and 1, most significant byte first.\<close>

theorem unique_ids_wellformed:
  assumes "length chip = 12" and "length chip' = 12"
  shows "(unique_chip_id chip = unique_chip_id chip' \<longleftrightarrow> chip = chip') \<and>
    length (mac_address S u salt) = 6 \<and> \<not> bit (mac_address S u salt ! 0) 0 \<and> bit (mac_address S u salt ! 0) 1 \<and>
    (\<forall>i\<ge>2. bit (mac_address S u salt ! 0) i = bit (u64_to_le_bytes (unique_id S u salt) ! 0) i) \<and>
    tl (mac_address S u salt) = take 5 (tl (u64_to_le_bytes (unique_id S u salt))) \<and>
    uuid new_v8 S u salt = new_v8 (u64_to_be_bytes (unique_id2 S u salt 0) @ u64_to_be_bytes (unique_id2 S u salt 1))"
proof -
  let ?r = "u64_to_le_bytes (unique_id S u salt)"
  have chips: "unique_chip_id chip = unique_chip_id chip' \<longleftrightarrow> chip = chip'"
  proof
    assume eq: "unique_chip_id chip = unique_chip_id chip'"
    have "overwrite (replicate 16 0) 0 chip = overwrite (replicate 16 0) 0 chip'"
      by (rule unique_id_new_inj) (use eq assms in \<open>simp_all add: unique_chip_id_def\<close>)
    then show "chip = chip'" using assms by (simp add: overwrite_def)
  qed simp
  have "length ?r = 8" by simp
  then obtain b bs where r: "?r = b # bs" and len: "length bs = 7" by (cases ?r) auto
  have mac: "mac_address S u salt = ((b AND 0xFE) OR 2) # take 5 bs"
    using len by (simp add: mac_address_def Let_def r overwrite_def)
  have bits: "bit ((b AND 0xFE) OR 2) i \<longleftrightarrow> i = 1 \<or> i \<noteq> 0 \<and> bit b i" for i
  proof -
    have fe: "(0xFE :: u8) = NOT (one_shl 0)" and two: "(2 :: u8) = one_shl 1" by (simp_all add: one_shl_def)
    show ?thesis unfolding fe two by (simp add: word_bits bit_or_iff) auto
  qed
  have "uuid new_v8 S u salt = new_v8 (u64_to_be_bytes (unique_id2 S u salt 0) @ u64_to_be_bytes (unique_id2 S u salt 1))"
    by (simp add: uuid_def Let_def overwrite_def)
  then show ?thesis using chips mac bits len r by simp
qed

theorem unique_ids_wellformed_witness:
  "length (mac_address \<lparr>new_with_keys = (\<lambda>a b. a), hash_write = (\<lambda>bs h. h + word_of_nat (length bs)), hash_write_u32 = (\<lambda>n h. h),
     hash_finish = (\<lambda>h. h)\<rparr> (unique_chip_id (replicate 12 1)) [1, 2, 3]) = 6 \<and>
   unique_chip_id (replicate 12 1) \<noteq> unique_chip_id (replicate 12 2)"
  using unique_ids_wellformed [of "replicate 12 1" "replicate 12 2" "\<lparr>new_with_keys = (\<lambda>a b. a),
      hash_write = (\<lambda>bs h. h + word_of_nat (length bs)), hash_write_u32 = (\<lambda>n h. h), hash_finish = (\<lambda>h. h)\<rparr>"
      "unique_chip_id (replicate 12 1)" "[1, 2, 3]" "\<lambda>bs. bs"] by simp

end
