(* ===== verification/Net_Stack.thy ===== *)
theory Net_Stack
  imports Udp Unique_Id
begin

text \<open>
  The network stack of the device programs under \<open>cross/\<close>: \<open>rp2040-w5500/src/smoltcp.rs\<close> and the same
  \<open>Stack\<close> in \<open>stm32f746-nucleo/src/common.rs\<close> and \<open>stm32f746-nucleo-rtic2/src/common.rs\<close>, which join
  smoltcp to its DHCP client, with the set-up of link and heap beside them. smoltcp is not part of the
  repository: the calls that are made of it are the fields of the record \<open>Smoltcp\<close>, on a state \<open>'n\<close> that
  stands for interface, sockets and device, and \<open>smoltcp_laws\<close> says what of its documentation the proofs
  rely on. Moments and durations are microseconds.
\<close>

section \<open>smoltcp\<close>

record Ipv4Cidr =
  cidr_address :: Ipv4Address
  cidr_prefix_len :: u8

record DhcpConfig =
  dhcp_address :: Ipv4Cidr
  dhcp_router :: "Ipv4Address option"

datatype DhcpEvent = Configured DhcpConfig | Deconfigured

record RetryConfig =
  discover_timeout :: int
  initial_request_timeout :: int
  request_retries :: u16

record NetConfig =
  hardware_addr :: "u8 list"
  net_random_seed :: u64
  dhcp_retry :: RetryConfig

record 'n Smoltcp =
  sm_retry_default :: RetryConfig
  sm_new :: "NetConfig \<Rightarrow> int \<Rightarrow> 'n"
  sm_poll :: "int \<Rightarrow> 'n \<Rightarrow> 'n \<times> bool"
  sm_poll_delay :: "int \<Rightarrow> 'n \<Rightarrow> int option"
  sm_dhcp_poll :: "'n \<Rightarrow> 'n \<times> DhcpEvent option"
  sm_addr_capacity :: nat
  sm_ip_addrs :: "'n \<Rightarrow> Ipv4Cidr list"
  sm_set_ip_addrs :: "Ipv4Cidr list \<Rightarrow> 'n \<Rightarrow> 'n"
  sm_default_route :: "'n \<Rightarrow> Ipv4Address option"
  sm_add_default_route :: "Ipv4Address \<Rightarrow> 'n \<Rightarrow> 'n \<times> bool"
  sm_remove_default_route :: "'n \<Rightarrow> 'n"
  sm_udp_recv :: "'n \<Rightarrow> 'n \<times> (u8 list \<times> IpEndpoint) option"
  sm_udp_send :: "IpEndpoint \<Rightarrow> u8 list \<Rightarrow> 'n \<Rightarrow> 'n"
  sm_join :: "IpAddress \<Rightarrow> 'n \<Rightarrow> 'n \<times> (nat, bool) result"

text \<open>
  The addresses of an interface are a vector with a capacity, which \<open>update_ip_addrs\<close> gives access to,
  and the routing table has room for a default route. Nothing but these calls changes them: not the
  processing of packets, nor the DHCP client, which only reports, nor the sockets.
\<close>

definition smoltcp_laws :: "'n Smoltcp \<Rightarrow> bool" where
  "smoltcp_laws S \<longleftrightarrow> 1 \<le> sm_addr_capacity S \<and>
     (\<forall>now n. sm_ip_addrs S (fst (sm_poll S now n)) = sm_ip_addrs S n \<and>
        sm_default_route S (fst (sm_poll S now n)) = sm_default_route S n) \<and>
     (\<forall>n. sm_ip_addrs S (fst (sm_dhcp_poll S n)) = sm_ip_addrs S n \<and>
        sm_default_route S (fst (sm_dhcp_poll S n)) = sm_default_route S n) \<and>
     (\<forall>xs n. length xs \<le> sm_addr_capacity S \<longrightarrow> sm_ip_addrs S (sm_set_ip_addrs S xs n) = xs \<and>
        sm_default_route S (sm_set_ip_addrs S xs n) = sm_default_route S n) \<and>
     (\<forall>r n. snd (sm_add_default_route S r n) \<and>
        sm_default_route S (fst (sm_add_default_route S r n)) = Some r \<and>
        sm_ip_addrs S (fst (sm_add_default_route S r n)) = sm_ip_addrs S n) \<and>
     (\<forall>n. sm_default_route S (sm_remove_default_route S n) = None \<and>
        sm_ip_addrs S (sm_remove_default_route S n) = sm_ip_addrs S n) \<and>
     (\<forall>n. sm_ip_addrs S (fst (sm_udp_recv S n)) = sm_ip_addrs S n) \<and>
     (\<forall>ep bs n. sm_ip_addrs S (sm_udp_send S ep bs n) = sm_ip_addrs S n) \<and>
     (\<forall>a n. sm_ip_addrs S (fst (sm_join S a n)) = sm_ip_addrs S n)"

section \<open>The stack\<close>

definition stack_retry_config :: "RetryConfig \<Rightarrow> RetryConfig" where
  "stack_retry_config retry =
     retry\<lparr>discover_timeout := 2000000, initial_request_timeout := 500000, request_retries := 10\<rparr>"

text \<open>\<open>Stack::new\<close>: the interface with its address and seed, and the DHCP socket. A byte string is its bytes.\<close>

definition byte_lit :: "string \<Rightarrow> u8 list" where
  "byte_lit s = map (\<lambda>c. word_of_nat (of_char c)) s"

definition stack_new :: "'n Smoltcp \<Rightarrow> 'h SipHasher \<Rightarrow> UniqueId \<Rightarrow> u8 list \<Rightarrow> int \<Rightarrow> 'n" where
  "stack_new S hasher unique mac now =
     sm_new S \<lparr>hardware_addr = mac, net_random_seed = unique_id hasher unique (byte_lit ''smoltcp-config-random''),
       dhcp_retry = stack_retry_config (sm_retry_default S)\<rparr> now"

text \<open>\<open>ipv4_addr\<close> of the interface, the first of its addresses.\<close>

definition ipv4_addr :: "'n Smoltcp \<Rightarrow> 'n \<Rightarrow> Ipv4Address option" where
  "ipv4_addr S n = (case sm_ip_addrs S n of [] \<Rightarrow> None | a # _ \<Rightarrow> Some (cidr_address a))"

text \<open>The push into a vector that is full is an error, and its \<open>unwrap\<close> a panic.\<close>

definition push_addr :: "'n Smoltcp \<Rightarrow> Ipv4Cidr \<Rightarrow> Ipv4Cidr list \<Rightarrow> Ipv4Cidr list outcome" where
  "push_addr S a addrs = (if length addrs < sm_addr_capacity S then Ret (addrs @ [a]) else Panic)"

definition poll_dhcp :: "'n Smoltcp \<Rightarrow> 'n \<Rightarrow> 'n outcome" where
  "poll_dhcp S n =
     (case sm_dhcp_poll S n of
        (n1, None) \<Rightarrow> Ret n1
      | (n1, Some (Configured config)) \<Rightarrow>
          obind (push_addr S (dhcp_address config) []) (\<lambda>addrs.
          let n2 = sm_set_ip_addrs S addrs n1 in
          case dhcp_router config of
            Some router \<Rightarrow> (case sm_add_default_route S router n2 of (n3, ok) \<Rightarrow> if ok then Ret n3 else Panic)
          | None \<Rightarrow> Ret (sm_remove_default_route S n2))
      | (n1, Some Deconfigured) \<Rightarrow> Ret (sm_set_ip_addrs S [] n1))"

text \<open>\<open>Stack::poll\<close>: the loop runs for as long as smoltcp finds work to do.\<close>

partial_function (option) stack_poll :: "'n Smoltcp \<Rightarrow> int \<Rightarrow> 'n \<Rightarrow> ('n \<times> int option) outcome option" where
  "stack_poll S now n =
     (case sm_poll S now n of (n1, again) \<Rightarrow>
        if again then (case poll_dhcp S n1 of Panic \<Rightarrow> Some Panic | Ret n2 \<Rightarrow> stack_poll S now n2)
        else Some (Ret (n1, sm_poll_delay S now n1)))"

declare stack_poll.simps [code]

section \<open>The DHCP programs\<close>

text \<open>
  \<open>stm32f746-nucleo-dhcp-rtic.rs\<close> and \<open>rp2040-w5500macraw-dhcp-rtic.rs\<close> do nothing but run the stack: it is
  set up and polled once, and polled again in every interrupt, whether the network or the task
  \<open>periodic\<close> asks for it. The durations that \<open>poll\<close> returns are not used. (\<open>unique_flash_id\<close> is in \<open>setup.rs\<close>.)
\<close>

definition unique_flash_id :: "u8 list \<Rightarrow> UniqueId" where
  "unique_flash_id flash_id = unique_id_new (overwrite (replicate 16 0) 0 flash_id)"

definition stm32_dhcp_init :: "'n Smoltcp \<Rightarrow> 'h SipHasher \<Rightarrow> u8 list \<Rightarrow> int \<Rightarrow> int \<Rightarrow> 'n outcome option" where
  "stm32_dhcp_init S hasher chip now now' =
     (let unique = unique_chip_id chip;
        n = stack_new S hasher unique (mac_address hasher unique (byte_lit ''stm32-eth'')) now
      in map_option (map_outcome_val fst) (stack_poll S now' n))"

definition w5500_dhcp_init :: "'n Smoltcp \<Rightarrow> 'h SipHasher \<Rightarrow> u8 list \<Rightarrow> int \<Rightarrow> int \<Rightarrow> 'n outcome option" where
  "w5500_dhcp_init S hasher flash now now' =
     (let unique = unique_flash_id flash;
        n = stack_new S hasher unique (mac_address hasher unique (byte_lit ''w5500-spi0'')) now
      in map_option (map_outcome_val fst) (stack_poll S now' n))"

definition dhcp_eth_interrupt :: "'n Smoltcp \<Rightarrow> int \<Rightarrow> 'n \<Rightarrow> 'n outcome option" where
  "dhcp_eth_interrupt S now n = map_option (map_outcome_val fst) (stack_poll S now n)"

section \<open>The lease\<close>

text \<open>
  What the stack is to make of the client's events: the address and the router of the lease. When the
  lease is lost the address goes, while the router stays as it was.
\<close>

record Lease =
  lease_addr :: "Ipv4Cidr option"
  lease_router :: "Ipv4Address option"

fun lease_step :: "DhcpEvent option \<Rightarrow> Lease \<Rightarrow> Lease" where
  "lease_step None l = l"
| "lease_step (Some (Configured c)) l = \<lparr>lease_addr = Some (dhcp_address c), lease_router = dhcp_router c\<rparr>"
| "lease_step (Some Deconfigured) l = l\<lparr>lease_addr := None\<rparr>"

definition lease_of :: "'n Smoltcp \<Rightarrow> 'n \<Rightarrow> Lease" where
  "lease_of S n =
     \<lparr>lease_addr = (case sm_ip_addrs S n of [] \<Rightarrow> None | a # _ \<Rightarrow> Some a), lease_router = sm_default_route S n\<rparr>"

definition stack_ok :: "'n Smoltcp \<Rightarrow> 'n \<Rightarrow> bool" where
  "stack_ok S n \<longleftrightarrow> length (sm_ip_addrs S n) \<le> 1"

lemma ipv4_addr_lease: "ipv4_addr S n = map_option cidr_address (lease_addr (lease_of S n))"
  by (simp add: ipv4_addr_def lease_of_def split: list.splits)

text \<open>The events that a call of \<open>poll\<close> sees, and where it ends.\<close>

inductive poll_run :: "'n Smoltcp \<Rightarrow> int \<Rightarrow> 'n \<Rightarrow> DhcpEvent option list \<Rightarrow> 'n \<Rightarrow> bool" for S now where
  poll_done: "sm_poll S now n = (n', False) \<Longrightarrow> poll_run S now n [] n'"
| poll_more: "sm_poll S now n = (n1, True) \<Longrightarrow> sm_dhcp_poll S n1 = (d, ev) \<Longrightarrow> poll_dhcp S n1 = Ret n2 \<Longrightarrow>
    poll_run S now n2 evs n' \<Longrightarrow> poll_run S now n (ev # evs) n'"

lemma smoltcp_lawsD:
  assumes "smoltcp_laws S"
  shows "sm_poll S now n = (n', b) \<Longrightarrow> lease_of S n' = lease_of S n \<and> (stack_ok S n' \<longleftrightarrow> stack_ok S n)"
    and "sm_dhcp_poll S n = (n', ev) \<Longrightarrow> lease_of S n' = lease_of S n \<and> (stack_ok S n' \<longleftrightarrow> stack_ok S n)"
    and "length xs \<le> 1 \<Longrightarrow> sm_ip_addrs S (sm_set_ip_addrs S xs n) = xs \<and>
      sm_default_route S (sm_set_ip_addrs S xs n) = sm_default_route S n"
    and "\<exists>n'. sm_add_default_route S r n = (n', True) \<and> sm_default_route S n' = Some r \<and> sm_ip_addrs S n' = sm_ip_addrs S n"
    and "sm_default_route S (sm_remove_default_route S n) = None"
    and "sm_ip_addrs S (sm_remove_default_route S n) = sm_ip_addrs S n"
    and "0 < sm_addr_capacity S"
proof -
  note rest = assms [unfolded smoltcp_laws_def, THEN conjunct2]
  note polled = rest [THEN conjunct1, rule_format] and rest = rest [THEN conjunct2]
  note dhcp = rest [THEN conjunct1, rule_format] and rest = rest [THEN conjunct2]
  note addrs = rest [THEN conjunct1, rule_format] and rest = rest [THEN conjunct2]
  note added = rest [THEN conjunct1, rule_format] and rest = rest [THEN conjunct2]
  note removed = rest [THEN conjunct1, rule_format]
  have cap: "1 \<le> sm_addr_capacity S" using assms unfolding smoltcp_laws_def by (rule conjunct1)
  have same: "lease_of S n' = lease_of S n \<and> (stack_ok S n' \<longleftrightarrow> stack_ok S n)"
    if "sm_ip_addrs S n' = sm_ip_addrs S n" "sm_default_route S n' = sm_default_route S n" for n'
    using that by (simp add: lease_of_def stack_ok_def)
  show "sm_poll S now n = (n', b) \<Longrightarrow> lease_of S n' = lease_of S n \<and> (stack_ok S n' \<longleftrightarrow> stack_ok S n)"
    using same [of n'] polled [of now n] by simp
  show "sm_dhcp_poll S n = (n', ev) \<Longrightarrow> lease_of S n' = lease_of S n \<and> (stack_ok S n' \<longleftrightarrow> stack_ok S n)"
    using same [of n'] dhcp [of n] by simp
  show "length xs \<le> 1 \<Longrightarrow> sm_ip_addrs S (sm_set_ip_addrs S xs n) = xs \<and>
      sm_default_route S (sm_set_ip_addrs S xs n) = sm_default_route S n"
    using addrs [of xs n] cap by simp
  show "\<exists>n'. sm_add_default_route S r n = (n', True) \<and> sm_default_route S n' = Some r \<and> sm_ip_addrs S n' = sm_ip_addrs S n"
    using added [of r n] by (cases "sm_add_default_route S r n") simp
  show "sm_default_route S (sm_remove_default_route S n) = None"
    "sm_ip_addrs S (sm_remove_default_route S n) = sm_ip_addrs S n" using removed [of n] by simp_all
  show "0 < sm_addr_capacity S" using cap by simp
qed

text \<open>One poll of the DHCP client brings the interface up to date with the event.\<close>

lemma poll_dhcp_lease:
  assumes "smoltcp_laws S" and "stack_ok S n" and "sm_dhcp_poll S n = (d, ev)"
  shows "\<exists>n'. poll_dhcp S n = Ret n' \<and> stack_ok S n' \<and> lease_of S n' = lease_step ev (lease_of S n)"
proof -
  note laws = smoltcp_lawsD [OF assms(1)]
  have d: "lease_of S d = lease_of S n" "stack_ok S d" using laws(2) [OF assms(3)] assms(2) by simp_all
  show ?thesis
  proof (cases ev)
    case None
    then show ?thesis using assms(3) d by (simp add: poll_dhcp_def)
  next
    case (Some e)
    show ?thesis
    proof (cases e)
      case (Configured c)
      let ?n2 = "sm_set_ip_addrs S [dhcp_address c] d"
      have n2: "sm_ip_addrs S ?n2 = [dhcp_address c]" "push_addr S (dhcp_address c) [] = Ret [dhcp_address c]"
        using laws(3) [of "[dhcp_address c]" d] laws(7) by (simp_all add: push_addr_def)
      show ?thesis
      proof (cases "dhcp_router c")
        case no_router: None
        then show ?thesis
          using assms(3) Some Configured n2 laws(5,6) [of ?n2]
          by (simp add: poll_dhcp_def stack_ok_def lease_of_def)
      next
        case router: (Some r)
        obtain n3 where "sm_add_default_route S r ?n2 = (n3, True)" "sm_default_route S n3 = Some r"
          "sm_ip_addrs S n3 = sm_ip_addrs S ?n2" using laws(4) by blast
        then show ?thesis
          using assms(3) Some Configured router n2 by (simp add: poll_dhcp_def stack_ok_def lease_of_def)
      qed
    next
      case Deconfigured
      then show ?thesis
        using assms(3) Some d laws(3) [of "[]" d] by (auto simp: poll_dhcp_def stack_ok_def lease_of_def)
    qed
  qed
qed

section \<open>Link, clock and heap\<close>

datatype PhySpeed = PhyHalfDuplexBase10T | PhyFullDuplexBase10T | PhyHalfDuplexBase100Tx | PhyFullDuplexBase100Tx
datatype Speed = HalfDuplexBase10T | FullDuplexBase10T | HalfDuplexBase100Tx | FullDuplexBase100Tx

fun mac_speed_of :: "PhySpeed \<Rightarrow> Speed" where
  "mac_speed_of PhyHalfDuplexBase10T = HalfDuplexBase10T"
| "mac_speed_of PhyFullDuplexBase10T = FullDuplexBase10T"
| "mac_speed_of PhyHalfDuplexBase100Tx = HalfDuplexBase100Tx"
| "mac_speed_of PhyFullDuplexBase100Tx = FullDuplexBase100Tx"

text \<open>The driver of the STM32's Ethernet, as far as the link is concerned; \<open>mac_speed\<close> is the last speed set.\<close>

record Stm32Ethernet =
  got_link :: bool
  mac_speed :: "Speed option"

definition stm32_ethernet_new :: "Speed option \<Rightarrow> Stm32Ethernet" where
  "stm32_ethernet_new sp = \<lparr>got_link = False, mac_speed = sp\<rparr>"

text \<open>One poll of the link, given what the PHY reports: whether there is a link, and at which speed.\<close>

definition link_established :: "bool \<times> PhySpeed option \<Rightarrow> Stm32Ethernet \<Rightarrow> Stm32Ethernet \<times> bool" where
  "link_established phy e =
     (let e1 = (if fst phy \<and> \<not> got_link e
                then (case snd phy of Some sp \<Rightarrow> e\<lparr>mac_speed := Some (mac_speed_of sp)\<rparr> | None \<Rightarrow> e) else e)
      in (e1\<lparr>got_link := fst phy\<rparr>, fst phy))"

text \<open>The loop at start-up over the reports of the PHY, and what is left of them when it ends.\<close>

fun wait_for_link :: "(bool \<times> PhySpeed option) list \<Rightarrow> Stm32Ethernet \<Rightarrow> (Stm32Ethernet \<times> (bool \<times> PhySpeed option) list) option" where
  "wait_for_link [] e = None"
| "wait_for_link (phy # phys) e =
     (case link_established phy e of (e', lnk) \<Rightarrow> if lnk then Some (e', phys) else wait_for_link phys e')"

text \<open>
  The wait for the link in \<open>rp2040-w5500-dhcp-rtic.rs\<close>: at most 51 readings of the PHY between two
  resets of the chip's configuration, each round beginning with a check of the chip's version.
\<close>

definition LINK_UP_POLL_ATTEMPTS :: nat where "LINK_UP_POLL_ATTEMPTS = 50"

fun poll_link :: "nat \<Rightarrow> bool list \<Rightarrow> (bool \<times> bool list) option" where
  "poll_link attempts [] = None"
| "poll_link attempts (lnk # lnks) =
     (if lnk then Some (True, lnks)
      else if attempts \<ge> LINK_UP_POLL_ATTEMPTS then Some (False, lnks)
      else poll_link (attempts + 1) lnks)"

lemma poll_link_shorter: "poll_link a lnks = Some (b, rest) \<Longrightarrow> length rest < length lnks"
  by (induction a lnks rule: poll_link.induct) (auto split: if_splits)

function link_rounds :: "u8 \<Rightarrow> u8 \<Rightarrow> bool list \<Rightarrow> bool list outcome option" where
  "link_rounds version expected lnks =
     (if version \<noteq> expected then Some Panic
      else case poll_link 0 lnks of
        None \<Rightarrow> None
      | Some (True, rest) \<Rightarrow> Some (Ret rest)
      | Some (False, rest) \<Rightarrow> link_rounds version expected rest)"
  by pat_completeness auto

termination by (relation "measure (\<lambda>(v, e, lnks). length lnks)") (auto simp: poll_link_shorter)

text \<open>
  The heap: everything between the end of the data and the stack, of which 16 KiB are kept free. The
  subtractions panic when they underflow.
\<close>

definition STACK_SIZE :: nat where "STACK_SIZE = 16 * 1024"

definition init_heap :: "nat \<Rightarrow> nat \<Rightarrow> (nat \<times> nat) outcome" where
  "init_heap heap_start heap_end =
     (if heap_end < heap_start then Panic
      else if heap_end - heap_start < STACK_SIZE then Panic
      else Ret (heap_start, heap_end - heap_start - STACK_SIZE))"

text \<open>The wait ends with the first reading that shows the link up, in whichever round it comes.\<close>

lemma poll_link_spec:
  "attempts \<le> LINK_UP_POLL_ATTEMPTS \<Longrightarrow>
     poll_link attempts lnks = (let k = length (takeWhile Not lnks); m = LINK_UP_POLL_ATTEMPTS - attempts in
       if k \<le> m then (if k < length lnks then Some (True, drop (Suc k) lnks) else None)
       else Some (False, drop (Suc m) lnks))"
proof (induction attempts lnks rule: poll_link.induct)
  case (2 attempts lnk lnks)
  show ?case
  proof (cases "lnk \<or> attempts = LINK_UP_POLL_ATTEMPTS")
    case True
    then show ?thesis using "2.prems" by (auto simp: Let_def)
  next
    case False
    then have "LINK_UP_POLL_ATTEMPTS - attempts = Suc (LINK_UP_POLL_ATTEMPTS - (attempts + 1))"
      using "2.prems" by linarith
    then show ?thesis using "2.IH" False "2.prems" by (simp add: Let_def)
  qed
qed (simp add: Let_def)

lemma link_rounds_first_up: "link_rounds v v (replicate k False @ True # rest) = Some (Ret rest)"
proof (induction k rule: less_induct)
  case (less k)
  let ?m = LINK_UP_POLL_ATTEMPTS
  have k: "length (takeWhile Not (replicate k False @ True # rest)) = k" by (simp add: takeWhile_append)
  show ?case
  proof (cases "k \<le> ?m")
    case True
    then have "poll_link 0 (replicate k False @ True # rest) = Some (True, rest)"
      using poll_link_spec [of 0 "replicate k False @ True # rest"] unfolding k by (simp add: Let_def)
    then show ?thesis by simp
  next
    case False
    then have "poll_link 0 (replicate k False @ True # rest) = Some (False, replicate (k - Suc ?m) False @ True # rest)"
      using poll_link_spec [of 0 "replicate k False @ True # rest"] unfolding k by (simp add: Let_def)
    moreover have "k - Suc ?m < k" using False by simp
    ultimately show ?thesis using less.IH [of "k - Suc ?m"] by simp
  qed
qed

section \<open>Polling ends\<close>

lemma stack_poll_lease:
  assumes "smoltcp_laws S" and "stack_ok S n"
    and "\<And>n n2. snd (sm_poll S now n) \<Longrightarrow> poll_dhcp S (fst (sm_poll S now n)) = Ret n2 \<Longrightarrow> (work n2 :: nat) < work n"
  shows "\<exists>n' evs. stack_poll S now n = Some (Ret (n', sm_poll_delay S now n')) \<and> poll_run S now n evs n' \<and>
    stack_ok S n' \<and> lease_of S n' = fold lease_step evs (lease_of S n)"
  using assms(2)
proof (induction "work n" arbitrary: n rule: less_induct)
  case less
  obtain n1 again where p: "sm_poll S now n = (n1, again)" by fastforce
  obtain d ev where d: "sm_dhcp_poll S n1 = (d, ev)" by fastforce
  have n1: "lease_of S n1 = lease_of S n" "stack_ok S n1" using smoltcp_lawsD(1) [OF assms(1) p] less.prems by simp_all
  show ?case
  proof (cases again)
    case False
    then show ?thesis
      using p n1 poll_done [of S now n n1] by (intro exI [of _ n1] exI [of _ "[]"]) (simp add: stack_poll.simps)
  next
    case True
    obtain n2 where n2: "poll_dhcp S n1 = Ret n2" "stack_ok S n2" "lease_of S n2 = lease_step ev (lease_of S n1)"
      using poll_dhcp_lease [OF assms(1) n1(2) d] by blast
    then have "work n2 < work n" using assms(3) [of n n2] p True by simp
    from less.hyps [OF this n2(2)] obtain n' evs where
      "stack_poll S now n2 = Some (Ret (n', sm_poll_delay S now n'))" "poll_run S now n2 evs n'" "stack_ok S n'"
      "lease_of S n' = fold lease_step evs (lease_of S n2)" by blast
    then show ?thesis
      using p True n2 n1 d poll_more [of S now n n1 d ev n2 evs n']
      by (intro exI [of _ n'] exI [of _ "ev # evs"]) (simp add: stack_poll.simps)
  qed
qed

text \<open>The DHCP programs as a whole: after any number of interrupts, the lease is the one the client's events say.\<close>

fun dhcp_run :: "'n Smoltcp \<Rightarrow> int list \<Rightarrow> 'n \<Rightarrow> 'n outcome option" where
  "dhcp_run S [] n = Some (Ret n)"
| "dhcp_run S (now # nows) n =
     (case dhcp_eth_interrupt S now n of None \<Rightarrow> None | Some Panic \<Rightarrow> Some Panic | Some (Ret n') \<Rightarrow> dhcp_run S nows n')"

lemma dhcp_run_lease:
  assumes "smoltcp_laws S" and "stack_ok S n"
    and "\<And>now n n2. snd (sm_poll S now n) \<Longrightarrow> poll_dhcp S (fst (sm_poll S now n)) = Ret n2 \<Longrightarrow> (work n2 :: nat) < work n"
  shows "\<exists>n' evs. dhcp_run S nows n = Some (Ret n') \<and> stack_ok S n' \<and> lease_of S n' = fold lease_step evs (lease_of S n)"
  using assms(2)
proof (induction nows arbitrary: n)
  case Nil
  show ?case using Nil by (auto intro: exI [of _ "[]"])
next
  case (Cons now nows)
  obtain n1 evs where 1: "stack_poll S now n = Some (Ret (n1, sm_poll_delay S now n1))" "stack_ok S n1"
    "lease_of S n1 = fold lease_step evs (lease_of S n)"
    using stack_poll_lease [OF assms(1) Cons.prems, of now work] assms(3) [of now] by blast
  obtain n' evs' where "dhcp_run S nows n1 = Some (Ret n')" "stack_ok S n'" "lease_of S n' = fold lease_step evs' (lease_of S n1)"
    using Cons.IH [OF 1(2)] by blast
  then show ?case using 1 by (intro exI [of _ n'] exI [of _ "evs @ evs'"]) (simp add: dhcp_eth_interrupt_def)
qed

section \<open>Properties\<close>


text \<open>
  A network that plays back a list of reports of its DHCP client, one for each round of processing, and
  a list of datagrams.
\<close>

record ScriptedNet =
  sn_events :: "DhcpEvent option list"
  sn_addrs :: "Ipv4Cidr list"
  sn_route :: "Ipv4Address option"
  sn_received :: "(u8 list \<times> IpEndpoint) list"
  sn_sent :: "(IpEndpoint \<times> u8 list) list"

definition scripted_net :: "ScriptedNet Smoltcp" where
  "scripted_net = \<lparr>
     sm_retry_default = \<lparr>discover_timeout = 10000000, initial_request_timeout = 5000000, request_retries = 5\<rparr>,
     sm_new = \<lambda>c now. \<lparr>sn_events = [], sn_addrs = [], sn_route = None, sn_received = [], sn_sent = []\<rparr>,
     sm_poll = \<lambda>now n. (n, sn_events n \<noteq> []),
     sm_poll_delay = \<lambda>now n. None,
     sm_dhcp_poll = \<lambda>n. case sn_events n of [] \<Rightarrow> (n, None) | ev # evs \<Rightarrow> (n\<lparr>sn_events := evs\<rparr>, ev),
     sm_addr_capacity = 2,
     sm_ip_addrs = sn_addrs,
     sm_set_ip_addrs = \<lambda>xs n. n\<lparr>sn_addrs := xs\<rparr>,
     sm_default_route = sn_route,
     sm_add_default_route = \<lambda>r n. (n\<lparr>sn_route := Some r\<rparr>, True),
     sm_remove_default_route = \<lambda>n. n\<lparr>sn_route := None\<rparr>,
     sm_udp_recv = \<lambda>n. case sn_received n of [] \<Rightarrow> (n, None) | d # ds \<Rightarrow> (n\<lparr>sn_received := ds\<rparr>, Some d),
     sm_udp_send = \<lambda>ep bs n. n\<lparr>sn_sent := sn_sent n @ [(ep, bs)]\<rparr>,
     sm_join = \<lambda>a n. (n, Ok True)\<rparr>"

lemma scripted_net_laws: "smoltcp_laws scripted_net"
  by (simp add: smoltcp_laws_def scripted_net_def split: list.splits)

lemma scripted_net_work:
  assumes "snd (sm_poll scripted_net now n)" and "poll_dhcp scripted_net (fst (sm_poll scripted_net now n)) = Ret n2"
  shows "length (sn_events n2) < length (sn_events n)"
  using assms
  by (cases "sn_events n")
    (auto simp: scripted_net_def poll_dhcp_def push_addr_def Let_def split: option.splits DhcpEvent.splits)

definition lease_example :: DhcpConfig where
  "lease_example = \<lparr>dhcp_address = \<lparr>cidr_address = Ipv4Address [192, 168, 0, 4], cidr_prefix_len = 24\<rparr>,
     dhcp_router = Some (Ipv4Address [192, 168, 0, 1])\<rparr>"

definition net_example :: "DhcpEvent option list \<Rightarrow> ScriptedNet" where
  "net_example evs = \<lparr>sn_events = evs, sn_addrs = [], sn_route = None, sn_received = [], sn_sent = []\<rparr>"


end
