(* ===== verification/Ssdp_Device.thy ===== *)
theory Ssdp_Device
  imports Ssdp_Engine Net_Stack
begin

text \<open>
  The SSDP programs for devices under \<open>cross/\<close>: the engine on top of the network stack, driven by the
  Ethernet interrupt. \<open>stm32f746-nucleo-ssdp-rtic.rs\<close>, \<open>stm32f746-ssdp-rtic2.rs\<close> and
  \<open>rp2040-w5500macraw-ssdp-rtic.rs\<close> share all but how they handle timeouts and how they ask to be woken;
  each has its own definition over the shared steps. What the engine does to the outside is carried out
  on the socket in order and also returned. \<open>sub\<close> is the difference of two moments, which smoltcp
  documents as a duration and so never negative.
\<close>

section \<open>State\<close>

record ('cb, 'n) SsdpApp =
  app_net :: 'n
  app_ssdp :: "('cb, int) Engine"

text \<open>The socket and the interface of smoltcp as the engine sees them.\<close>

fun carry_out :: "'n Smoltcp \<Rightarrow> 'cb Output \<Rightarrow> 'n \<Rightarrow> 'n" where
  "carry_out S (Sent d) n = sm_udp_send S (socket_to_wire (GenericSocketAddr (dg_to d))) (dg_bytes d) n"
| "carry_out S (JoinGroup ix) n = fst (sm_join S (ip_to_wire (GenericIpAddress (fst ssdp_group))) n)"
| "carry_out S (LeaveGroup ix) n = n"
| "carry_out S (Called cb notification) n = n"

definition app_mc :: "'n Smoltcp \<Rightarrow> 'n \<Rightarrow> InterfaceIndex \<Rightarrow> bool \<Rightarrow> (UdpError, unit) result" where
  "app_mc S n ix joining =
     (if joining then smoltcp_join_multicast_group (\<lambda>a. snd (sm_join S a n)) (fst ssdp_group) ix
      else smoltcp_leave_multicast_group (fst ssdp_group) ix)"

section \<open>Start\<close>

definition app_start ::
    "'n Smoltcp \<Rightarrow> (IpAddr \<Rightarrow> str) \<Rightarrow> ('cb ActiveSearch list \<Rightarrow> 'cb ActiveSearch \<Rightarrow> 'cb ActiveSearch list) \<Rightarrow> u32 \<Rightarrow>
       str \<Rightarrow> 'cb \<Rightarrow> str \<Rightarrow> Advertisement \<Rightarrow> int \<Rightarrow> 'n \<Rightarrow> ('cb, 'n) SsdpApp \<times> 'cb Output list" where
  "app_start S show_ip ins seed st listener usn ad now n =
     (let e0 = engine_new seed now;
        ev = NewLink 1 [] (flags_or (flags_or UP RUNNING) MULTICAST);
        (e1, r, out1) = on_network_event show_ip (app_mc S n) ev e0;
        (e2, out2) = subscribe ins st listener e1;
        (e3, out3) = advertise show_ip usn ad e2;
        out = out1 @ out2 @ out3
      in (\<lparr>app_net = fold (carry_out S) out n, app_ssdp = e3\<rparr>, out))"

definition stm32_init ::
    "'n Smoltcp \<Rightarrow> 'h SipHasher \<Rightarrow> (u8 list \<Rightarrow> 'uuid) \<Rightarrow> ('uuid \<Rightarrow> str) \<Rightarrow> (IpAddr \<Rightarrow> str) \<Rightarrow>
       ('cb ActiveSearch list \<Rightarrow> 'cb ActiveSearch \<Rightarrow> 'cb ActiveSearch list) \<Rightarrow> u8 list \<Rightarrow> 'cb \<Rightarrow> int \<Rightarrow> int \<Rightarrow>
       ('cb, 'n) SsdpApp \<times> 'cb Output list" where
  "stm32_init S hasher new_v8 show_uuid show_ip ins chip listener now now' =
     (let unique = unique_chip_id chip;
        mac = mac_address hasher unique (byte_lit ''stm32-eth'');
        n = stack_new S hasher unique mac now;
        seed = ucast (unique_id hasher unique (byte_lit ''ssdp-refresh''))
      in app_start S show_ip ins seed (lit ''cotton-test-server-stm32f746'') listener
           (show_uuid (uuid new_v8 hasher unique (byte_lit ''upnp'')))
           \<lparr>ad_notification_type = lit ''stm32f746-nucleo-test'', ad_location = lit ''http://127.0.0.1/''\<rparr> now' n)"

definition rp2040_w5500_init ::
    "'n Smoltcp \<Rightarrow> 'h SipHasher \<Rightarrow> (u8 list \<Rightarrow> 'uuid) \<Rightarrow> ('uuid \<Rightarrow> str) \<Rightarrow> (IpAddr \<Rightarrow> str) \<Rightarrow>
       ('cb ActiveSearch list \<Rightarrow> 'cb ActiveSearch \<Rightarrow> 'cb ActiveSearch list) \<Rightarrow> u8 list \<Rightarrow> 'cb \<Rightarrow> int \<Rightarrow> int \<Rightarrow> int \<Rightarrow>
       (('cb, 'n) SsdpApp \<times> 'cb Output list) outcome option" where
  "rp2040_w5500_init S hasher new_v8 show_uuid show_ip ins flash listener now now_polled now' =
     (let unique = unique_flash_id flash;
        mac = mac_address hasher unique (byte_lit ''w5500-spi0'');
        n = stack_new S hasher unique mac now;
        seed = ucast (unique_id hasher unique (byte_lit ''ssdp-refresh''))
      in case stack_poll S now_polled n of
           None \<Rightarrow> None
         | Some Panic \<Rightarrow> Some Panic
         | Some (Ret (n', delay)) \<Rightarrow>
             Some (Ret (app_start S show_ip ins seed (lit ''cotton-test-server-rp2040'') listener
               (show_uuid (uuid new_v8 hasher unique (byte_lit ''upnp'')))
               \<lparr>ad_notification_type = lit ''rp2040-w5500-test'', ad_location = lit ''http://127.0.0.1/''\<rparr> now' n')))"

section \<open>The steps of the interrupt\<close>

text \<open>An address where there was none: the engine is told, and its salvos begin again.\<close>

definition announce_address ::
    "'n Smoltcp \<Rightarrow> (IpAddr \<Rightarrow> str) \<Rightarrow> int \<Rightarrow> Ipv4Address option \<Rightarrow> Ipv4Address option \<Rightarrow> ('cb, 'n) SsdpApp \<Rightarrow>
       ('cb, 'n) SsdpApp \<times> 'cb Output list" where
  "announce_address S show_ip now old_ip new_ip app =
     (case (old_ip, new_ip) of
        (None, Some ip) \<Rightarrow>
          (case on_new_addr_event show_ip 1 (V4 (ipv4_to_std (ipv4_from_wire ip))) (app_ssdp app) of
             (e, out) \<Rightarrow>
               (app\<lparr>app_net := fold (carry_out S) out (app_net app), app_ssdp := reset_refresh_timer now e\<rparr>, out))
      | _ \<Rightarrow> (app, []))"

definition receive_datagram ::
    "'n Smoltcp \<Rightarrow> (int \<Rightarrow> nat \<Rightarrow> int) \<Rightarrow> int \<Rightarrow> Ipv4Address option \<Rightarrow> ('cb, 'n) SsdpApp \<Rightarrow>
       (('cb, 'n) SsdpApp \<times> 'cb Output list) outcome" where
  "receive_datagram S add now new_ip app =
     (case new_ip of
        None \<Rightarrow> Ret (app, [])
      | Some wasto \<Rightarrow>
          (case sm_udp_recv S (app_net app) of
             (n, None) \<Rightarrow> Ret (app\<lparr>app_net := n\<rparr>, [])
           | (n, Some (bytes, endpoint)) \<Rightarrow>
               obind (on_data add bytes (ip_to_std (ip_from_wire (Ipv4 wasto)))
                        (socket_to_std (socket_from_wire endpoint)) now (app_ssdp app)) (\<lambda>(e, out).
               Ret (app\<lparr>app_net := fold (carry_out S) out n, app_ssdp := e\<rparr>, out))))"

definition run_timeout ::
    "'n Smoltcp \<Rightarrow> (int \<Rightarrow> nat \<Rightarrow> int) \<Rightarrow> (IpAddr \<Rightarrow> str) \<Rightarrow> int \<Rightarrow> ('cb, 'n) SsdpApp \<Rightarrow> ('cb, 'n) SsdpApp \<times> 'cb Output list" where
  "run_timeout S add show_ip now app =
     (case handle_timeout add show_ip now (app_ssdp app) of
        (e, out) \<Rightarrow> (app\<lparr>app_net := fold (carry_out S) out (app_net app), app_ssdp := e\<rparr>, out))"

text \<open>The \<open>if\<close> of the STM32 programs, and the \<open>while\<close> of the RP2040 one.\<close>

definition timeout_once ::
    "'n Smoltcp \<Rightarrow> (int \<Rightarrow> nat \<Rightarrow> int) \<Rightarrow> (IpAddr \<Rightarrow> str) \<Rightarrow> int \<Rightarrow> ('cb, 'n) SsdpApp \<Rightarrow> ('cb, 'n) SsdpApp \<times> 'cb Output list" where
  "timeout_once S add show_ip now app =
     (if poll_timeout (app_ssdp app) \<le> now then run_timeout S add show_ip now app else (app, []))"

partial_function (option) timeout_loop ::
    "'n Smoltcp \<Rightarrow> (int \<Rightarrow> nat \<Rightarrow> int) \<Rightarrow> (IpAddr \<Rightarrow> str) \<Rightarrow> int \<Rightarrow> ('cb, 'n) SsdpApp \<Rightarrow> 'cb Output list \<Rightarrow>
       (('cb, 'n) SsdpApp \<times> 'cb Output list) option" where
  "timeout_loop S add show_ip now app outs =
     (if poll_timeout (app_ssdp app) \<le> now
      then (case run_timeout S add show_ip now app of (app', out) \<Rightarrow> timeout_loop S add show_ip now app' (outs @ out))
      else Some (app, outs))"

declare timeout_loop.simps [code]

definition next_wake :: "(int \<Rightarrow> int \<Rightarrow> int) \<Rightarrow> int \<Rightarrow> int option \<Rightarrow> ('cb, 'n) SsdpApp \<Rightarrow> int" where
  "next_wake sub now next_poll app =
     (let wake = sub (poll_timeout (app_ssdp app)) now in
      case next_poll of Some duration \<Rightarrow> min wake duration | None \<Rightarrow> wake)"

section \<open>The interrupt handlers\<close>

text \<open>What comes before the timeouts is the same everywhere; \<open>None\<close> stands for a poll that does not return.\<close>

definition network_events ::
    "'n Smoltcp \<Rightarrow> (int \<Rightarrow> nat \<Rightarrow> int) \<Rightarrow> (IpAddr \<Rightarrow> str) \<Rightarrow> int \<Rightarrow> ('cb, 'n) SsdpApp \<Rightarrow>
       (('cb, 'n) SsdpApp \<times> 'cb Output list \<times> int option) outcome option" where
  "network_events S add show_ip now app =
     (let old_ip = ipv4_addr S (app_net app) in
      case stack_poll S now (app_net app) of
        None \<Rightarrow> None
      | Some Panic \<Rightarrow> Some Panic
      | Some (Ret (n, next_poll)) \<Rightarrow>
          let new_ip = ipv4_addr S n;
            (app1, out1) = announce_address S show_ip now old_ip new_ip (app\<lparr>app_net := n\<rparr>)
          in Some (obind (receive_datagram S add now new_ip app1) (\<lambda>(app2, out2). Ret (app2, out1 @ out2, next_poll))))"

definition stm32_eth_interrupt ::
    "'n Smoltcp \<Rightarrow> (int \<Rightarrow> nat \<Rightarrow> int) \<Rightarrow> (int \<Rightarrow> int \<Rightarrow> int) \<Rightarrow> (IpAddr \<Rightarrow> str) \<Rightarrow> int \<Rightarrow> ('cb, 'n) SsdpApp \<Rightarrow>
       (('cb, 'n) SsdpApp \<times> 'cb Output list \<times> int) outcome option" where
  "stm32_eth_interrupt S add sub show_ip now app =
     (case network_events S add show_ip now app of
        None \<Rightarrow> None
      | Some Panic \<Rightarrow> Some Panic
      | Some (Ret (app1, out1, next_poll)) \<Rightarrow>
          let (app2, out2) = timeout_once S add show_ip now app1
          in Some (Ret (app2, out1 @ out2, next_wake sub now next_poll app2)))"

definition rp2040_eth_interrupt ::
    "'n Smoltcp \<Rightarrow> (int \<Rightarrow> nat \<Rightarrow> int) \<Rightarrow> (int \<Rightarrow> int \<Rightarrow> int) \<Rightarrow> (IpAddr \<Rightarrow> str) \<Rightarrow> int \<Rightarrow> ('cb, 'n) SsdpApp \<Rightarrow>
       (('cb, 'n) SsdpApp \<times> 'cb Output list \<times> int) outcome option" where
  "rp2040_eth_interrupt S add sub show_ip now app =
     (case network_events S add show_ip now app of
        None \<Rightarrow> None
      | Some Panic \<Rightarrow> Some Panic
      | Some (Ret (app1, out1, next_poll)) \<Rightarrow>
          (case timeout_loop S add show_ip now app1 [] of
             None \<Rightarrow> None
           | Some (app2, out2) \<Rightarrow> Some (Ret (app2, out1 @ out2, next_wake sub now next_poll app2))))"

text \<open>One round of the loop of \<open>network_task\<close>: the last component is the moment to wake at.\<close>

definition rtic2_network_round ::
    "'n Smoltcp \<Rightarrow> (int \<Rightarrow> nat \<Rightarrow> int) \<Rightarrow> (IpAddr \<Rightarrow> str) \<Rightarrow> int \<Rightarrow> ('cb, 'n) SsdpApp \<Rightarrow>
       (('cb, 'n) SsdpApp \<times> 'cb Output list \<times> int) outcome option" where
  "rtic2_network_round S add show_ip now app =
     (case network_events S add show_ip now app of
        None \<Rightarrow> None
      | Some Panic \<Rightarrow> Some Panic
      | Some (Ret (app1, out1, next_poll)) \<Rightarrow>
          let (app2, out2) = timeout_once S add show_ip now app1; wake = poll_timeout (app_ssdp app2)
          in Some (Ret (app2, out1 @ out2, case next_poll of Some duration \<Rightarrow> min wake (now + duration) | None \<Rightarrow> wake)))"

text \<open>
  The interrupt as a task of RTIC 1, with the moment \<open>periodic\<close> is scheduled for. \<open>spawn\<close> stands for
  \<open>spawn_after\<close>, of which the result is ignored: it takes what is scheduled and the moment asked for.
\<close>

definition rtic_eth_task ::
    "(int option \<Rightarrow> int \<Rightarrow> int option) \<Rightarrow>
       (int \<Rightarrow> ('cb, 'n) SsdpApp \<Rightarrow> (('cb, 'n) SsdpApp \<times> 'cb Output list \<times> int) outcome option) \<Rightarrow>
       int \<Rightarrow> ('cb, 'n) SsdpApp \<times> int option \<Rightarrow> (('cb, 'n) SsdpApp \<times> int option \<times> 'cb Output list) outcome option" where
  "rtic_eth_task spawn eth_interrupt now = (\<lambda>(app, scheduled).
     case eth_interrupt now app of
       None \<Rightarrow> None
     | Some Panic \<Rightarrow> Some Panic
     | Some (Ret (app', out, wake)) \<Rightarrow> Some (Ret (app', spawn scheduled (now + wake div 1000 * 1000), out)))"

section \<open>What the steps keep\<close>

lemma carry_out_addrs:
  assumes "smoltcp_laws S"
  shows "sm_ip_addrs S (carry_out S out n) = sm_ip_addrs S n"
    and "sm_ip_addrs S (fold (carry_out S) outs n) = sm_ip_addrs S n"
proof -
  have step: "sm_ip_addrs S (carry_out S out n) = sm_ip_addrs S n" for out n
    using assms unfolding smoltcp_laws_def by (cases out) simp_all
  show "sm_ip_addrs S (carry_out S out n) = sm_ip_addrs S n" by (rule step)
  show "sm_ip_addrs S (fold (carry_out S) outs n) = sm_ip_addrs S n"
    by (induction outs arbitrary: n) (simp_all add: step)
qed

lemma udp_recv_addrs: "smoltcp_laws S \<Longrightarrow> sm_ip_addrs S (fst (sm_udp_recv S n)) = sm_ip_addrs S n"
  by (simp add: smoltcp_laws_def)

lemma engine_ok_reset: "engine_ok e \<Longrightarrow> engine_ok (reset_refresh_timer now e)"
  by (simp add: reset_refresh_timer_def engine_ok_def timer_ok_new)

lemma announce_keeps:
  assumes "smoltcp_laws S" and "engine_ok (app_ssdp app)" and "announce_address S show_ip now old_ip new_ip app = (app', out)"
  shows "engine_ok (app_ssdp app') \<and> sm_ip_addrs S (app_net app') = sm_ip_addrs S (app_net app)"
proof (cases "old_ip = None \<and> new_ip \<noteq> None")
  case True
  then obtain ip where ip: "old_ip = None" "new_ip = Some ip" by blast
  obtain e out0 where ev: "on_new_addr_event show_ip 1 (V4 (ipv4_to_std (ipv4_from_wire ip))) (app_ssdp app) = (e, out0)"
    by fastforce
  then have "engine_ok e" using engine_ok_addr [OF assms(2), of show_ip 1 "V4 (ipv4_to_std (ipv4_from_wire ip))"] by simp
  then show ?thesis
    using assms(3) ip ev by (auto simp: announce_address_def carry_out_addrs [OF assms(1)] engine_ok_reset)
next
  case False
  then show ?thesis using assms(2,3) by (auto simp: announce_address_def split: option.splits)
qed

lemma receive_keeps:
  assumes "smoltcp_laws S" and "engine_ok (app_ssdp app)" and "receive_datagram S add now new_ip app = Ret (app', out)"
  shows "engine_ok (app_ssdp app') \<and> sm_ip_addrs S (app_net app') = sm_ip_addrs S (app_net app) \<and>
    interfaces (app_ssdp app') = interfaces (app_ssdp app) \<and> refresh_timer (app_ssdp app') = refresh_timer (app_ssdp app)"
  using assms(2,3) udp_recv_addrs [OF assms(1), of "app_net app"]
  by (auto simp: receive_datagram_def obind_Ret_iff carry_out_addrs [OF assms(1)] on_data_keeps
      intro: engine_ok_data split: option.splits prod.splits)

lemma receive_Panic_iff:
  "receive_datagram S add now new_ip app = Panic \<longleftrightarrow>
     new_ip \<noteq> None \<and> (\<exists>n bytes endpoint st. sm_udp_recv S (app_net app) = (n, Some (bytes, endpoint)) \<and> parse bytes = Ok (Search st 0))"
  by (auto simp: receive_datagram_def obind_Panic_iff on_data_Panic split: option.splits prod.splits)

lemma run_timeout_keeps:
  assumes "smoltcp_laws S" and "engine_ok (app_ssdp app)" and "run_timeout S add show_ip now app = (app', out)"
  shows "engine_ok (app_ssdp app') \<and> sm_ip_addrs S (app_net app') = sm_ip_addrs S (app_net app)"
  using assms(3) engine_ok_timeout [OF assms(2), of add show_ip now]
  by (auto simp: run_timeout_def carry_out_addrs [OF assms(1)] split: prod.splits)

lemma run_timeout_ssdp:
  "app_ssdp (fst (run_timeout S add show_ip now app)) = fst (handle_timeout add show_ip now (app_ssdp app))"
  "snd (run_timeout S add show_ip now app) = snd (handle_timeout add show_ip now (app_ssdp app))"
  by (simp_all add: run_timeout_def split: prod.splits)

section \<open>The loop over timeouts ends\<close>

text \<open>What smoltcp documents of its moments and durations: milliseconds are added as such, and a difference is not negative.\<close>

definition smoltcp_time :: "(int \<Rightarrow> nat \<Rightarrow> int) \<Rightarrow> (int \<Rightarrow> int \<Rightarrow> int) \<Rightarrow> bool" where
  "smoltcp_time add sub \<longleftrightarrow> (\<forall>t m. add t m = t + 1000 * int m) \<and> (\<forall>a b. sub a b = \<bar>a - b\<bar>)"

text \<open>Handling a timeout that is due leaves no response due, and moves the next salvo by 6 seconds at least.\<close>

lemma timeout_progress:
  assumes "smoltcp_time add sub" and "e' = fst (handle_timeout add show_ip now e)"
  shows "pending e' = {i \<in> pending e. now < i}"
    and "next_salvo (refresh_timer e) \<le> now \<Longrightarrow> next_salvo (refresh_timer e) + 6000000 \<le> next_salvo (refresh_timer e')"
    and "now < next_salvo (refresh_timer e) \<Longrightarrow> refresh_timer e' = refresh_timer e"
    and "poll_timeout e' \<le> now \<longleftrightarrow> next_salvo (refresh_timer e') \<le> now"
proof -
  show p: "pending e' = {i \<in> pending e. now < i}" unfolding assms(2) by (rule pending_timeout)
  show "poll_timeout e' \<le> now \<longleftrightarrow> next_salvo (refresh_timer e') \<le> now" unfolding poll_timeout_le_iff p by auto
  show "now < next_salvo (refresh_timer e) \<Longrightarrow> refresh_timer e' = refresh_timer e"
    unfolding assms(2) handle_timeout_keeps by (rule update_early)
  show "next_salvo (refresh_timer e) \<le> now \<Longrightarrow> next_salvo (refresh_timer e) + 6000000 \<le> next_salvo (refresh_timer e')"
    unfolding assms(2) handle_timeout_keeps using update_due [of "refresh_timer e" now add] assms(1)
    by (auto simp: smoltcp_time_def)
qed

lemma timeout_loop_ends:
  assumes "smoltcp_time add sub" and "smoltcp_laws S" and "engine_ok (app_ssdp app)"
  shows "\<exists>app' outs'. timeout_loop S add show_ip now app outs = Some (app', outs @ outs') \<and>
    now < poll_timeout (app_ssdp app') \<and> engine_ok (app_ssdp app') \<and>
    interfaces (app_ssdp app') = interfaces (app_ssdp app) \<and> sm_ip_addrs S (app_net app') = sm_ip_addrs S (app_net app)"
  using assms(3)
proof (induction "nat (now + 1 - next_salvo (refresh_timer (app_ssdp app))) + (if poll_timeout (app_ssdp app) \<le> now then 1 else 0)"
    arbitrary: app outs rule: less_induct)
  case less
  show ?case
  proof (cases "poll_timeout (app_ssdp app) \<le> now")
    case False
    then show ?thesis using less.prems by (simp add: timeout_loop.simps)
  next
    case True
    obtain app1 out where run: "run_timeout S add show_ip now app = (app1, out)" by fastforce
    have e: "app_ssdp app1 = fst (handle_timeout add show_ip now (app_ssdp app))"
      using run_timeout_ssdp(1) [of S add show_ip now app] run by simp
    note keep = run_timeout_keeps [OF assms(2) less.prems run]
    let ?t = "next_salvo (refresh_timer (app_ssdp app))" and ?t1 = "next_salvo (refresh_timer (app_ssdp app1))"
    have "nat (now + 1 - ?t1) + (if poll_timeout (app_ssdp app1) \<le> now then 1 else 0) <
        nat (now + 1 - ?t) + (if poll_timeout (app_ssdp app) \<le> now then 1 else 0)"
      using timeout_progress [OF assms(1) e] True by (cases "?t \<le> now") auto
    from less.hyps [OF this, of "outs @ out"] keep obtain app2 outs2 where
      "timeout_loop S add show_ip now app1 (outs @ out) = Some (app2, (outs @ out) @ outs2)"
      "now < poll_timeout (app_ssdp app2)" "engine_ok (app_ssdp app2)" "interfaces (app_ssdp app2) = interfaces (app_ssdp app1)"
      "sm_ip_addrs S (app_net app2) = sm_ip_addrs S (app_net app1)" by blast
    then show ?thesis
      using True run keep e by (subst timeout_loop.simps) (auto simp: handle_timeout_keeps)
  qed
qed

section \<open>The interrupt as a whole\<close>

text \<open>smoltcp's work at one moment runs out: each round of \<open>poll\<close> that reports more to do leaves less of it.\<close>

definition poll_ends :: "'n Smoltcp \<Rightarrow> int \<Rightarrow> bool" where
  "poll_ends S now \<longleftrightarrow> (\<exists>work :: 'n \<Rightarrow> nat. \<forall>n n2. snd (sm_poll S now n) \<longrightarrow>
     poll_dhcp S (fst (sm_poll S now n)) = Ret n2 \<longrightarrow> work n2 < work n)"

lemma stack_poll_returns:
  assumes "smoltcp_laws S" and "poll_ends S now" and "stack_ok S n"
  shows "\<exists>n' next_poll. stack_poll S now n = Some (Ret (n', next_poll)) \<and> stack_ok S n'"
proof -
  obtain work :: "'a \<Rightarrow> nat" where "\<And>n n2. snd (sm_poll S now n) \<Longrightarrow> poll_dhcp S (fst (sm_poll S now n)) = Ret n2 \<Longrightarrow> work n2 < work n"
    using assms(2) unfolding poll_ends_def by blast
  from stack_poll_lease [OF assms(1,3), where work = work, OF this] show ?thesis by blast
qed

text \<open>The datagram that an interrupt reads, once the stack has been polled and a new address announced.\<close>

definition interrupt_reads :: "'n Smoltcp \<Rightarrow> (IpAddr \<Rightarrow> str) \<Rightarrow> int \<Rightarrow> ('cb, 'n) SsdpApp \<Rightarrow> u8 list \<Rightarrow> bool" where
  "interrupt_reads S show_ip now app bytes \<longleftrightarrow>
     (\<exists>n next_poll app1 out1 n2 endpoint. stack_poll S now (app_net app) = Some (Ret (n, next_poll)) \<and>
        ipv4_addr S n \<noteq> None \<and>
        announce_address S show_ip now (ipv4_addr S (app_net app)) (ipv4_addr S n) (app\<lparr>app_net := n\<rparr>) = (app1, out1) \<and>
        sm_udp_recv S (app_net app1) = (n2, Some (bytes, endpoint)))"

lemma network_events_total:
  assumes "smoltcp_laws S" and "poll_ends S now" and "engine_ok (app_ssdp app)" and "stack_ok S (app_net app)"
  shows "(network_events S add show_ip now app = Some Panic \<and> (\<exists>bytes st. interrupt_reads S show_ip now app bytes \<and> parse bytes = Ok (Search st 0))) \<or>
    (\<exists>app' outs next_poll. network_events S add show_ip now app = Some (Ret (app', outs, next_poll)) \<and>
      engine_ok (app_ssdp app') \<and> stack_ok S (app_net app') \<and>
      \<not> (\<exists>bytes st. interrupt_reads S show_ip now app bytes \<and> parse bytes = Ok (Search st 0)))"
proof -
  obtain n next_poll where n: "stack_poll S now (app_net app) = Some (Ret (n, next_poll))" "stack_ok S n"
    using stack_poll_returns [OF assms(1,2,4)] by blast
  obtain app1 out1 where a: "announce_address S show_ip now (ipv4_addr S (app_net app)) (ipv4_addr S n) (app\<lparr>app_net := n\<rparr>) = (app1, out1)"
    by fastforce
  then have app1: "engine_ok (app_ssdp app1)" "stack_ok S (app_net app1)"
    using announce_keeps [OF assms(1) _ a] assms(3) n(2) by (simp_all add: stack_ok_def)
  have reads: "interrupt_reads S show_ip now app bytes \<longleftrightarrow> ipv4_addr S n \<noteq> None \<and>
      (\<exists>n2 endpoint. sm_udp_recv S (app_net app1) = (n2, Some (bytes, endpoint)))" for bytes
    using n a by (simp add: interrupt_reads_def)
  show ?thesis
  proof (cases "receive_datagram S add now (ipv4_addr S n) app1")
    case (Ret r)
    obtain app2 out2 where r: "r = (app2, out2)" by fastforce
    have "receive_datagram S add now (ipv4_addr S n) app1 \<noteq> Panic" using Ret by simp
    then show ?thesis
      using n a Ret r receive_keeps [OF assms(1) app1(1), of add now "ipv4_addr S n" app2 out2] app1
      unfolding receive_Panic_iff reads by (auto simp: network_events_def stack_ok_def)
  next
    case Panic
    then show ?thesis
      using n a receive_Panic_iff [of S add now "ipv4_addr S n" app1] by (auto simp: network_events_def reads)
  qed
qed

section \<open>Addresses\<close>

text \<open>Whichever program it is, the work on timeouts changes neither the interfaces nor the addresses, and only adds output.\<close>

lemma timeouts_keep:
  assumes "smoltcp_time add sub" and "smoltcp_laws S" and "engine_ok (app_ssdp app1)"
    and "timeout_once S add show_ip now app1 = (app', out) \<or> timeout_loop S add show_ip now app1 [] = Some (app', out)"
  shows "interfaces (app_ssdp app') = interfaces (app_ssdp app1) \<and> sm_ip_addrs S (app_net app') = sm_ip_addrs S (app_net app1)"
  using assms(4)
proof
  assume "timeout_loop S add show_ip now app1 [] = Some (app', out)"
  then show ?thesis using timeout_loop_ends [OF assms(1-3), of show_ip now "[]"] by auto
next
  assume once: "timeout_once S add show_ip now app1 = (app', out)"
  show ?thesis
  proof (cases "poll_timeout (app_ssdp app1) \<le> now")
    case True
    then have run: "run_timeout S add show_ip now app1 = (app', out)" using once by (simp add: timeout_once_def)
    then show ?thesis
      using run_timeout_keeps [OF assms(2,3) run] run_timeout_ssdp(1) [of S add show_ip now app1] by (simp add: handle_timeout_keeps)
  next
    case False
    then show ?thesis using once by (simp add: timeout_once_def)
  qed
qed

text \<open>A handler that returns has gone through the shared steps and then the timeouts.\<close>

definition handled ::
    "'n Smoltcp \<Rightarrow> (int \<Rightarrow> nat \<Rightarrow> int) \<Rightarrow> (int \<Rightarrow> int \<Rightarrow> int) \<Rightarrow> (IpAddr \<Rightarrow> str) \<Rightarrow> int \<Rightarrow> ('cb, 'n) SsdpApp \<Rightarrow>
       ('cb, 'n) SsdpApp \<Rightarrow> 'cb Output list \<Rightarrow> int \<Rightarrow> bool" where
  "handled S add sub show_ip now app app' outs wake \<longleftrightarrow>
     stm32_eth_interrupt S add sub show_ip now app = Some (Ret (app', outs, wake)) \<or>
     rp2040_eth_interrupt S add sub show_ip now app = Some (Ret (app', outs, wake))"

lemma handled_steps:
  assumes "handled S add sub show_ip now app app' outs wake"
  obtains n next_poll app1 out1 app2 out2 out3 where
    "stack_poll S now (app_net app) = Some (Ret (n, next_poll))"
    "announce_address S show_ip now (ipv4_addr S (app_net app)) (ipv4_addr S n) (app\<lparr>app_net := n\<rparr>) = (app1, out1)"
    "receive_datagram S add now (ipv4_addr S n) app1 = Ret (app2, out2)"
    "timeout_once S add show_ip now app2 = (app', out3) \<or> timeout_loop S add show_ip now app2 [] = Some (app', out3)"
    "outs = (out1 @ out2) @ out3" "wake = next_wake sub now next_poll app'"
proof -
  obtain app2 out12 next_poll out3 where ev: "network_events S add show_ip now app = Some (Ret (app2, out12, next_poll))"
    and rest: "timeout_once S add show_ip now app2 = (app', out3) \<or> timeout_loop S add show_ip now app2 [] = Some (app', out3)"
      "outs = out12 @ out3" "wake = next_wake sub now next_poll app'"
    using assms unfolding handled_def stm32_eth_interrupt_def rp2040_eth_interrupt_def
    by (auto split: option.splits outcome.splits prod.splits)
  obtain n app1 out1 out2 where "stack_poll S now (app_net app) = Some (Ret (n, next_poll))"
    "announce_address S show_ip now (ipv4_addr S (app_net app)) (ipv4_addr S n) (app\<lparr>app_net := n\<rparr>) = (app1, out1)"
    "receive_datagram S add now (ipv4_addr S n) app1 = Ret (app2, out2)" "out12 = out1 @ out2"
    using ev by (auto simp: network_events_def Let_def obind_Ret_iff split: option.splits outcome.splits prod.splits)
  with rest show ?thesis using that [of n next_poll app1 out1 app2 out2 out3] by simp
qed

lemma announce_new:
  assumes "announce_address S show_ip now None (Some ip) app = (app', out)"
    and "bt_get 1 (interfaces (app_ssdp app)) = Some v" and "up v"
    and "a = V4 (ipv4_to_std (ipv4_from_wire ip))" and "a \<notin> set (ips v)"
  shows "bt_get 1 (interfaces (app_ssdp app')) = Some (v\<lparr>ips := ips v @ [a]\<rparr>)"
    and "\<And>usn ad. (usn, ad) \<in> set (advertisements (app_ssdp app)) \<Longrightarrow> notify_on show_ip ad usn a \<in> set out"
    and "next_salvo (refresh_timer (app_ssdp app')) = now" and "phase (refresh_timer (app_ssdp app')) = 0"
proof -
  have "is_ipv4 a" by (simp add: assms(4) is_ipv4_def)
  then have ev: "on_new_addr_event show_ip 1 a (app_ssdp app) =
      (app_ssdp app\<lparr>interfaces := bt_modify 1 (\<lambda>v. v\<lparr>ips := ips v @ [a]\<rparr>) (interfaces (app_ssdp app))\<rparr>, out)"
    and e: "app_ssdp app' = reset_refresh_timer now (fst (on_new_addr_event show_ip 1 a (app_ssdp app)))"
    using assms(1-3,5) by (auto simp: announce_address_def assms(4) [symmetric] on_new_addr_event_def Let_def split: prod.splits)
  have out: "out = send_all show_ip (fst (on_new_addr_event show_ip 1 a (app_ssdp app))) [a]"
    using assms(1-3,5) \<open>is_ipv4 a\<close>
    by (auto simp: announce_address_def assms(4) [symmetric] on_new_addr_event_def Let_def split: prod.splits)
  show "bt_get 1 (interfaces (app_ssdp app')) = Some (v\<lparr>ips := ips v @ [a]\<rparr>)"
    using assms(2) by (simp add: e ev reset_refresh_timer_def bt_get_modify)
  show "notify_on show_ip ad usn a \<in> set out" if "(usn, ad) \<in> set (advertisements (app_ssdp app))" for usn ad
    using that by (subst out) (force simp: ev send_all_def)
  show "next_salvo (refresh_timer (app_ssdp app')) = now" "phase (refresh_timer (app_ssdp app')) = 0"
    by (simp_all add: e reset_refresh_timer_def refresh_timer_reset_def)
qed

text \<open>With the schedule at the start of a salvo both forms of the timeouts run once, and the next is 8.55 seconds off at most.\<close>

lemma salvo_starts:
  assumes "smoltcp_time add sub" and "next_salvo (refresh_timer (app_ssdp app)) = now" and "phase (refresh_timer (app_ssdp app)) = 0"
    and "timeout_once S add show_ip now app = (app', out) \<or> timeout_loop S add show_ip now app [] = Some (app', out)"
  shows "now < poll_timeout (app_ssdp app') \<and> poll_timeout (app_ssdp app') \<le> now + 8550000"
proof -
  let ?app1 = "fst (run_timeout S add show_ip now app)"
  have e: "app_ssdp ?app1 = fst (handle_timeout add show_ip now (app_ssdp app))" by (rule run_timeout_ssdp)
  have due: "poll_timeout (app_ssdp app) \<le> now" using assms(2) by (simp add: poll_timeout_le_iff)
  have t: "next_salvo (refresh_timer (app_ssdp ?app1)) \<in> {now + 6000000 .. now + 8550000}"
    using assms(1-3) of_nat_mono [OF random_offset_bound, where 'a = int, of "refresh_timer (app_ssdp app)"] update_due [of "refresh_timer (app_ssdp app)" now add]
    by (simp add: e handle_timeout_keeps smoltcp_time_def)
  then have later: "now < poll_timeout (app_ssdp ?app1)" using timeout_progress(4) [OF assms(1) e] by auto
  obtain app1 out1 where run: "run_timeout S add show_ip now app = (app1, out1)" by fastforce
  have "app' = ?app1"
    using assms(4) due later run by (auto simp: timeout_once_def timeout_loop.simps [of S add show_ip now app] timeout_loop.simps [of S add show_ip now app1])
  then show ?thesis using t later poll_timeout_le_iff [of "app_ssdp ?app1" "now + 8550000"] by auto
qed

text \<open>A search that covers an advertisement with no response outstanding makes one pending.\<close>

lemma on_data_pending:
  assumes "parse buf = Ok (Search st mx)" and "(usn, ad) \<in> set (advertisements e)"
    and "target_match st (ad_notification_type (advertisement ad))" and "response_needed ad = ResponseNone"
    and "on_data add buf wasto wasfrom now e = Ret (e', out)"
  shows "\<exists>d \<in> {10..5009}. add now d \<in> pending e'"
proof -
  let ?d = "unat (random_seed e) mod max_delay_ms mx + 10"
  let ?f = "schedule_response (add now ?d) st wasto wasfrom"
  have mx: "max_delay_ms mx \<noteq> 0" and e': "advertisements e' = bt_map (\<lambda>_. ?f) (advertisements e)"
    using assms(1,5) by (auto simp: on_data_def Let_def split: if_splits)
  have "unat (random_seed e) mod max_delay_ms mx < max_delay_ms mx" using mx by simp
  then have "?d \<in> {10..5009}" unfolding max_delay_ms_def atLeastAtMost_iff by linarith
  moreover have "(usn, ?f ad) \<in> set (advertisements e')" using assms(2) unfolding e' bt_map_def by force
  moreover have "wake_of (?f ad) = Some (add now ?d)" using assms(3,4) by (simp add: schedule_response_def wake_of_def)
  ultimately show ?thesis unfolding pending_def by blast
qed

text \<open>And whatever a search adds to what is pending is due within 5.009 seconds.\<close>

lemma schedule_response_wake: "wake_of (schedule_response i st wasto wasfrom val) \<in> {wake_of val, Some i}"
  by (simp add: schedule_response_def wake_of_def split: ResponseNeeded.splits)

lemma search_pending_within:
  assumes "parse buf = Ok (Search st mx)" and "on_data add buf wasto wasfrom now e = Ret (e', out)" and "i \<in> pending e' - pending e"
  shows "\<exists>d \<le> 5009. i = add now d"
proof -
  let ?d = "unat (random_seed e) mod max_delay_ms mx + 10"
  let ?f = "schedule_response (add now ?d) st wasto wasfrom"
  have mx: "max_delay_ms mx \<noteq> 0" and e': "advertisements e' = bt_map (\<lambda>_. ?f) (advertisements e)"
    using assms(1,2) by (auto simp: on_data_def Let_def split: if_splits)
  have "unat (random_seed e) mod max_delay_ms mx < max_delay_ms mx" using mx by simp
  then have "?d \<le> 5009" unfolding max_delay_ms_def by linarith
  moreover obtain k val where "(k, val) \<in> set (advertisements e)" "wake_of (?f val) = Some i"
    using assms(3) by (auto simp: pending_def e' bt_map_def)
  moreover from this have "wake_of val \<noteq> Some i" using assms(3) by (auto simp: pending_def)
  ultimately have "?d \<le> 5009" "i = add now ?d" using schedule_response_wake [of "add now ?d" st wasto wasfrom val] by auto
  then show ?thesis by blast
qed

text \<open>What is pending for later is left alone by the timeouts.\<close>

lemma timeouts_pending:
  assumes "smoltcp_time add sub" and "smoltcp_laws S" and "engine_ok (app_ssdp app1)"
    and "timeout_once S add show_ip now app1 = (app', out)" and "i \<in> pending (app_ssdp app1)" and "now < i"
  shows "i \<in> pending (app_ssdp app')"
proof (cases "poll_timeout (app_ssdp app1) \<le> now")
  case True
  then have "run_timeout S add show_ip now app1 = (app', out)" using assms(4) by (simp add: timeout_once_def)
  then have "app_ssdp app' = fst (handle_timeout add show_ip now (app_ssdp app1))"
    using run_timeout_ssdp(1) [of S add show_ip now app1] by simp
  then show ?thesis using assms(5,6) by (simp add: pending_timeout)
next
  case False
  then show ?thesis using assms(4,5) by (simp add: timeout_once_def)
qed

text \<open>What an interrupt makes of the address.\<close>

lemma interrupt_address:
  assumes "smoltcp_time add sub" and "smoltcp_laws S" and "engine_ok (app_ssdp app)"
    and "handled S add sub show_ip now app app' outs wake"
    and "ipv4_addr S (app_net app') = Some ip" and "a = V4 (ipv4_to_std (ipv4_from_wire ip))"
    and "bt_get 1 (interfaces (app_ssdp app)) = Some v" and "up v"
  shows "ipv4_addr S (app_net app) = None \<Longrightarrow> a \<notin> set (ips v) \<Longrightarrow>
      bt_get 1 (interfaces (app_ssdp app')) = Some (v\<lparr>ips := ips v @ [a]\<rparr>) \<and> wake \<le> 8550000 \<and>
      (\<forall>usn ad loc. (usn, ad) \<in> set (advertisements (app_ssdp app)) \<longrightarrow>
        loc = rewrite_host show_ip (ad_location (advertisement ad)) a \<longrightarrow>
        clean (ad_notification_type (advertisement ad)) \<longrightarrow> clean usn \<longrightarrow> clean loc \<longrightarrow>
        fits (notify_pieces (ad_notification_type (advertisement ad)) usn loc) \<longrightarrow>
        (\<exists>out\<in>set outs. says out ssdp_group a (NotifyAlive (ad_notification_type (advertisement ad)) usn loc)))"
    and "ipv4_addr S (app_net app) \<noteq> None \<Longrightarrow> interfaces (app_ssdp app') = interfaces (app_ssdp app)"
proof -
  obtain n next_poll app1 out1 app2 out2 out3 where
    n: "stack_poll S now (app_net app) = Some (Ret (n, next_poll))"
    and a: "announce_address S show_ip now (ipv4_addr S (app_net app)) (ipv4_addr S n) (app\<lparr>app_net := n\<rparr>) = (app1, out1)"
    and r: "receive_datagram S add now (ipv4_addr S n) app1 = Ret (app2, out2)"
    and t: "timeout_once S add show_ip now app2 = (app', out3) \<or> timeout_loop S add show_ip now app2 [] = Some (app', out3)"
    and outs: "outs = (out1 @ out2) @ out3" "wake = next_wake sub now next_poll app'"
    using handled_steps [OF assms(4)] by blast
  have app1: "engine_ok (app_ssdp app1)" "sm_ip_addrs S (app_net app1) = sm_ip_addrs S n"
    using announce_keeps [OF assms(2) _ a] assms(3) by simp_all
  note app2 = receive_keeps [OF assms(2) app1(1) r]
  note app' = timeouts_keep [OF assms(1,2) app2 [THEN conjunct1] t]
  have ip: "ipv4_addr S n = Some ip" using assms(5) app1(2) app2 app' by (simp add: ipv4_addr_def)
  { assume old: "ipv4_addr S (app_net app) = None" and fresh: "a \<notin> set (ips v)"
    note new = announce_new [OF a [unfolded old ip] _ assms(8) assms(6) fresh, simplified, OF assms(7)]
    have "wake \<le> 8550000"
      using salvo_starts [OF assms(1) _ _ t] new(3,4) app2 assms(1)
      by (auto simp: outs(2) next_wake_def smoltcp_time_def Let_def split: option.splits)
    moreover have "bt_get 1 (interfaces (app_ssdp app')) = Some (v\<lparr>ips := ips v @ [a]\<rparr>)" using new(1) app2 app' by simp
    moreover have "\<exists>out\<in>set outs. says out ssdp_group a (NotifyAlive (ad_notification_type (advertisement ad)) usn loc)"
      if "(usn, ad) \<in> set (advertisements (app_ssdp app))" "loc = rewrite_host show_ip (ad_location (advertisement ad)) a"
        "clean (ad_notification_type (advertisement ad))" "clean usn" "clean loc"
        "fits (notify_pieces (ad_notification_type (advertisement ad)) usn loc)" for usn ad loc
      using new(2) [OF that(1)] notify_on_says [OF that(3,4) that(5,6) [unfolded that(2)]] that(2) by (auto simp: outs(1))
    ultimately show "bt_get 1 (interfaces (app_ssdp app')) = Some (v\<lparr>ips := ips v @ [a]\<rparr>) \<and> wake \<le> 8550000 \<and>
      (\<forall>usn ad loc. (usn, ad) \<in> set (advertisements (app_ssdp app)) \<longrightarrow>
        loc = rewrite_host show_ip (ad_location (advertisement ad)) a \<longrightarrow>
        clean (ad_notification_type (advertisement ad)) \<longrightarrow> clean usn \<longrightarrow> clean loc \<longrightarrow>
        fits (notify_pieces (ad_notification_type (advertisement ad)) usn loc) \<longrightarrow>
        (\<exists>out\<in>set outs. says out ssdp_group a (NotifyAlive (ad_notification_type (advertisement ad)) usn loc)))" by blast }
  { assume "ipv4_addr S (app_net app) \<noteq> None"
    then show "interfaces (app_ssdp app') = interfaces (app_ssdp app)" using a app2 app' by (auto simp: announce_address_def) }
qed

section \<open>Properties\<close>




text \<open>A device that gets its first lease, with interface 1 up and nothing to announce yet.\<close>

definition device_example :: "(unit, ScriptedNet) SsdpApp" where
  "device_example = \<lparr>app_net = net_example [Some (Configured lease_example)],
     app_ssdp = (engine_new 7 0)\<lparr>interfaces := [(1, \<lparr>ips = [], up = True\<rparr>)]\<rparr>\<rparr>"


text \<open>C38: a device that is asleep for long answers a search late. RTIC refuses to schedule a task that is
scheduled already, and the handler ignores the refusal: when a search arrives that covers an
advertisement, a response is due 5.009 seconds later at most, but the task that is to send it stays
scheduled for the moment \<open>t\<close> it was scheduled for before, which in the pause between two salvos is
minutes away.\<close>

theorem search_wake_lost:
  assumes "\<And>t t'. spawn (Some t) t' = Some t" and "smoltcp_time add sub" and "smoltcp_laws S" and "engine_ok (app_ssdp app)"
    and "rtic_eth_task spawn (stm32_eth_interrupt S add sub show_ip) now (app, Some t) = Some (Ret (app', scheduled, outs))"
    and "ipv4_addr S (app_net app) \<noteq> None" and "interrupt_reads S show_ip now app bytes" and "parse bytes = Ok (Search st mx)"
    and "(usn, ad) \<in> set (advertisements (app_ssdp app))" and "response_needed ad = ResponseNone"
    and "target_match st (ad_notification_type (advertisement ad))"
  shows "scheduled = Some t \<and> poll_timeout (app_ssdp app') \<le> now + 5009000"
proof -
  obtain wake where h: "stm32_eth_interrupt S add sub show_ip now app = Some (Ret (app', outs, wake))" and "scheduled = Some t"
    using assms(1,5) by (auto simp: rtic_eth_task_def split: option.splits outcome.splits)
  then obtain app1 out1 next_poll out2 where ev: "network_events S add show_ip now app = Some (Ret (app1, out1, next_poll))"
    and once: "timeout_once S add show_ip now app1 = (app', out2)"
    by (auto simp: stm32_eth_interrupt_def split: option.splits outcome.splits prod.splits)
  obtain n np w n2 endpoint where n: "stack_poll S now (app_net app) = Some (Ret (n, np))" "ipv4_addr S n = Some w"
    "sm_udp_recv S n = (n2, Some (bytes, endpoint))"
    using assms(6,7) by (auto simp: interrupt_reads_def announce_address_def)
  let ?data = "on_data add bytes (ip_to_std (ip_from_wire (Ipv4 w))) (socket_to_std (socket_from_wire endpoint)) now (app_ssdp app)"
  obtain old where "ipv4_addr S (app_net app) = Some old" using assms(6) by blast
  then have "\<exists>out. ?data = Ret (app_ssdp app1, out)"
    using ev n by (auto simp: network_events_def announce_address_def receive_datagram_def obind_Ret_iff)
  then obtain out where data: "?data = Ret (app_ssdp app1, out)" by blast
  have ok: "engine_ok (app_ssdp app1)" by (rule engine_ok_data [OF assms(4) data])
  from on_data_pending [OF assms(8,9,11,10) data] obtain d where "d \<in> {10..5009}" "add now d \<in> pending (app_ssdp app1)" by blast
  moreover from this have "add now d \<in> pending (app_ssdp app')"
    using timeouts_pending [OF assms(2,3) ok once] assms(2) by (simp add: smoltcp_time_def)
  ultimately have "poll_timeout (app_ssdp app') \<le> now + 5009000"
    using assms(2) by (auto simp: poll_timeout_le_iff smoltcp_time_def intro!: bexI [of _ "now + 1000 * int d"])
  with \<open>scheduled = Some t\<close> show ?thesis by simp
qed

text \<open>A device in the pause between two salvos that receives a search for everything.\<close>

definition asleep_example :: "(unit, ScriptedNet) SsdpApp" where
  "asleep_example = \<lparr>app_net = \<lparr>sn_events = [], sn_addrs = [dhcp_address lease_example], sn_route = None,
       sn_received = [(as_bytes (concat (search_pieces (lit ''ssdp:all''))),
         \<lparr>ep_addr = Ipv4 (Ipv4Address [192, 168, 0, 9]), ep_port = 1900\<rparr>)], sn_sent = []\<rparr>,
     app_ssdp = (engine_new 7 830000000)\<lparr>advertisements :=
       [(lit ''uuid:37'', \<lparr>advertisement = \<lparr>ad_notification_type = lit ''fnord'', ad_location = lit ''/''\<rparr>, response_needed = ResponseNone\<rparr>)]\<rparr>\<rparr>"

theorem search_wake_lost_witness:
  "\<exists>app' outs. rtic_eth_task (\<lambda>s t. case s of None \<Rightarrow> Some t | Some u \<Rightarrow> Some u)
      (stm32_eth_interrupt scripted_net (\<lambda>t m. t + 1000 * int m) (\<lambda>a b. \<bar>a - b\<bar>) (\<lambda>_. [])) 30000000
      (asleep_example, Some 830000000) = Some (Ret (app', Some 830000000, outs)) \<and>
    poll_timeout (app_ssdp app') \<le> 35009000"
proof -
  let ?add = "\<lambda>t m. t + 1000 * int m" and ?sub = "\<lambda>a b :: int. \<bar>a - b\<bar>"
  let ?bytes = "as_bytes (concat (search_pieces (lit ''ssdp:all'')))" and ?S = scripted_net
  let ?ad = "\<lparr>advertisement = \<lparr>ad_notification_type = lit ''fnord'', ad_location = lit ''/''\<rparr>, response_needed = ResponseNone\<rparr>"
  let ?spawn = "\<lambda>s t. case s of None \<Rightarrow> Some t | Some u \<Rightarrow> Some (u :: int)"
  have "clean (lit ''ssdp:all'')" by (simp only: clean_lit) (simp add: lit_def trim_def is_whitespace_def)
  then have p: "parse ?bytes = Ok (Search (lit ''ssdp:all'') 5)" by (rule parse_packets(4) [OF _ clean_Nil clean_Nil])
  have n: "stack_poll ?S 30000000 (app_net asleep_example) = Some (Ret (app_net asleep_example, None))"
    by (simp add: stack_poll.simps asleep_example_def scripted_net_def)
  have ip: "ipv4_addr ?S (app_net asleep_example) = Some (Ipv4Address [192, 168, 0, 4])"
    by (simp add: ipv4_addr_def asleep_example_def scripted_net_def lease_example_def)
  have recv: "\<exists>n2 endpoint. sm_udp_recv ?S (app_net asleep_example) = (n2, Some (?bytes, endpoint))"
    by (simp add: asleep_example_def scripted_net_def)
  have reads: "interrupt_reads ?S (\<lambda>_. []) 30000000 asleep_example ?bytes"
    using n ip recv by (simp add: interrupt_reads_def announce_address_def)
  have ok: "engine_ok (app_ssdp asleep_example)" and ad: "(lit ''uuid:37'', ?ad) \<in> set (advertisements (app_ssdp asleep_example))"
    by (simp_all add: engine_ok_def asleep_example_def engine_new_def timer_ok_new bt_get_def bt_wf_def)
  have "receive_datagram ?S ?add 30000000 (Some (Ipv4Address [192, 168, 0, 4])) asleep_example \<noteq> Panic"
    using recv p by (auto simp: receive_Panic_iff)
  then obtain app1 out1 where r: "receive_datagram ?S ?add 30000000 (Some (Ipv4Address [192, 168, 0, 4])) asleep_example = Ret (app1, out1)"
    by (cases "receive_datagram ?S ?add 30000000 (Some (Ipv4Address [192, 168, 0, 4])) asleep_example") auto
  obtain app' out2 where "timeout_once ?S ?add (\<lambda>_. []) 30000000 app1 = (app', out2)" by fastforce
  then have "\<exists>s. rtic_eth_task ?spawn (stm32_eth_interrupt ?S ?add ?sub (\<lambda>_. [])) 30000000 (asleep_example, Some 830000000) =
      Some (Ret (app', s, out1 @ out2))"
    using n ip r by (simp add: rtic_eth_task_def stm32_eth_interrupt_def network_events_def announce_address_def)
  then obtain s where task: "rtic_eth_task ?spawn (stm32_eth_interrupt ?S ?add ?sub (\<lambda>_. [])) 30000000
      (asleep_example, Some 830000000) = Some (Ret (app', s, out1 @ out2))" by blast
  have "s = Some 830000000 \<and> poll_timeout (app_ssdp app') \<le> 30000000 + 5009000"
    by (rule search_wake_lost [OF _ _ scripted_net_laws ok task _ reads p ad])
      (simp_all add: smoltcp_time_def ip target_match_def)
  with task show ?thesis by auto
qed

end
