(* ===== verification/Ssdp_Embassy.thy ===== *)
theory Ssdp_Embassy
  imports Ssdp_Device
begin

text \<open>
  \<open>cross/stm32f746-nucleo-embassy/src/bin/stm32f746-ssdp-embassy.rs\<close>: the SSDP engine on Embassy. Embassy
  is not part of the repository: what its network stack returns for a call is a parameter or an
  argument. Moments and durations are numbers of ticks of its clock.
\<close>

section \<open>Time\<close>

text \<open>The rate of the clock, which the feature \<open>tick-hz-32_768\<close> of the program's manifest selects.\<close>

definition TICK_HZ :: nat where "TICK_HZ = 32768"

text \<open>\<open>EmbassyDuration::from\<close>, given the milliseconds of a duration: so many ticks.\<close>

definition embassy_duration :: "nat \<Rightarrow> nat" where
  "embassy_duration millis = millis mod 2 ^ 64"

text \<open>\<open>Instant += EmbassyDuration\<close>.\<close>

definition embassy_add :: "nat \<Rightarrow> nat \<Rightarrow> nat" where
  "embassy_add t millis = t + embassy_duration millis"

section \<open>Sockets\<close>

definition embassy_join_multicast_group ::
    "(IpAddress \<Rightarrow> (nat, bool) result) \<Rightarrow> IpAddr \<Rightarrow> InterfaceIndex \<Rightarrow> (UdpError, unit) result" where
  "embassy_join_multicast_group stack_join a ix =
     (case stack_join (ip_to_wire (GenericIpAddress a)) of
        Inl e \<Rightarrow> Err (SmoltcpMulticast JoinMulticast e)
      | Inr _ \<Rightarrow> Ok ())"

text \<open>Leaving a group is not written: a \<open>todo!()\<close>.\<close>

definition embassy_leave_multicast_group :: "IpAddr \<Rightarrow> InterfaceIndex \<Rightarrow> (UdpError, unit) result outcome" where
  "embassy_leave_multicast_group a ix = Panic"

definition EMBASSY_BUFFER :: nat where "EMBASSY_BUFFER = 1520"

text \<open>The slice \<open>buf[0..size]\<close> panics when the packet claims to be longer than the buffer.\<close>

definition embassy_send_with ::
    "(u8 list \<Rightarrow> IpEndpoint \<Rightarrow> (nat, unit) result) \<Rightarrow> nat \<Rightarrow> SocketAddr \<Rightarrow> IpAddr \<Rightarrow> (u8 list \<Rightarrow> u8 list \<times> nat) \<Rightarrow>
       (UdpError, unit) result outcome" where
  "embassy_send_with send_to sz dst src f =
     (if sz > EMBASSY_BUFFER then Ret (Err NotImplemented)
      else
        let (buf, n) = f (replicate EMBASSY_BUFFER 0) in
        if n > length buf then Panic
        else Ret (case send_to (take n buf) (socket_to_wire (GenericSocketAddr dst)) of
                    Inl _ \<Rightarrow> Err NotImplemented
                  | Inr _ \<Rightarrow> Ok ()))"

section \<open>The program\<close>

definition embassy_start ::
    "(IpAddress \<Rightarrow> (nat, bool) result) \<Rightarrow> 'h SipHasher \<Rightarrow> (u8 list \<Rightarrow> 'uuid) \<Rightarrow> ('uuid \<Rightarrow> str) \<Rightarrow> (IpAddr \<Rightarrow> str) \<Rightarrow>
       ('cb ActiveSearch list \<Rightarrow> 'cb ActiveSearch \<Rightarrow> 'cb ActiveSearch list) \<Rightarrow> u8 list \<Rightarrow> u64 \<Rightarrow> 'cb \<Rightarrow>
       Ipv4Address option \<Rightarrow> nat \<Rightarrow> ('cb, nat) Engine \<times> 'cb Output list" where
  "embassy_start stack_join hasher new_v8 show_uuid show_ip ins chip seed listener config now =
     (let unique = unique_chip_id chip;
        e0 = engine_new (ucast seed) now;
        ev = NewLink 1 [] (flags_or (flags_or UP RUNNING) MULTICAST);
        (e1, r, out1) = on_network_event show_ip
          (\<lambda>ix joining. embassy_join_multicast_group stack_join (fst ssdp_group) ix) ev e0;
        (e2, out2) = (case config of
            Some ip \<Rightarrow> on_new_addr_event show_ip 1 (V4 (ipv4_to_std (ipv4_from_wire ip))) e1
          | None \<Rightarrow> (e1, []));
        (e3, out3) = subscribe ins (lit ''cotton-test-server-stm32f746'') listener e2;
        (e4, out4) = advertise show_ip (show_uuid (uuid new_v8 hasher unique (byte_lit ''upnp'')))
          \<lparr>ad_notification_type = lit ''stm32f746-nucleo-test'', ad_location = lit ''http://127.0.0.1/''\<rparr> e3
      in (e4, out1 @ out2 @ out3 @ out4))"

text \<open>
  One round of the main loop: \<open>received\<close> is what the receive call came back with, or \<open>None\<close> when the
  deadline, which is the engine's \<open>poll_timeout\<close>, passed or the call failed.
\<close>

definition embassy_round ::
    "(IpAddr \<Rightarrow> str) \<Rightarrow> nat \<Rightarrow> Ipv4Address option \<Rightarrow> (u8 list \<times> IpEndpoint) option \<Rightarrow> ('cb, nat) Engine \<Rightarrow>
       (('cb, nat) Engine \<times> 'cb Output list) outcome" where
  "embassy_round show_ip now config received e =
     (case received of
        Some (bytes, wasfrom) \<Rightarrow>
          (case config of
             Some wasto \<Rightarrow>
               on_data embassy_add bytes (ip_to_std (ip_from_wire (Ipv4 wasto)))
                 (socket_to_std (socket_from_wire wasfrom)) now e
           | None \<Rightarrow> Ret (e, []))
      | None \<Rightarrow> Ret (handle_timeout embassy_add show_ip now e))"

fun embassy_rounds ::
    "(IpAddr \<Rightarrow> str) \<Rightarrow> (nat \<times> Ipv4Address option \<times> (u8 list \<times> IpEndpoint) option) list \<Rightarrow> ('cb, nat) Engine \<Rightarrow>
       (('cb, nat) Engine \<times> 'cb Output list) outcome" where
  "embassy_rounds show_ip [] e = Ret (e, [])"
| "embassy_rounds show_ip ((now, config, received) # rounds) e =
     obind (embassy_round show_ip now config received e) (\<lambda>(e1, out1).
     obind (embassy_rounds show_ip rounds e1) (\<lambda>(e2, out2).
     Ret (e2, out1 @ out2)))"

section \<open>Lemmas\<close>

text \<open>A packet that fits is sent with the bytes of the engine's output, though it is built in a larger buffer.\<close>

lemma embassy_sends_datagram:
  assumes "fits ps"
  shows "\<exists>d. send_with MAX_PACKET_SIZE dst src (\<lambda>b. build b ps) = (Sent d :: 'cb Output) \<and> dg_to d = dst \<and>
    embassy_send_with send_to MAX_PACKET_SIZE dst src (\<lambda>b. build b ps) =
      Ret (case send_to (dg_bytes d) (socket_to_wire (GenericSocketAddr dst)) of Inl _ \<Rightarrow> Err NotImplemented | Inr _ \<Rightarrow> Ok ())"
proof -
  have "MAX_PACKET_SIZE \<le> EMBASSY_BUFFER" by (simp add: MAX_PACKET_SIZE_def EMBASSY_BUFFER_def)
  then have "take (snd (build (replicate k 0) ps)) (fst (build (replicate k 0) ps)) = as_bytes (concat ps)"
    if "k = MAX_PACKET_SIZE \<or> k = EMBASSY_BUFFER" for k
    using build_fits [of ps "replicate k 0"] assms that by (auto simp: fits_def)
  moreover have "\<not> snd (build (replicate EMBASSY_BUFFER 0) ps) > length (fst (build (replicate EMBASSY_BUFFER 0) ps))"
    using builders_fit [of "replicate EMBASSY_BUFFER 0" ps] by simp
  ultimately show ?thesis
    using \<open>MAX_PACKET_SIZE \<le> EMBASSY_BUFFER\<close> by (simp add: send_with_def embassy_send_with_def split_beta)
qed

text \<open>A round with a datagram handles no timeout: while datagrams keep coming, the schedule stands still and nothing is sent.\<close>

lemma call_subscribers_no_sends: "Sent d \<notin> set (call_subscribers e n)"
  by (auto simp: call_subscribers_def)

lemma on_data_no_sends: "on_data add buf wasto wasfrom now e = Ret (e', out) \<Longrightarrow> Sent d \<notin> set out"
  by (auto simp: on_data_def Let_def call_subscribers_no_sends split: sum.splits Message.splits if_splits)

lemma embassy_flood:
  assumes "embassy_rounds show_ip rounds e = Ret (e', outs)" and "\<forall>(now, config, received)\<in>set rounds. received \<noteq> None"
  shows "refresh_timer e' = refresh_timer e \<and> interfaces e' = interfaces e \<and> (\<forall>d. Sent d \<notin> set outs)"
  using assms
proof (induction show_ip rounds e arbitrary: e' outs rule: embassy_rounds.induct)
  case (2 show_ip now config received rounds e)
  from "2.prems" obtain e1 out1 out2 where r: "embassy_round show_ip now config received e = Ret (e1, out1)"
    "embassy_rounds show_ip rounds e1 = Ret (e', out2)" "outs = out1 @ out2" by (auto simp: obind_Ret_iff)
  from "2.prems"(2) obtain bytes wasfrom where "received = Some (bytes, wasfrom)" by auto
  with r(1) have "refresh_timer e1 = refresh_timer e \<and> interfaces e1 = interfaces e \<and> (\<forall>d. Sent d \<notin> set out1)"
    by (auto simp: embassy_round_def on_data_keeps on_data_no_sends split: option.splits)
  with "2.IH" [OF r(2)] "2.prems"(2) r(3) show ?case by auto
qed simp

text \<open>The loop panics on a search with a maximum wait of 0, in whatever state, and on nothing else.\<close>

lemma embassy_round_Panic:
  "embassy_round show_ip now config received e = Panic \<longleftrightarrow>
     (\<exists>bytes wasfrom st. received = Some (bytes, wasfrom) \<and> config \<noteq> None \<and> parse bytes = Ok (Search st 0))"
  by (auto simp: embassy_round_def on_data_Panic split: option.splits)

section \<open>Properties\<close>

text \<open>C37: the Embassy program takes milliseconds for ticks: at the clock rate its manifest selects, the
transmissions of a salvo are 183 to 260 milliseconds apart instead of 6 to 8.55 seconds, and the pause
after a salvo is less than 25 seconds instead of 800; an answer to a search is due within 153
milliseconds of it, however long the searcher is prepared to wait.\<close>

theorem embassy_schedule:
  assumes "next_salvo t \<le> now" and "gap = next_salvo (update_refresh embassy_add t now) - next_salvo t"
    and "parse buf = Ok (Search st mx)" and "on_data embassy_add buf wasto wasfrom now e = Ret (e', out)"
  shows "(phase t \<noteq> 3 \<longrightarrow> gap * 1000 div TICK_HZ \<in> {183..260}) \<and>
    (phase t = 3 \<longrightarrow> gap * 1000 div TICK_HZ \<in> {24414..24491}) \<and>
    (\<forall>i\<in>pending e' - pending e. (i - now) * 1000 div TICK_HZ \<le> 152)"
proof -
  have o: "unat (random_offset t) \<le> 2550" by (rule random_offset_bound)
  then have "gap = (if phase t = 3 then 800000 else 6000) + unat (random_offset t)"
    using update_due [OF assms(1), of embassy_add] assms(2) by (simp add: embassy_add_def embassy_duration_def)
  with o have "(phase t \<noteq> 3 \<longrightarrow> gap * 1000 div TICK_HZ \<in> {183..260}) \<and> (phase t = 3 \<longrightarrow> gap * 1000 div TICK_HZ \<in> {24414..24491})"
    by (auto simp: TICK_HZ_def)
  moreover have "(i - now) * 1000 div TICK_HZ \<le> 152" if new: "i \<in> pending e' - pending e" for i
  proof -
    obtain d where "i = embassy_add now d" "d \<le> 5009" using search_pending_within [OF assms(3,4) new] by blast
    then show ?thesis by (simp add: embassy_add_def embassy_duration_def TICK_HZ_def)
  qed
  ultimately show ?thesis by blast
qed

theorem embassy_schedule_witness:
  "(next_salvo (update_refresh embassy_add (refresh_timer_new 0x12345678 100) 100) - 100) * 1000 div TICK_HZ \<in> {183..260}"
proof -
  have "clean (lit ''ssdp:all'')" by (simp only: clean_lit) (simp add: lit_def trim_def is_whitespace_def)
  then have p: "parse (as_bytes (concat (search_pieces (lit ''ssdp:all'')))) = Ok (Search (lit ''ssdp:all'') 5)"
    by (rule parse_packets(4) [OF _ clean_Nil clean_Nil])
  obtain e' out where d: "on_data embassy_add (as_bytes (concat (search_pieces (lit ''ssdp:all'')))) (V4 1) (V4 9, 1900) 100 example_engine = Ret (e', out)"
    using on_data_Panic [of embassy_add _ "V4 1" "(V4 9, 1900)" 100 example_engine] p
    by (cases "on_data embassy_add (as_bytes (concat (search_pieces (lit ''ssdp:all'')))) (V4 1) (V4 9, 1900) 100 example_engine") auto
  from embassy_schedule [OF _ refl p d, of "refresh_timer_new 0x12345678 100"] show ?thesis
    by (simp add: refresh_timer_new_def)
qed

end
