(* ===== verification/W5500.thy ===== *)
theory W5500
  imports Prelude
begin

text \<open>
  \<open>cotton-w5500/src/smoltcp.rs\<close>: the W5500 chip as a network device of smoltcp. The chip itself is
  driven by another crate, whose operations are parameters; a token is a record of what it borrows,
  and consuming it runs a function on the part of the buffer it is for.
\<close>

definition BUFFER_SIZE :: nat where "BUFFER_SIZE = 1536"

definition buffer_new :: "u8 list" where "buffer_new = replicate BUFFER_SIZE 0"

text \<open>The operations of the chip that are used: initialisation, interrupts, reading and writing a frame.\<close>

record ('u, 'w) RawDevice =
  initialize_macraw :: "'u \<Rightarrow> u8 list \<Rightarrow> (nat, 'w) result"
  enable_interrupts :: "u8 \<Rightarrow> 'w \<Rightarrow> 'w \<times> (nat, unit) result"
  clear_interrupts :: "'w \<Rightarrow> 'w \<times> (nat, unit) result"
  read_frame :: "u8 list \<Rightarrow> 'w \<Rightarrow> 'w \<times> u8 list \<times> (nat, nat) result"
  write_frame :: "u8 list \<Rightarrow> 'w \<Rightarrow> 'w \<times> (nat, nat) result"

record 'w Device =
  w5500 :: 'w
  rx :: "u8 list"
  tx :: "u8 list"

definition device_new :: "('u, 'w) RawDevice \<Rightarrow> 'u \<Rightarrow> u8 list \<Rightarrow> 'w Device outcome" where
  "device_new R spi mac_address =
     (case initialize_macraw R spi mac_address of
        Inl _ \<Rightarrow> Panic
      | Inr w \<Rightarrow> Ret \<lparr>w5500 = w, rx = buffer_new, tx = buffer_new\<rparr>)"

definition enable_interrupt :: "('u, 'w) RawDevice \<Rightarrow> 'w Device \<Rightarrow> 'w Device" where
  "enable_interrupt R d = d\<lparr>w5500 := fst (enable_interrupts R 4 (w5500 d))\<rparr>"

definition clear_interrupt :: "('u, 'w) RawDevice \<Rightarrow> 'w Device \<Rightarrow> 'w Device" where
  "clear_interrupt R d = d\<lparr>w5500 := fst (clear_interrupts R (w5500 d))\<rparr>"

record EthRxToken = rx_count :: nat

text \<open>A token to send borrows the chip and the buffer, so it is the device itself; each frame received comes with one.\<close>

definition device_receive :: "('u, 'w) RawDevice \<Rightarrow> 'w Device \<Rightarrow> 'w Device \<times> EthRxToken option" where
  "device_receive R d =
     (case read_frame R (rx d) (w5500 d) of
        (w, buf, r) \<Rightarrow>
          (d\<lparr>w5500 := w, rx := buf\<rparr>,
           case r of Inr n \<Rightarrow> if n > 0 then Some \<lparr>rx_count = n\<rparr> else None | Inl _ \<Rightarrow> None))"

text \<open>Sending is always possible, since one token at a time can exist.\<close>

definition device_transmit :: "'w Device \<Rightarrow> 'w Device option" where
  "device_transmit d = Some d"

record Capabilities =
  max_transmission_unit :: nat
  max_burst_size :: "nat option"

definition capabilities :: Capabilities where
  "capabilities = \<lparr>max_transmission_unit = 1536, max_burst_size = Some 1\<rparr>"

text \<open>A consumer may change the bytes it is given, and returns something.\<close>

definition rx_consume :: "EthRxToken \<Rightarrow> (u8 list \<Rightarrow> u8 list \<times> 'r) \<Rightarrow> 'w Device \<Rightarrow> ('w Device \<times> 'r) outcome" where
  "rx_consume t f d =
     obind (slice (rx d) 0 (rx_count t)) (\<lambda>bytes.
     case f bytes of (bytes', result) \<Rightarrow> Ret (d\<lparr>rx := overwrite (rx d) 0 bytes'\<rparr>, result))"

definition tx_consume ::
    "('u, 'w) RawDevice \<Rightarrow> nat \<Rightarrow> (u8 list \<Rightarrow> u8 list \<times> 'r) \<Rightarrow> 'w Device \<Rightarrow> ('w Device \<times> 'r) outcome" where
  "tx_consume R len f d =
     obind (slice (tx d) 0 len) (\<lambda>bytes.
     case f bytes of (bytes', result) \<Rightarrow>
       let buf = overwrite (tx d) 0 bytes' in
       obind (slice buf 0 len) (\<lambda>frame.
       Ret (d\<lparr>tx := buf, w5500 := fst (write_frame R frame (w5500 d))\<rparr>, result)))"

section \<open>Properties\<close>

definition device_ok :: "'w Device \<Rightarrow> bool" where
  "device_ok d \<longleftrightarrow> length (rx d) = BUFFER_SIZE \<and> length (tx d) = BUFFER_SIZE"

text \<open>What the driver of the chip documents: a frame is read into the buffer given, and its length reported.\<close>

definition reads_into_buffer :: "('u, 'w) RawDevice \<Rightarrow> bool" where
  "reads_into_buffer R \<longleftrightarrow> (\<forall>buf w w' buf' r. read_frame R buf w = (w', buf', r) \<longrightarrow>
     length buf' = length buf \<and> (\<forall>n. r = Ok n \<longrightarrow> n \<le> length buf))"

text \<open>A consumer gets a mutable slice, whose length it cannot change.\<close>

definition keeps_length :: "(u8 list \<Rightarrow> u8 list \<times> 'r) \<Rightarrow> bool" where
  "keeps_length f \<longleftrightarrow> (\<forall>bs. length (fst (f bs)) = length bs)"

text \<open>C35: the device keeps its buffers, hands on every frame whole, and its announced maximal frame is
exactly what it can send: a received frame is given to its consumer without a panic and as the chip
delivered it; sending panics exactly for frames longer than the announced maximum, and otherwise the
chip gets exactly the bytes the consumer wrote.\<close>

theorem w5500_frames_exact:
  assumes "device_ok d" and "reads_into_buffer R" and "keeps_length f"
  shows "(\<forall>d' t. device_receive R d = (d', Some t) \<longrightarrow> device_ok d' \<and>
      (\<exists>w' buf. read_frame R (rx d) (w5500 d) = (w', buf, Ok (rx_count t)) \<and> 0 < rx_count t \<and>
        (\<exists>d''. rx_consume t f d' = Ret (d'', snd (f (take (rx_count t) buf))) \<and> device_ok d''))) \<and>
    (tx_consume R len f d = Panic \<longleftrightarrow> max_transmission_unit capabilities < len) \<and>
    (len \<le> max_transmission_unit capabilities \<longrightarrow>
      (\<exists>d'. tx_consume R len f d = Ret (d', snd (f (take len (tx d)))) \<and> device_ok d' \<and>
        w5500 d' = fst (write_frame R (fst (f (take len (tx d)))) (w5500 d))))"
proof (intro conjI allI impI)
  have keep: "length (fst (f bs)) = length bs" for bs using assms(3) by (simp add: keeps_length_def)
  fix d' t assume r: "device_receive R d = (d', Some t)"
  obtain w' buf res where rd: "read_frame R (rx d) (w5500 d) = (w', buf, res)" by (cases "read_frame R (rx d) (w5500 d)")
  have len: "length buf = BUFFER_SIZE" and n: "\<And>n. res = Ok n \<Longrightarrow> n \<le> BUFFER_SIZE"
    using assms(1) assms(2) [unfolded reads_into_buffer_def, rule_format, OF rd] by (simp_all add: device_ok_def)
  have t: "res = Ok (rx_count t)" "0 < rx_count t" "d' = d\<lparr>w5500 := w', rx := buf\<rparr>"
    using r rd by (auto simp: device_receive_def split: sum.splits if_splits)
  show ok: "device_ok d'" using assms(1) len t(3) by (simp add: device_ok_def)
  have "rx_consume t f d' = Ret (d'\<lparr>rx := overwrite buf 0 (fst (f (take (rx_count t) buf)))\<rparr>, snd (f (take (rx_count t) buf)))"
    using n [OF t(1)] len t(3) by (simp add: rx_consume_def split_beta)
  moreover have "length (overwrite buf 0 (fst (f (take (rx_count t) buf)))) = BUFFER_SIZE"
    using n [OF t(1)] len keep by (simp add: keep)
  ultimately show "\<exists>w' buf. read_frame R (rx d) (w5500 d) = (w', buf, Ok (rx_count t)) \<and> 0 < rx_count t \<and>
      (\<exists>d''. rx_consume t f d' = Ret (d'', snd (f (take (rx_count t) buf))) \<and> device_ok d'')"
    using rd t ok by (auto simp: device_ok_def)
next
  have keep: "length (fst (f bs)) = length bs" for bs using assms(3) by (simp add: keeps_length_def)
  have tx: "length (tx d) = 1536" using assms(1) by (simp add: device_ok_def BUFFER_SIZE_def)
  have sent: "tx_consume R len f d = Ret (d\<lparr>tx := overwrite (tx d) 0 (fst (f (take len (tx d)))),
      w5500 := fst (write_frame R (fst (f (take len (tx d)))) (w5500 d))\<rparr>, snd (f (take len (tx d))))"
    if "len \<le> 1536"
  proof -
    have "take len (overwrite (tx d) 0 (fst (f (take len (tx d))))) = fst (f (take len (tx d)))"
      using that tx keep by (simp add: overwrite_def)
    moreover have "length (overwrite (tx d) 0 (fst (f (take len (tx d))))) = 1536" using that tx keep by simp
    ultimately show ?thesis using that tx by (simp add: tx_consume_def split_beta Let_def)
  qed
  show "tx_consume R len f d = Panic \<longleftrightarrow> max_transmission_unit capabilities < len"
  proof (cases "len \<le> 1536")
    case False
    then have "slice (tx d) 0 len = Panic" using tx by (simp add: slice_Panic_iff)
    then show ?thesis using False by (simp add: tx_consume_def capabilities_def)
  qed (simp add: sent capabilities_def)
  show "\<exists>d'. tx_consume R len f d = Ret (d', snd (f (take len (tx d)))) \<and> device_ok d' \<and>
      w5500 d' = fst (write_frame R (fst (f (take len (tx d)))) (w5500 d))"
    if "len \<le> max_transmission_unit capabilities"
    using sent that assms(1) tx keep by (simp add: capabilities_def device_ok_def BUFFER_SIZE_def)
qed

definition loopback_chip :: "(unit, u8 list) RawDevice" where
  "loopback_chip = \<lparr>initialize_macraw = (\<lambda>u mac. Ok []), enable_interrupts = (\<lambda>i w. (w, Ok ())),
     clear_interrupts = (\<lambda>w. (w, Ok ())), read_frame = (\<lambda>buf w. (w, buf, Ok 0)), write_frame = (\<lambda>b w. (b, Ok (length b)))\<rparr>"

theorem w5500_frames_exact_witness:
  "\<exists>d d'. device_new loopback_chip () [2, 0, 0, 0, 0, 1] = Ret d \<and>
     tx_consume loopback_chip 3 (\<lambda>bs. (replicate (length bs) 7, ())) d = Ret (d', ()) \<and> w5500 d' = [7, 7, 7]"
proof -
  let ?d = "\<lparr>w5500 = [], rx = buffer_new, tx = buffer_new\<rparr>" and ?f = "\<lambda>bs. (replicate (length bs) (7 :: u8), ())"
  have "device_ok ?d" "reads_into_buffer loopback_chip" "keeps_length ?f"
    by (simp_all add: device_ok_def buffer_new_def reads_into_buffer_def keeps_length_def loopback_chip_def)
  from w5500_frames_exact [OF this, of 3]
  obtain d' where "tx_consume loopback_chip 3 ?f ?d = Ret (d', ())" "w5500 d' = [7, 7, 7]"
    by (auto simp: capabilities_def buffer_new_def BUFFER_SIZE_def numeral_3_eq_3 loopback_chip_def)
  moreover have "device_new loopback_chip () [2, 0, 0, 0, 0, 1] = Ret ?d" by (simp add: device_new_def loopback_chip_def)
  ultimately show ?thesis by blast
qed

end
