(* ===== verification/Spec2Isabelle.thy ===== *)
theory Spec2Isabelle
  imports Usb_Events Rp2040 Usb_Programs Ssdp_Discovery Ssdp_Programs Ssdp_Embassy W5500
begin

text \<open>
  Verification of the cotton crates: a USB host stack for microcontrollers with mass storage on top of
  it, an implementation of SSDP, the listing of network interfaces, two small crates for embedded
  systems, and the programs for devices that use them. This theory holds what is proved of components together; each component has its own theory.

  \<^bold>\<open>The parts and their theories.\<close>

  \<^item> \<open>Prelude\<close>: the types of the model (\<open>u8\<close> to \<open>u128\<close> as words, \<open>('e, 'a) result\<close> as a sum, \<open>'a outcome\<close> for a
    computation that may panic, \<open>('s, 'e, 'a) prog\<close> for fallible code on a state), the program logic
    \<open>safeR\<close>/\<open>keepsR\<close>, checked slices, byte orders and bit counts.
  \<^item> \<open>Bit_Set\<close> (\<open>cotton-usb-host/src/bitset.rs\<close>), \<open>Async_Pool\<close> (\<open>async_pool.rs\<close>), \<open>Topology\<close> (\<open>topology.rs\<close>),
    \<open>Wire\<close> (\<open>wire.rs\<close>): the data structures of the USB host. The pool's contract is the locale \<open>slot_pool\<close>,
    interpreted for both ways of allocating.
  \<^item> \<open>Host_Controller\<close> (\<open>host_controller.rs\<close>): the trait of drivers as a record of operations, and its
    contracts as the locales \<open>usb_driver\<close>, \<open>usb_bulk_driver\<close> and \<open>usb_host\<close>.
  \<^item> \<open>Usb_Bus\<close> (\<open>usb_bus.rs\<close>): enumeration, configuration, hubs, device events, for any driver with the
    contract. \<open>Usb_Events\<close>: runs of the bus, in which events alternate with polls of the hubs' pipes.
  \<^item> \<open>Rp2040_Packets\<close>, \<open>Rp2040\<close> (\<open>host/rp2040.rs\<close>): the driver of the RP2040. It is an interpretation of
    \<open>usb_driver\<close> and \<open>usb_bulk_driver\<close>; the locale \<open>packet_engine\<close> joins packetisers to the transfer loop.
  \<^item> \<open>Scsi\<close> (\<open>cotton-scsi/src/scsi_transport.rs\<close>, \<open>scsi_device.rs\<close>), \<open>Scsi_Block\<close> (\<open>scsi_block_device.rs\<close>),
    \<open>Mass_Storage\<close> (\<open>cotton-usb-host-msc/src/mass_storage.rs\<close>): storage. The locale \<open>scsi_transport\<close> is the
    contract of a transport; the mass-storage transport is one over every \<open>usb_bulk_driver\<close> (sublocale).
  \<^item> \<open>Scsi_Disk\<close>, \<open>Usb_Disk\<close>: the same code with a disk at the other end. An array of blocks is the reference; the
    locales \<open>scsi_disk\<close> and \<open>scsi_disk_accepting\<close> say how a transport with a disk executes commands, and
    \<open>conforming_disk\<close> is the hypothesis that a disk as the USB and SCSI specifications prescribe is attached to
    the host controller. Under it the mass-storage transport satisfies the locales; \<open>disk_host\<close> is an
    instance.
  \<^item> \<open>Rust_Str\<close>, \<open>Btree_Map\<close>: the strings and ordered maps of the standard library as the code uses them
    (locale \<open>ordered_map\<close>).
  \<^item> \<open>Ssdp_Message\<close>, \<open>Refresh_Timer\<close>, \<open>Ssdp_Engine\<close> (\<open>cotton-ssdp/src/message.rs\<close>, \<open>refresh_timer.rs\<close>,
    \<open>engine.rs\<close>, \<open>event.rs\<close>): packets, the schedule and the engine of SSDP. \<open>Ssdp_Discovery\<close>: two engines on one
    network.
  \<^item> \<open>Network_Event\<close>, \<open>Netif\<close> (\<open>cotton-netif/src/network_event.rs\<close>, \<open>getifaddrs.rs\<close>, \<open>linux_netlink.rs\<close>): the
    events about network interfaces and their two sources.
  \<^item> \<open>Udp\<close> (\<open>cotton-ssdp/src/udp/\<close>), \<open>Ssdp_Service\<close> (\<open>service.rs\<close>, \<open>async_service.rs\<close>): the sockets of the
    engine, and the two services that put engine, sockets and interfaces together. \<open>Ssdp_Programs\<close>
    (\<open>cotton-ssdp/examples/ssdp-search-mio.rs\<close>, \<open>ssdp-search.rs\<close>): the two programs on them.
  \<^item> \<open>Unique_Id\<close> (\<open>cotton-unique/src/lib.rs\<close>), \<open>W5500\<close> (\<open>cotton-w5500/src/smoltcp.rs\<close>).
  \<^item> \<open>Net_Stack\<close> (\<open>cross/rp2040-w5500/src/smoltcp.rs\<close>, \<open>cross/stm32f746-nucleo/src/common.rs\<close> and the DHCP
    programs): smoltcp with its DHCP client, link and heap. \<open>Ssdp_Device\<close> (\<open>stm32f746-nucleo-ssdp-rtic.rs\<close>,
    \<open>stm32f746-ssdp-rtic2.rs\<close>, \<open>rp2040-w5500macraw-ssdp-rtic.rs\<close>) and \<open>Ssdp_Embassy\<close>
    (\<open>stm32f746-ssdp-embassy.rs\<close>): the engine on such a stack. \<open>Usb_Programs\<close> (\<open>rp2040-usb-otge100.rs\<close>,
    \<open>rp2040-usb-msc.rs\<close>): what the USB programs do with a device that is connected.

  \<^bold>\<open>How code becomes definitions.\<close> A struct is a record, an enum a datatype, and a method a function from
  the state to the new state, its result and, for the SSDP engine, the list of its effects on the
  outside in order. Panics, failed assertions, arithmetic overflow, indexing out of range and
  out-of-bounds copies in unsafe code are the value \<open>Panic\<close>; errors are the left of a sum. An asynchronous
  call is its effect from call to completion; waiting that nothing ends is \<open>Panic\<close> too (\<open>alloc_pipe\<close>), so
  that totality excludes it. What the hardware of the RP2040 answers is a list of responses that may
  say anything; each stands for one wake-up of the waiting transfer, and when they are used up the
  transfer times out, so that the hardware raises some interrupt in the end is assumed. The strings of SSDP are lists of Unicode scalar
  values with their UTF-8 bytes, \<open>usize\<close> has 64 bits, and a \<open>BTreeMap\<close> is an ascending association list.
  Recursion that is not structural has a measure; the printing of a topology has a recursion depth of
  32, which is proved to be enough.

  \<^bold>\<open>Parameters.\<close> Code of other crates is a parameter: casts of byte slices to structs (\<open>tfb\<close>, which is to
  accept exactly slices of the right length where that matters), the addition of a duration to a moment
  (\<open>add\<close>), the display of an IP address (\<open>show_ip\<close>), insertion into a slot map (\<open>ins\<close>), system calls and
  their results, netlink attributes, the hash function, the chip of the network device, smoltcp (the record \<open>Smoltcp\<close>, whose
  documented behaviour is \<open>smoltcp_laws\<close>), the scheduling of RTIC (\<open>spawn\<close>) and Embassy. A theorem that
  needs something of a parameter assumes it by name and has an instance.

  \<^bold>\<open>What is proved.\<close> Of the USB stack: no event and no response of the hardware makes bus, driver or
  storage panic, apart from the cases found below; the topology stays a tree and disconnects remove
  exactly what hangs off a port; pools hand out each resource once; outgoing packets carry exactly the
  data; a configured device has the endpoints its descriptors declare; descriptors are parsed whole and
  in order; block requests address exactly the blocks asked for; command wrappers have the prescribed
  bytes. With a disk that works, every sequence of block requests has the results and the effects of the array of blocks,
  what is written is read back, and the test program passes. Of SSDP: packets survive building and parsing; the tables of the engine are in order and its
  groups joined whatever happens; announcements reach exactly the matching subscribers; searches are
  answered in time, so that a subscription finds the matching services of other engines; the search program lists each service
  once and sleeps through no deadline; withdrawal and new addresses are announced; the timer keeps its schedule; sockets
  carry out what the engine sends; a new service knows all its interfaces. The bit set refines a set,
  the MAC addresses are well-formed, frames stay whole. Of the device programs: polling the network ends
  and follows the DHCP client; the interrupt handlers end, with no timeout left that is due, and panic
  on one kind of packet only; a first address is announced at once; the Ethernet adapter is set up with
  exactly the requests of a table; the disk program panics only over a disk it has found.

  The proofs also show where the code does not do what it means to: a search with a maximum wait of 0
  panics the engine and with it the asynchronous service for good; an empty final packet in the second
  buffer panics; a packet size of 0 from a device divides by zero; bulk transfers of 64 KiB or more are
  cut but reported whole; the tag of storage commands overflows; a pool forgets all waiters but the
  last; errors of a transfer other than stall and timeout do not wake it when they occur alone; a final
  two-byte descriptor is skipped; a location without a slash loses its port; packets that
  are too long are sent incomplete; netlink events may report an address before its interface; a bus
  takes on at most 15 hubs in its life, since their pipes are never given back; devices do not notice
  that their address changes, answer a search late when they are asleep, and on Embassy send 33 times
  too often; a write that a disk refuses by halting its endpoint makes the disk unusable, since the other
  endpoint is cleared; blocks beyond the end of a disk are reported as a general error; the size of a
  disk is one block short; a second search of a client is dropped while the first is unanswered.

  \<^bold>\<open>Not modelled.\<close> Debug output, delays, the acknowledgement of interrupts, the executors and the streams
  around single polls, the \<open>Display\<close> of errors, the mocks, the program that only prints network events, the set-up of clocks, pins and peripherals in
  the device programs, the DHCP client of the w5500 crates, the programs that only say hello, and the
  tests under \<open>systemtests/\<close>: they hold no logic of the crates or belong to other ones.
\<close>

section \<open>Silence on the bus\<close>

text \<open>
  With no responses of the hardware left every transfer times out, so nothing is reported by any
  device.
\<close>

lemma transfer_loop_silent:
  "transfer_loop prep ret dir [] b n p d s = Ret (s', d', r) \<Longrightarrow> responses s' = []"
  by (auto simp: obind_Ret_iff)

lemma control_phases_silent:
  assumes "responses s = []"
  shows "\<exists>s'. control_phases a ps pkt d s = Ret (s', Err Timeout, d) \<and> responses s' = []"
  using assms by (simp add: control_phases_def send_setup_def Let_def)

lemma pipe_responses:
  "alloc_pipe ty s = Ret (t, q) \<Longrightarrow> responses t = responses s"
  "try_alloc_pipe ty s = Ret (t, q') \<Longrightarrow> responses t = responses s"
  "drop_control_pipe q s = Ret t \<Longrightarrow> responses t = responses s"
  "poll_alloc_pipe ty s = Ret (t, m) \<Longrightarrow> responses t = responses s"
  by (auto simp: alloc_pipe_def poll_alloc_pipe_def try_alloc_pipe_def drop_control_pipe_def obind_Ret_iff
      split: if_splits option.splits)

lemma rp2040_control_silent:
  assumes "responses s = []" and "rp2040_control_transfer a ps pkt d s = Ret (s', r, d')"
  shows "r = Err Timeout \<and> responses s' = []"
proof -
  from assms(2) obtain s1 pipe s2 r2 d2 where
    1: "alloc_pipe Control s = Ret (s1, pipe)" "control_phases a ps pkt d s1 = Ret (s2, r, d')"
      "drop_control_pipe pipe s2 = Ret s'"
    by (auto simp: rp2040_control_transfer_def obind_Ret_iff)
  have "responses s1 = []" using pipe_responses(1) [OF 1(1)] assms(1) by simp
  then show ?thesis using control_phases_silent [of s1 a ps pkt d] 1(2) pipe_responses(3) [OF 1(3)] by auto
qed

lemma interrupt_pipe_responses: "interrupt_pipe pipe a e mp i s = Ret (t, itp) \<Longrightarrow> responses t = responses s"
  by (auto simp: interrupt_pipe_def Let_def obind_Ret_iff split: if_splits)

lemma rp2040_pipes_responses:
  "rp2040_try_alloc_interrupt_pipe a e mp i s = Ret (t, q) \<Longrightarrow> responses t = responses s"
  "rp2040_alloc_interrupt_pipe a e mp i s = Ret (t, m) \<Longrightarrow> responses t = responses s"
  "interrupt_poll p s = Ret (t, p', m') \<Longrightarrow> responses t = responses s"
  by (auto simp: rp2040_try_alloc_interrupt_pipe_def rp2040_alloc_interrupt_pipe_def interrupt_poll_def Let_def
      obind_Ret_iff pipe_responses interrupt_pipe_responses split: option.splits if_splits)

lemma rp2040_future_silent:
  "hc_future rp2040_host s t \<Longrightarrow> responses s = [] \<Longrightarrow> responses t = []"
proof (induction rule: hc_future.induct)
  case (future_reset s t b)
  then show ?case by (simp add: rp2040_host_def rp2040_reset_root_port_def)
next
  case (future_control s t a ps pkt d u r d')
  then show ?case using rp2040_control_silent by (simp add: rp2040_host_def)
next
  case (future_wait s t a e mp i u m)
  then show ?case using rp2040_pipes_responses(2) by (simp add: rp2040_host_def)
next
  case (future_alloc s t a e mp i u q)
  then show ?case using rp2040_pipes_responses(1) by (simp add: rp2040_host_def)
next
  case (future_poll s t p u p' m)
  then show ?case using rp2040_pipes_responses(3) by (simp add: rp2040_host_def)
qed

lemma rp2040_silent_honest:
  assumes "responses s = []"
  shows "honest_devices rp2040_host ps_ok s"
proof -
  have "reports_packet_size rp2040_host ps_ok t" if "hc_future rp2040_host s t" for t
    using rp2040_control_silent [OF rp2040_future_silent [OF that assms]]
    by (fastforce simp: reports_packet_size_def rp2040_host_def)
  then show ?thesis by (simp add: honest_devices_def)
qed

section \<open>The bus on the driver\<close>

interpretation rp2040_bus: usb_host rp2040_host
    "\<lambda>s. rp_inv s \<and> honest_devices rp2040_host (\<lambda>ps. ps \<noteq> 0) s" "\<lambda>ps. ps \<noteq> 0" itp_ok
  by (rule rp2040.honest_host)

text \<open>The driver as the transport of SCSI commands.\<close>

interpretation rp2040_storage: scsi_transport "mass_storage_transport rp2040_host" "ms_inv rp_inv"
  by (rule usb_bulk_driver.storage_transport [OF rp2040_bulk.usb_bulk_driver_axioms])

section \<open>Properties of the composed system\<close>









end
